(* ===== verification/Go_Prelude.thy ===== *)
theory Go_Prelude
  imports Main "HOL-Library.Word"
begin

text \<open>
  Shared vocabulary of the development: the identifiers and instants of the program, Go error
  values with their wrap chains and \<^verbatim>\<open>errors.Is\<close>, the functions of Go's
  \<^verbatim>\<open>strings\<close> package the sources call, and the lemma collections used by the
  component theories.

  Strings are lists of the code points U+0000 to U+00FF (one \<^typ>\<open>char\<close> each); the functions
  below follow the documented behaviour of Go on exactly these code points.  Instants are
  nanoseconds (\<^typ>\<open>int\<close>), \<^verbatim>\<open>uuid.UUID\<close> is its sixteen bytes.
\<close>

section \<open>Lemma collections\<close>

named_theorems queue_simps \<open>definitions of the listener queues\<close>
named_theorems store_simps \<open>definitions of the message storage operations\<close>
named_theorems perm_simps \<open>definitions of the permission predicates\<close>
named_theorems http_simps \<open>definitions of the HTTP response pipeline\<close>
named_theorems tx_simps \<open>definitions of the transaction layer\<close>

section \<open>Identifiers, instants\<close>

type_synonym uuid = "128 word"
type_synonym time = int
type_synonym topic = string

definition uuid_nil :: uuid where
  "uuid_nil = 0"

text \<open>\<^verbatim>\<open>time.Hour\<close> and \<^verbatim>\<open>time.Minute\<close> in nanoseconds.\<close>

definition time_minute :: int where
  "time_minute = 60 * 1000000000"

definition time_hour :: int where
  "time_hour = 60 * time_minute"

section \<open>Go errors\<close>

text \<open>
  A sentinel is an error variable that code compares against by identity: the package-level
  variables of the repository, the two context errors, the sentinels of the standard library
  the sources name, and errors of code outside the repository (\<^term>\<open>Opaque n\<close>).
\<close>

datatype sentinel =
    ContextCanceled
  | ContextDeadlineExceeded
  | SqlErrNoRows
  | SqlErrTxDone
  | HttpErrServerClosed
  | ErrUnauthenticated
  | ErrPermissionDenied
  | ErrParsingError
  | ErrDeserializeUnknownMessage
  | ErrNegativeAckNotSupported
  | ErrAlreadyInserted
  | DomainErrUserNotFound
  | ErrInvalidToken
  | ErrInvalidUserCredentials
  | ServiceErrUserNotFound
  | ErrUserIsAlreadyDeleted
  | ErrUserAlreadyExists
  | DomainErrUserProfileNotFound
  | AppErrUserNotFound
  | ProfileErrUserNotFound
  | ErrUserProfileNotFound
  | ErrInvalidUserProfileData
  | ErrJobCompleted
  | Opaque nat

text \<open>
  An error is a sentinel, or a value made by \<^verbatim>\<open>fmt.Errorf\<close>: its format and the errors it
  wraps with \<^verbatim>\<open>%w\<close> (several are possible); \<^verbatim>\<open>errors.New\<close> inside a function wraps none.
  The verbs other than \<^verbatim>\<open>%w\<close> only build the text of the error and are left out.  The nil error is
  \<^const>\<open>None\<close> of \<^typ>\<open>'a option\<close>.
\<close>

datatype go_error = Sentinel sentinel | Errorf string "go_error list"

type_synonym err = "go_error option"

fun error_is :: "go_error \<Rightarrow> sentinel \<Rightarrow> bool" where
  "error_is (Sentinel s) t = (s = t)"
| "error_is (Errorf m es) t = list_ex (\<lambda>e. error_is e t) es"

text \<open>\<^verbatim>\<open>errors.Is(err, target)\<close>: the nil error is only the nil target.\<close>

fun errors_is :: "err \<Rightarrow> sentinel option \<Rightarrow> bool" where
  "errors_is None t = (t = None)"
| "errors_is (Some e) None = False"
| "errors_is (Some e) (Some t) = error_is e t"

abbreviation errorf :: "string \<Rightarrow> go_error \<Rightarrow> go_error" where
  "errorf m e \<equiv> Errorf m [e]"

abbreviation errors_new :: "string \<Rightarrow> go_error" where
  "errors_new m \<equiv> Errorf m []"

lemma errors_is_wrap [simp]: "errors_is (Some (errorf m e)) t = errors_is (Some e) t"
  by (cases t) simp_all

lemma errors_is_new [simp]: "\<not> errors_is (Some (errors_new m)) t"
  by (cases t) simp_all

text \<open>A call that can panic.\<close>

datatype 'a outcome = Returns 'a | Panics

section \<open>Package strings\<close>

abbreviation code_point :: "char \<Rightarrow> nat" where
  "code_point c \<equiv> of_char c"

text \<open>\<^verbatim>\<open>unicode.IsSpace\<close> below U+0100.\<close>

definition is_space :: "char \<Rightarrow> bool" where
  "is_space c = (code_point c \<in> {9, 10, 11, 12, 13, 32, 133, 160})"

definition trim_space :: "string \<Rightarrow> string" where
  "trim_space s = rev (dropWhile is_space (rev (dropWhile is_space s)))"

text \<open>\<^verbatim>\<open>unicode.ToLower\<close> below U+0100: the ASCII capitals and the capitals U+00C0 to U+00DE
  except the multiplication sign U+00D7.\<close>

definition lower_char :: "char \<Rightarrow> char" where
  "lower_char c =
     (let n = code_point c in
      if 65 \<le> n \<and> n \<le> 90 \<or> 192 \<le> n \<and> n \<le> 222 \<and> n \<noteq> 215 then char_of (n + 32) else c)"

definition to_lower :: "string \<Rightarrow> string" where
  "to_lower s = map lower_char s"

fun join :: "string list \<Rightarrow> string \<Rightarrow> string" where
  "join [] sep = []"
| "join [x] sep = x"
| "join (x # y # xs) sep = x @ sep @ join (y # xs) sep"

lemma trim_space_Nil [simp]: "trim_space [] = []"
  by (simp add: trim_space_def)

lemma trim_space_eq_Nil: "trim_space s = [] \<longleftrightarrow> list_all is_space s"
proof -
  have "(\<forall>x \<in> set (dropWhile is_space s). is_space x) \<longleftrightarrow> dropWhile is_space s = []"
    by (metis dropWhile_eq_Nil_conv dropWhile_idem)
  then show ?thesis
    by (simp add: trim_space_def list_all_iff)
qed

lemma trim_space_idem [simp]: "trim_space (trim_space s) = trim_space s"
proof (cases "trim_space s")
  case (Cons c u)
  let ?t = "dropWhile is_space s"
  have suffix: "?t = trim_space s @ rev (takeWhile is_space (rev ?t))"
    unfolding trim_space_def by (metis rev_append rev_rev_ident takeWhile_dropWhile_id)
  then have "?t \<noteq> []" "hd ?t = c" using Cons by (metis append_is_Nil_conv list.distinct(1), metis append_Cons list.sel(1))
  then have "\<not> is_space c" using hd_dropWhile [of is_space s] by metis
  then have "dropWhile is_space (trim_space s) = trim_space s" using Cons by simp
  then have "trim_space (trim_space s) = rev (dropWhile is_space (rev (trim_space s)))" by (simp add: trim_space_def)
  also have "\<dots> = trim_space s" by (simp add: trim_space_def)
  finally show ?thesis .
qed simp

lemma lower_char_idem: "lower_char (lower_char c) = lower_char c"
proof (cases "65 \<le> code_point c \<and> code_point c \<le> 90
    \<or> 192 \<le> code_point c \<and> code_point c \<le> 222 \<and> code_point c \<noteq> 215")
  case True
  then have "code_point c + 32 < 256" by auto
  then have "code_point (char_of (code_point c + 32)) = code_point c + 32" by simp
  with True show ?thesis by (auto simp: lower_char_def Let_def)
next
  case False
  then show ?thesis by (auto simp: lower_char_def Let_def)
qed

lemma to_lower_idem [simp]: "to_lower (to_lower s) = to_lower s"
  by (simp add: to_lower_def lower_char_idem)

lemma to_lower_eq_Nil [simp]: "to_lower s = [] \<longleftrightarrow> s = []"
  by (simp add: to_lower_def)

section \<open>Lists and options\<close>

lemma takeWhile_prefix_all: "i < length (takeWhile P xs) \<Longrightarrow> P (xs ! i)"
  by (metis nth_mem set_takeWhileD takeWhile_nth)

lemma take_length_takeWhile: "take (length (takeWhile P xs)) xs = takeWhile P xs"
  by (metis append_eq_conv_conj takeWhile_dropWhile_id)

end
