(* ===== verification/Message_Model.thy ===== *)
theory Message_Model
  imports Go_Prelude
begin

text \<open>
  Package \<^verbatim>\<open>pkg/message\<close>: the message types (\<^verbatim>\<open>message.go\<close>, \<^verbatim>\<open>broker.go\<close>), topic and
  subscriber names (\<^verbatim>\<open>topic.go\<close>, \<^verbatim>\<open>subscriber.go\<close>).  The case converter
  \<^verbatim>\<open>strcase.ToKebab\<close> of the third-party package \<^verbatim>\<open>strcase\<close> is the parameter \<open>kebab\<close>.
\<close>

section \<open>Messages\<close>

record message =
  msg_ID :: uuid
  msg_Topic :: topic
  msg_Key :: string
  msg_Payload :: string

text \<open>
  A \<^verbatim>\<open>*ConsumerMessage\<close>: the queues compare these by pointer, so the pointer is part of the
  value; two consumer messages are the same object when their pointers are equal.
\<close>

record consumer_message =
  cm_ptr :: nat
  cm_Message :: message

section \<open>Topic names\<close>

record topic_builder =
  tb_baseName :: string
  tb_domain :: string
  tb_aggregate :: string
  tb_messageType :: string
  tb_customTags :: "string list"

type_synonym topic_option = "topic_builder \<Rightarrow> topic_builder"

definition add_tag_if_not_empty :: "string \<Rightarrow> string \<Rightarrow> string" where
  "add_tag_if_not_empty tag sb = (if tag \<noteq> [] then sb @ CHR ''.'' # tag else sb)"

definition topic_build :: "topic_builder \<Rightarrow> topic" where
  "topic_build b =
     fold add_tag_if_not_empty (tb_customTags b)
       (add_tag_if_not_empty (tb_messageType b)
         (add_tag_if_not_empty (tb_aggregate b)
           (add_tag_if_not_empty (tb_domain b) (tb_baseName b))))"

definition WithTopicDomainName :: "(string \<Rightarrow> string) \<Rightarrow> string \<Rightarrow> topic_option" where
  "WithTopicDomainName kebab name = (\<lambda>b. b\<lparr>tb_domain := kebab name @ ''-domain''\<rparr>)"

definition WithTopicAggregateName :: "(string \<Rightarrow> string) \<Rightarrow> string \<Rightarrow> topic_option" where
  "WithTopicAggregateName kebab name = (\<lambda>b. b\<lparr>tb_aggregate := kebab name @ ''-aggregate''\<rparr>)"

definition WithTopicMessageType :: "(string \<Rightarrow> string) \<Rightarrow> string \<Rightarrow> topic_option" where
  "WithTopicMessageType kebab msgType = (\<lambda>b. b\<lparr>tb_messageType := kebab msgType @ ''-type''\<rparr>)"

definition WithTopicCustomTags :: "(string \<Rightarrow> string) \<Rightarrow> string list \<Rightarrow> topic_option" where
  "WithTopicCustomTags kebab tags = (\<lambda>b. b\<lparr>tb_customTags := tb_customTags b @ map kebab tags\<rparr>)"

definition NewTopic :: "(string \<Rightarrow> string) \<Rightarrow> string \<Rightarrow> topic_option list \<Rightarrow> topic" where
  "NewTopic kebab baseName opts =
     topic_build (fold (\<lambda>opt b. opt b) opts
       \<lparr>tb_baseName = kebab baseName, tb_domain = [], tb_aggregate = [], tb_messageType = [],
        tb_customTags = []\<rparr>)"

definition NewRawTopic :: "string \<Rightarrow> topic" where
  "NewRawTopic t = t"

definition NewTopicDomainEvent ::
    "(string \<Rightarrow> string) \<Rightarrow> string \<Rightarrow> string \<Rightarrow> string list \<Rightarrow> topic" where
  "NewTopicDomainEvent kebab domainName aggregateName customTags =
     NewTopic kebab ''domain-event''
       [WithTopicDomainName kebab domainName, WithTopicAggregateName kebab aggregateName,
        WithTopicCustomTags kebab customTags]"

definition NewTopicTaskQueue ::
    "(string \<Rightarrow> string) \<Rightarrow> string \<Rightarrow> string \<Rightarrow> string list \<Rightarrow> topic" where
  "NewTopicTaskQueue kebab domainName taskType customTags =
     NewTopic kebab ''task-queue''
       [WithTopicDomainName kebab domainName, WithTopicMessageType kebab taskType,
        WithTopicCustomTags kebab customTags]"

definition NewSubscriber :: "(string \<Rightarrow> string) \<Rightarrow> string \<Rightarrow> string" where
  "NewSubscriber kebab name = kebab name"

definition NewSubscriberCustom :: "(string \<Rightarrow> string) \<Rightarrow> string \<Rightarrow> string \<Rightarrow> string" where
  "NewSubscriberCustom kebab name custom = NewSubscriber kebab (name @ ''-'' @ custom)"

definition NewSubscriberService :: "(string \<Rightarrow> string) \<Rightarrow> string \<Rightarrow> string" where
  "NewSubscriberService kebab name = NewSubscriberCustom kebab name ''service''"

section \<open>The name is the list of its tags\<close>

text \<open>
  Splitting at the dots gives the tags back: the reference reading of a topic name.
\<close>

fun dot_split :: "string \<Rightarrow> string list" where
  "dot_split [] = [[]]"
| "dot_split (c # cs) =
     (if c = CHR ''.'' then [] # dot_split cs
      else (case dot_split cs of [] \<Rightarrow> [[c]] | t # ts \<Rightarrow> (c # t) # ts))"

lemma dot_split_neq_Nil [simp]: "dot_split s \<noteq> []"
  by (cases s) (auto split: list.split)

lemma dot_split_tag: "CHR ''.'' \<notin> set s \<Longrightarrow> dot_split s = [s]"
  by (induction s) auto

lemma dot_split_snoc:
  "CHR ''.'' \<notin> set tag \<Longrightarrow> dot_split (s @ CHR ''.'' # tag) = dot_split s @ [tag]"
  by (induction s) (auto simp: dot_split_tag split: list.split)

lemma dot_split_add_tag:
  "CHR ''.'' \<notin> set tag \<Longrightarrow>
   dot_split (add_tag_if_not_empty tag s) = dot_split s @ (if tag = [] then [] else [tag])"
  by (simp add: add_tag_if_not_empty_def dot_split_snoc)

lemma dot_split_fold_tags:
  "\<forall>t \<in> set tags. CHR ''.'' \<notin> set t \<Longrightarrow>
   dot_split (fold add_tag_if_not_empty tags s) = dot_split s @ filter (\<lambda>t. t \<noteq> []) tags"
  by (induction tags arbitrary: s) (auto simp: dot_split_add_tag)

lemmas topic_defs = NewTopicDomainEvent_def NewTopicTaskQueue_def NewTopic_def topic_build_def
  WithTopicDomainName_def WithTopicAggregateName_def WithTopicMessageType_def
  WithTopicCustomTags_def

lemma dot_split_domain_event:
  assumes "\<And>s. CHR ''.'' \<notin> set (kebab s)"
  shows "dot_split (NewTopicDomainEvent kebab d a tags) =
    [kebab ''domain-event'', kebab d @ ''-domain'', kebab a @ ''-aggregate'']
      @ filter (\<lambda>t. t \<noteq> []) (map kebab tags)"
  using assms by (simp add: topic_defs dot_split_fold_tags dot_split_add_tag dot_split_tag)

lemma dot_split_task_queue:
  assumes "\<And>s. CHR ''.'' \<notin> set (kebab s)"
  shows "dot_split (NewTopicTaskQueue kebab d ty tags) =
    [kebab ''task-queue'', kebab d @ ''-domain'', kebab ty @ ''-type'']
      @ filter (\<lambda>t. t \<noteq> []) (map kebab tags)"
  using assms by (simp add: topic_defs dot_split_fold_tags dot_split_add_tag dot_split_tag)

lemma aggregate_suffix_neq_type: "x @ ''-aggregate'' \<noteq> y @ ''-type''"
proof
  assume "x @ ''-aggregate'' = y @ ''-type''"
  then have "drop 2 (rev (x @ ''-aggregate'')) = drop 2 (rev (y @ ''-type''))" by simp
  then show False by simp
qed

lemma fold_tags_filter:
  "fold add_tag_if_not_empty ts s = fold add_tag_if_not_empty (filter (\<lambda>t. t \<noteq> []) ts) s"
  by (induction ts arbitrary: s) (auto simp: add_tag_if_not_empty_def)

section \<open>Properties\<close>

text \<open>
  C37. Topic names are unambiguous: when the case converter never produces a dot, the topics of
  two domain events agree only if domain, aggregate and the non-empty custom tags agree (after
  conversion), the queues of two task types only if domain, task type and these tags agree, and no domain-event topic
  is a task-queue topic.
\<close>

theorem topic_names_unambiguous:
  assumes "\<And>s. CHR ''.'' \<notin> set (kebab s)"
  shows "(NewTopicDomainEvent kebab d a tags = NewTopicDomainEvent kebab d' a' tags') =
      (kebab d = kebab d' \<and> kebab a = kebab a'
       \<and> filter (\<lambda>t. t \<noteq> []) (map kebab tags) = filter (\<lambda>t. t \<noteq> []) (map kebab tags'))
    \<and> (NewTopicTaskQueue kebab d ty tags = NewTopicTaskQueue kebab d' ty' tags') =
      (kebab d = kebab d' \<and> kebab ty = kebab ty'
       \<and> filter (\<lambda>t. t \<noteq> []) (map kebab tags) = filter (\<lambda>t. t \<noteq> []) (map kebab tags'))
    \<and> NewTopicDomainEvent kebab d a tags \<noteq> NewTopicTaskQueue kebab d'' ty'' tags''"
proof (intro conjI)
  let ?tags = "filter (\<lambda>t. t \<noteq> []) (map kebab tags)" and ?tags' = "filter (\<lambda>t. t \<noteq> []) (map kebab tags')"
  note split = dot_split_domain_event [OF assms] dot_split_task_queue [OF assms]
  note same = topic_defs fold_tags_filter [of "map kebab tags"] fold_tags_filter [of "map kebab tags'"]
  show "(NewTopicDomainEvent kebab d a tags = NewTopicDomainEvent kebab d' a' tags') = (kebab d = kebab d' \<and> kebab a = kebab a' \<and> ?tags = ?tags')"
  proof
    assume "NewTopicDomainEvent kebab d a tags = NewTopicDomainEvent kebab d' a' tags'"
    then have "dot_split (NewTopicDomainEvent kebab d a tags) = dot_split (NewTopicDomainEvent kebab d' a' tags')" by simp
    then show "kebab d = kebab d' \<and> kebab a = kebab a' \<and> ?tags = ?tags'" unfolding split by simp
  qed (simp add: same)
  show "(NewTopicTaskQueue kebab d ty tags = NewTopicTaskQueue kebab d' ty' tags') = (kebab d = kebab d' \<and> kebab ty = kebab ty' \<and> ?tags = ?tags')"
  proof
    assume "NewTopicTaskQueue kebab d ty tags = NewTopicTaskQueue kebab d' ty' tags'"
    then have "dot_split (NewTopicTaskQueue kebab d ty tags) = dot_split (NewTopicTaskQueue kebab d' ty' tags')" by simp
    then show "kebab d = kebab d' \<and> kebab ty = kebab ty' \<and> ?tags = ?tags'" unfolding split by simp
  qed (simp add: same)
  show "NewTopicDomainEvent kebab d a tags \<noteq> NewTopicTaskQueue kebab d'' ty'' tags''"
  proof
    assume "NewTopicDomainEvent kebab d a tags = NewTopicTaskQueue kebab d'' ty'' tags''"
    then have "dot_split (NewTopicDomainEvent kebab d a tags) = dot_split (NewTopicTaskQueue kebab d'' ty'' tags'')" by simp
    then show False unfolding split by (simp add: aggregate_suffix_neq_type)
  qed
qed

theorem topic_names_unambiguous_witness:
  "NewTopicDomainEvent (filter (\<lambda>c. c \<noteq> CHR ''.'')) ''user'' ''user'' []
     \<noteq> NewTopicDomainEvent (filter (\<lambda>c. c \<noteq> CHR ''.'')) ''user'' ''profile'' []
   \<and> NewTopicTaskQueue (filter (\<lambda>c. c \<noteq> CHR ''.'')) ''user'' ''user'' []
     \<noteq> NewTopicTaskQueue (filter (\<lambda>c. c \<noteq> CHR ''.'')) ''user'' ''profile'' []"
proof -
  have "\<And>s. CHR ''.'' \<notin> set (filter (\<lambda>c. c \<noteq> CHR ''.'') s)" by simp
  from topic_names_unambiguous [OF this, where d = "''user''" and a = "''user''" and ty = "''user''" and tags = "[]"
      and d' = "''user''" and a' = "''profile''" and ty' = "''profile''" and tags' = "[]"]
  show ?thesis by simp
qed

end
