(* ===== verification/Log_Model.thy ===== *)
theory Log_Model
  imports Go_Prelude
begin

text \<open>
  \<^verbatim>\<open>pkg/log\<close> and \<^verbatim>\<open>pkg/metric\<close>.  A logger is its handler's level and the attributes it has
  accumulated; writing a record or a metric is an observation, and the hooks of the messaging
  components return lists of them.  A field map is an association list in the order Go iterates
  over it.  The context carries a list of attributes under \<^verbatim>\<open>fieldsContextKey\<close>.
\<close>

datatype level = LevelDisabled | LevelDebug | LevelInfo | LevelWarn | LevelError

datatype fval =
    FStr string
  | FUuid uuid
  | FBool bool
  | FInt int
  | FErr go_error
  | FTime "time option"
  | FOptErr err
  | FOptStr "string option"
  | FFields "(string \<times> fval) list"

type_synonym fields = "(string \<times> fval) list"

datatype obs =
    ObsLog level string fields
  | ObsIncrement string fields
  | ObsDuration string fields

text \<open>\<^verbatim>\<open>New\<close> returns the stub for the disabled level.\<close>

datatype logger = LoggerStub | Logger level fields

text \<open>\<^verbatim>\<open>slogLevelMap\<close> into slog's numeric levels (Debug -4, Info 0, Warn 4, Error 8); a missing key
  reads as zero.\<close>

fun slog_level :: "level \<Rightarrow> int" where
  "slog_level LevelDisabled = 0"
| "slog_level LevelDebug = -4"
| "slog_level LevelInfo = 0"
| "slog_level LevelWarn = 4"
| "slog_level LevelError = 8"

definition log_New :: "level \<Rightarrow> logger" where
  "log_New lvl = (if lvl = LevelDisabled then LoggerStub else Logger lvl [])"

fun log_With :: "logger \<Rightarrow> fields \<Rightarrow> logger" where
  "log_With LoggerStub fs = LoggerStub"
| "log_With (Logger lvl as) fs = (if fs = [] then Logger lvl as else Logger lvl (as @ fs))"

fun log_WithField :: "logger \<Rightarrow> string \<Rightarrow> fval \<Rightarrow> logger" where
  "log_WithField LoggerStub name v = LoggerStub"
| "log_WithField (Logger lvl as) name v = Logger lvl (as @ [(name, v)])"

fun log_WithError :: "logger \<Rightarrow> err \<Rightarrow> logger" where
  "log_WithError LoggerStub e = LoggerStub"
| "log_WithError (Logger lvl as) None = Logger lvl as"
| "log_WithError (Logger lvl as) (Some e) = Logger lvl (as @ [(''error'', FErr e)])"

text \<open>\<^verbatim>\<open>WithContext\<close>, on the attribute list of the context.\<close>

fun log_WithContext :: "logger \<Rightarrow> fields \<Rightarrow> fields \<Rightarrow> fields" where
  "log_WithContext LoggerStub ctx fs = ctx"
| "log_WithContext (Logger lvl as) ctx fs = (if fs = [] then ctx else ctx @ fs)"

text \<open>
  slog writes a record whose level is at least the handler's.  The attributes of the context are
  read by a method call on it (\<^verbatim>\<open>getContextFields\<close>), which panics on the nil context
  (\<^const>\<open>None\<close>); the stub does not look at it.
\<close>

fun slog_write :: "logger \<Rightarrow> fields option \<Rightarrow> level \<Rightarrow> string \<Rightarrow> obs list outcome" where
  "slog_write LoggerStub ctx lvl msg = Returns []"
| "slog_write (Logger lo as) None lvl msg = Panics"
| "slog_write (Logger lo as) (Some ctx) lvl msg =
     Returns (if slog_level lo \<le> slog_level lvl then [ObsLog lvl msg (as @ ctx)] else [])"

definition log_Log :: "logger \<Rightarrow> fields option \<Rightarrow> level \<Rightarrow> string \<Rightarrow> obs list outcome" where
  "log_Log l ctx lvl msg = (if lvl = LevelDisabled then Returns [] else slog_write l ctx lvl msg)"

definition log_Debug :: "logger \<Rightarrow> fields option \<Rightarrow> string \<Rightarrow> obs list outcome" where
  "log_Debug l ctx msg = slog_write l ctx LevelDebug msg"

definition log_Info :: "logger \<Rightarrow> fields option \<Rightarrow> string \<Rightarrow> obs list outcome" where
  "log_Info l ctx msg = slog_write l ctx LevelInfo msg"

definition log_Warn :: "logger \<Rightarrow> fields option \<Rightarrow> string \<Rightarrow> obs list outcome" where
  "log_Warn l ctx msg = slog_write l ctx LevelWarn msg"

definition log_Error :: "logger \<Rightarrow> fields option \<Rightarrow> string \<Rightarrow> obs list outcome" where
  "log_Error l ctx msg = slog_write l ctx LevelError msg"

text \<open>What a log call with a non-nil context writes.\<close>

definition written :: "obs list outcome \<Rightarrow> obs list" where
  "written o' = (case o' of Returns os \<Rightarrow> os | Panics \<Rightarrow> [])"

text \<open>A metrics client is the labels it has accumulated.\<close>

type_synonym metrics = fields

definition met_With :: "metrics \<Rightarrow> fields \<Rightarrow> metrics" where
  "met_With m ls = m @ ls"

definition met_Increment :: "metrics \<Rightarrow> string \<Rightarrow> obs list" where
  "met_Increment m name = [ObsIncrement name m]"

definition met_Duration :: "metrics \<Rightarrow> string \<Rightarrow> obs list" where
  "met_Duration m name = [ObsDuration name m]"

lemma log_stub_silent [simp]: "log_Log LoggerStub ctx lvl msg = Returns []"
  by (simp add: log_Log_def)

lemma log_Log_ctx: "\<exists>os. log_Log l (Some ctx) lvl msg = Returns os"
  by (cases l) (simp_all add: log_Log_def)

text \<open>\<^verbatim>\<open>Log\<close> with a level is the method of that level.\<close>

lemma log_Log_methods:
  "log_Log l ctx lvl msg = (case lvl of LevelDisabled \<Rightarrow> Returns [] | LevelDebug \<Rightarrow> log_Debug l ctx msg | LevelInfo \<Rightarrow> log_Info l ctx msg
     | LevelWarn \<Rightarrow> log_Warn l ctx msg | LevelError \<Rightarrow> log_Error l ctx msg)"
  by (cases lvl) (simp_all add: log_Log_def log_Debug_def log_Info_def log_Warn_def log_Error_def)

end
