(* ===== verification/Auth_Model.thy ===== *)
theory Auth_Model
  imports Go_Prelude
begin

text \<open>
  \<^verbatim>\<open>pkg/auth\<close> and \<^verbatim>\<open>internal/pkg/auth\<close>: principals, tokens, authentication, the permission service, and the
  permissions of the user and user profile domains.  The generic principal of \<^verbatim>\<open>pkg/auth\<close> is instantiated as
  the program does, with the one principal type of \<^verbatim>\<open>internal/pkg/auth\<close>.
\<close>

section \<open>Principals and tokens\<close>

record principal =
  p_UserID :: "uuid option"
  p_AdminUserID :: "string option"
  p_ServiceName :: "string option"

datatype token = UserIDToken uuid | AdminUserIDToken string | ServiceNameToken string | OtherToken string

fun token_Type :: "token \<Rightarrow> string" where
  "token_Type (UserIDToken u) = ''user''"
| "token_Type (AdminUserIDToken s) = ''adminUser''"
| "token_Type (ServiceNameToken s) = ''service''"
| "token_Type (OtherToken ty) = ty"

text \<open>An authentication is its principal, if any.\<close>

type_synonym authentication = "principal option"

definition IsAuthenticated :: "authentication \<Rightarrow> bool" where
  "IsAuthenticated a \<longleftrightarrow> a \<noteq> None"

fun provider_Authenticate :: "token \<Rightarrow> go_error + authentication" where
  "provider_Authenticate (UserIDToken u) = Inr (Some \<lparr>p_UserID = Some u, p_AdminUserID = None, p_ServiceName = None\<rparr>)"
| "provider_Authenticate (AdminUserIDToken s) = Inr (Some \<lparr>p_UserID = None, p_AdminUserID = Some s, p_ServiceName = None\<rparr>)"
| "provider_Authenticate (ServiceNameToken s) = Inr (Some \<lparr>p_UserID = None, p_AdminUserID = None, p_ServiceName = Some s\<rparr>)"
| "provider_Authenticate (OtherToken ty) = Inl (errors_new ''unknown token'')"

definition principal_Type :: "principal \<Rightarrow> string" where
  "principal_Type p =
     (if p_UserID p \<noteq> None then ''user''
      else if p_AdminUserID p \<noteq> None then ''adminUser''
      else if p_ServiceName p \<noteq> None then ''service''
      else ''unknown'')"

definition principal_ID :: "(uuid \<Rightarrow> string) \<Rightarrow> principal \<Rightarrow> string option" where
  "principal_ID uuid_string p =
     (case p_UserID p of
        Some u \<Rightarrow> Some (uuid_string u)
      | None \<Rightarrow> (case p_AdminUserID p of Some s \<Rightarrow> Some s | None \<Rightarrow> p_ServiceName p))"

section \<open>The authentication of a context\<close>

text \<open>What a context has under \<^verbatim>\<open>authenticationContextKey\<close>: nothing, or an authentication.\<close>

type_synonym auth_value = "authentication option"

definition WithAuthentication :: "authentication \<Rightarrow> auth_value \<Rightarrow> auth_value" where
  "WithAuthentication a v = Some a"

definition GetAuthentication :: "auth_value \<Rightarrow> authentication option" where
  "GetAuthentication v = v"

definition ctx_IsAuthenticated :: "auth_value \<Rightarrow> go_error + bool" where
  "ctx_IsAuthenticated v =
     (case v of None \<Rightarrow> Inl (errors_new ''authentication not found'') | Some a \<Rightarrow> Inr (IsAuthenticated a))"

section \<open>Permission service\<close>

type_synonym permission = "authentication \<Rightarrow> go_error + bool"

type_synonym 'a permission_filter = "authentication \<Rightarrow> go_error + 'a"

definition permission_Check :: "auth_value \<Rightarrow> permission \<Rightarrow> err" where
  "permission_Check v perm =
     (case GetAuthentication v of
        None \<Rightarrow> Some (errors_new ''authentication not found'')
      | Some a \<Rightarrow>
          (case perm a of
             Inl e \<Rightarrow> Some (errorf ''check permission'' e)
           | Inr allowed \<Rightarrow> if allowed then None else Some (Sentinel ErrPermissionDenied)))"

definition permission_Filter :: "auth_value \<Rightarrow> 'a permission_filter \<Rightarrow> go_error + 'a" where
  "permission_Filter v f =
     (case GetAuthentication v of
        None \<Rightarrow> Inl (errors_new ''authentication not found'')
      | Some a \<Rightarrow> f a)"

definition FilterByPermissions :: "auth_value \<Rightarrow> 'a permission_filter \<Rightarrow> go_error + 'a" where
  "FilterByPermissions v f = (case permission_Filter v f of Inl e \<Rightarrow> Inl e | Inr x \<Rightarrow> Inr x)"

section \<open>Permissions of the domains\<close>

definition CanReadUser :: "uuid \<Rightarrow> permission" where
  "CanReadUser i a =
     (case a of
        None \<Rightarrow> Inr False
      | Some p \<Rightarrow>
          (case p_UserID p of
             Some u \<Rightarrow> Inr (u = i)
           | None \<Rightarrow>
               if p_AdminUserID p \<noteq> None then Inr True
               else if p_ServiceName p \<noteq> None then Inr True
               else Inr False))"

definition CanReadUserFilter :: "uuid list \<Rightarrow> uuid list permission_filter" where
  "CanReadUserFilter ids a =
     (case a of
        None \<Rightarrow> Inr []
      | Some p \<Rightarrow>
          (case p_UserID p of
             Some u \<Rightarrow> Inr (case find (\<lambda>i. i = u) ids of Some i \<Rightarrow> [i] | None \<Rightarrow> [])
           | None \<Rightarrow>
               if p_AdminUserID p \<noteq> None then Inr ids
               else if p_ServiceName p \<noteq> None then Inr ids
               else Inr []))"

definition CanDeleteUser :: "uuid \<Rightarrow> permission" where
  "CanDeleteUser i a =
     (case a of
        None \<Rightarrow> Inr False
      | Some p \<Rightarrow>
          (case p_UserID p of
             Some u \<Rightarrow> Inr (u = i)
           | None \<Rightarrow> if p_AdminUserID p \<noteq> None then Inr True else Inr False))"

definition CanGetUserProfile :: "uuid \<Rightarrow> permission" where
  "CanGetUserProfile i a =
     (case a of
        None \<Rightarrow> Inr False
      | Some p \<Rightarrow>
          (case p_UserID p of
             Some u \<Rightarrow> Inr (u = i)
           | None \<Rightarrow> if p_AdminUserID p \<noteq> None then Inr True else Inr False))"

definition CanUpdateUserProfile :: "uuid \<Rightarrow> permission" where
  "CanUpdateUserProfile i a =
     (case a of
        None \<Rightarrow> Inr False
      | Some p \<Rightarrow>
          (case p_UserID p of
             Some u \<Rightarrow> Inr (u = i)
           | None \<Rightarrow> if p_AdminUserID p \<noteq> None then Inr True else Inr False))"

declare CanReadUser_def [perm_simps] CanReadUserFilter_def [perm_simps] CanDeleteUser_def [perm_simps]
  CanGetUserProfile_def [perm_simps] CanUpdateUserProfile_def [perm_simps] permission_Check_def [perm_simps]
  permission_Filter_def [perm_simps] FilterByPermissions_def [perm_simps] GetAuthentication_def [perm_simps]

section \<open>A contract for permissions on an owned object\<close>

text \<open>
  Every domain permission follows one rule: the owner and administrators pass, nobody passes without a
  principal, other users never pass; services pass or not, depending on the permission.
\<close>

locale owned_permission =
  fixes perm :: "uuid \<Rightarrow> permission" and services_allowed :: bool
  assumes no_principal: "perm i None = Inr False"
    and user: "p_UserID p = Some u \<Longrightarrow> perm i (Some p) = Inr (u = i)"
    and admin: "p_UserID p = None \<Longrightarrow> p_AdminUserID p = Some s \<Longrightarrow> perm i (Some p) = Inr True"
    and service: "p_UserID p = None \<Longrightarrow> p_AdminUserID p = None \<Longrightarrow> p_ServiceName p = Some n \<Longrightarrow>
        perm i (Some p) = Inr services_allowed"
    and nobody: "p_UserID p = None \<Longrightarrow> p_AdminUserID p = None \<Longrightarrow> p_ServiceName p = None \<Longrightarrow>
        perm i (Some p) = Inr False"
begin

text \<open>Who passes a check, in terms of the token that was presented.\<close>

lemma check_of_token:
  assumes "provider_Authenticate t = Inr a"
  shows "permission_Check (Some a) (perm i) =
    (if t = UserIDToken i \<or> (\<exists>s. t = AdminUserIDToken s) \<or> services_allowed \<and> (\<exists>n. t = ServiceNameToken n)
     then None else Some (Sentinel ErrPermissionDenied))"
  using assms by (cases t) (auto simp: permission_Check_def GetAuthentication_def user admin service)

lemma check_none: "permission_Check v (perm i) = None \<Longrightarrow> \<exists>p. v = Some (Some p)"
  by (cases v; cases "the v") (auto simp: permission_Check_def GetAuthentication_def no_principal)

lemma check_total: "permission_Check v (perm i) \<in> {None, Some (Sentinel ErrPermissionDenied),
    Some (errors_new ''authentication not found'')}"
proof (cases v)
  case (Some a)
  have "\<exists>b. perm i a = Inr b"
  proof (cases a)
    case (Some p)
    then show ?thesis
      using user [of p] admin [of p] service [of p] nobody [of p]
      by (cases "p_UserID p"; cases "p_AdminUserID p"; cases "p_ServiceName p") auto
  qed (use no_principal in blast)
  then show ?thesis by (auto simp: Some permission_Check_def GetAuthentication_def split: if_splits)
qed (simp add: permission_Check_def GetAuthentication_def)

end

interpretation read_user: owned_permission CanReadUser True
  by unfold_locales (auto simp: CanReadUser_def)

interpretation delete_user: owned_permission CanDeleteUser False
  by unfold_locales (auto simp: CanDeleteUser_def)

interpretation get_profile: owned_permission CanGetUserProfile False
  by unfold_locales (auto simp: CanGetUserProfile_def)

interpretation update_profile: owned_permission CanUpdateUserProfile False
  by unfold_locales (auto simp: CanUpdateUserProfile_def)

text \<open>
  C26. Who may do what, from the token to the check: only the user itself, administrators and, for reading
  a user, services pass; everybody else is denied.  For profiles the API description,
  \<^verbatim>\<open>api/userprofile.openapi.yaml\<close>, lists \<^verbatim>\<open>ServiceInternalAuth\<close> among the accepted schemes of both routes: the
  code denies services there.
\<close>

theorem access_matrix:
  assumes "provider_Authenticate t = Inr a"
  shows "permission_Check (Some a) (CanReadUser i) =
           (case t of UserIDToken u \<Rightarrow> if u = i then None else Some (Sentinel ErrPermissionDenied) | _ \<Rightarrow> None)
    \<and> (\<forall>perm \<in> {CanDeleteUser, CanGetUserProfile, CanUpdateUserProfile}. permission_Check (Some a) (perm i) =
           (case t of UserIDToken u \<Rightarrow> if u = i then None else Some (Sentinel ErrPermissionDenied)
                    | AdminUserIDToken _ \<Rightarrow> None
                    | ServiceNameToken _ \<Rightarrow> Some (Sentinel ErrPermissionDenied)))"
  using assms read_user.check_of_token [OF assms, of i] delete_user.check_of_token [OF assms, of i]
    get_profile.check_of_token [OF assms, of i] update_profile.check_of_token [OF assms, of i]
  by (cases t) simp_all

theorem access_matrix_witness:
  "permission_Check (Some (Some \<lparr>p_UserID = Some 1, p_AdminUserID = None, p_ServiceName = None\<rparr>)) (CanReadUser 2)
    = Some (Sentinel ErrPermissionDenied)"
  using access_matrix [of "UserIDToken 1" "Some \<lparr>p_UserID = Some 1, p_AdminUserID = None, p_ServiceName = None\<rparr>" 2]
  by simp

lemma find_same: "find (\<lambda>i. i = u) ids = (if u \<in> set ids then Some u else None)"
  by (induction ids) auto

text \<open>
  C27. Filtering a list of user identifiers keeps exactly those the principal may read one by one.
\<close>

theorem filter_agrees_with_check:
  "case FilterByPermissions v (CanReadUserFilter ids) of
     Inl e \<Rightarrow> v = None \<and> (\<forall>i. permission_Check v (CanReadUser i) = Some e)
   | Inr kept \<Rightarrow> set kept = {i \<in> set ids. permission_Check v (CanReadUser i) = None}"
  by (auto simp: perm_simps find_same split: option.splits)

end
