(* ===== verification/Sql_Client.thy ===== *)
theory Sql_Client
  imports Log_Model Auth_Model
begin

text \<open>
  Package \<^verbatim>\<open>pkg/sql\<close>, client side: \<^verbatim>\<open>context.go\<close>, the routing of statements by
  \<^verbatim>\<open>transactionalClient\<close> and \<^verbatim>\<open>clientTransaction\<close> (\<^verbatim>\<open>transaction.go\<close>), connections, and the
  advisory locks of \<^verbatim>\<open>lock.go\<close>.

  The database server is not code of the repository.  What is fixed about it is the meaning of
  the SQL the sources send: each statement is a function on the tables below.  What is left open
  is when it fails: \<open>db_fault\<close> gives for the n-th call whether it goes through, is lost on the
  way (nothing happens) or is carried out with its reply lost (the effect happens, the client
  sees an error).  A transaction is the log of its writes: it reads the committed tables with its
  own log applied (read committed, PostgreSQL's default), commit appends the log to the committed
  state, rollback drops it.
\<close>

unbundle bit_operations_syntax

section \<open>Tables\<close>

text \<open>The tables the sources use; the table of performed migrations may not exist yet.\<close>

record msg_row =
  mr_id :: uuid
  mr_topic :: string
  mr_key :: string
  mr_payload :: string
  mr_scheduled_at :: time

record idk_row =
  ir_key :: uuid
  ir_base :: uuid
  ir_extra :: "string option"
  ir_created_at :: time

record user_row =
  ur_id :: uuid
  ur_login :: string
  ur_password_hash :: string
  ur_deleted_at :: "time option"

record profile_row =
  pr_user_id :: uuid
  pr_first_name :: string
  pr_last_name :: string

record tables =
  t_message_storage :: "msg_row list"
  t_idempotency_key :: "idk_row list"
  t_user :: "user_row list"
  t_user_profile :: "profile_row list"
  t_migration :: "string list option"

section \<open>The server and the context keys\<close>

text \<open>
  A context is the values the sources put into it: a dedicated connection, a transaction, a
  requested row lock, the attributes of the logger, the fields of the observer (latest first) and an authentication.
\<close>

datatype fault = NoFault | LostRequest go_error | LostReply go_error

text \<open>Where a statement runs: a transaction, a dedicated connection or the pool.\<close>

datatype route = ViaTx nat | ViaConn nat | ViaDB

datatype db_event =
    EvConnOpen nat | EvConnClose nat
  | EvBegin nat | EvCommit nat | EvRollback nat
  | EvExec route
  | EvAdvisoryLock route int
  | EvAdvisoryUnlock route int
  | EvXactLock route int bool

record dbms =
  db_fault :: "nat \<Rightarrow> fault"
  db_calls :: nat
  db_tables :: tables
  db_open :: "nat \<rightharpoonup> (tables \<Rightarrow> tables) list"
  db_next :: nat
  db_conns :: "nat set"
  db_locks :: "(route \<times> int) list"
  db_trace :: "db_event list"

record tx_data =
  tx_id :: nat
  tx_instanceID :: string

record update_lock =
  ul_forUpdate :: bool
  ul_skipLocked :: bool

record sql_ctx =
  cx_conn :: "nat option"
  cx_tx :: "tx_data option"
  cx_lock :: "update_lock option"
  cx_log :: fields
  cx_fields :: "(string \<times> string) list"
  cx_auth :: auth_value

definition background :: sql_ctx where
  "background = \<lparr>cx_conn = None, cx_tx = None, cx_lock = None, cx_log = [], cx_fields = [],
     cx_auth = None\<rparr>"

text \<open>A statement: the rows it reports as affected (or its error) and its effect.\<close>

type_synonym stmt = "(tables \<Rightarrow> go_error + nat) \<times> (tables \<Rightarrow> tables)"

definition next_fault :: "dbms \<Rightarrow> fault \<times> dbms" where
  "next_fault db = (db_fault db (db_calls db), db\<lparr>db_calls := Suc (db_calls db)\<rparr>)"

definition db_emit :: "db_event \<Rightarrow> dbms \<Rightarrow> dbms" where
  "db_emit ev db = db\<lparr>db_trace := db_trace db @ [ev]\<rparr>"

definition apply_log :: "(tables \<Rightarrow> tables) list \<Rightarrow> tables \<Rightarrow> tables" where
  "apply_log ws t = fold (\<lambda>w. w) ws t"

definition db_view :: "route \<Rightarrow> dbms \<Rightarrow> tables" where
  "db_view r db =
     (case r of
        ViaTx t \<Rightarrow> (case db_open db t of Some ws \<Rightarrow> apply_log ws (db_tables db) | None \<Rightarrow> db_tables db)
      | _ \<Rightarrow> db_tables db)"

definition tx_done :: "route \<Rightarrow> dbms \<Rightarrow> bool" where
  "tx_done r db = (case r of ViaTx t \<Rightarrow> db_open db t = None | _ \<Rightarrow> False)"

definition db_write :: "route \<Rightarrow> (tables \<Rightarrow> tables) \<Rightarrow> dbms \<Rightarrow> dbms" where
  "db_write r w db =
     (case r of
        ViaTx t \<Rightarrow>
          (case db_open db t of
             Some ws \<Rightarrow> db\<lparr>db_open := (db_open db)(t \<mapsto> ws @ [w])\<rparr>
           | None \<Rightarrow> db)
      | _ \<Rightarrow> db\<lparr>db_tables := w (db_tables db)\<rparr>)"

section \<open>Statements through the transactional client\<close>

text \<open>
  The branch at the head of \<^verbatim>\<open>ExecContext\<close>, \<^verbatim>\<open>GetContext\<close> and \<^verbatim>\<open>SelectContext\<close>: the
  transaction of the context (whichever instance opened it), else its connection, else the pool.
\<close>

definition route_of :: "sql_ctx \<Rightarrow> route" where
  "route_of ctx =
     (case cx_tx ctx of
        Some tx \<Rightarrow> ViaTx (tx_id tx)
      | None \<Rightarrow> (case cx_conn ctx of Some conn \<Rightarrow> ViaConn conn | None \<Rightarrow> ViaDB))"

text \<open>One call to the server, with the fault scheduled for it.\<close>

definition run_call ::
    "route \<Rightarrow> (dbms \<Rightarrow> (go_error + 'a) \<times> dbms) \<Rightarrow> dbms \<Rightarrow> (go_error + 'a) \<times> dbms" where
  "run_call r eff db =
     (let (f, db1) = next_fault db
      in if tx_done r db1 then (Inl (Sentinel SqlErrTxDone), db1)
         else case f of
             NoFault \<Rightarrow> eff db1
           | LostRequest e \<Rightarrow> (Inl e, db1)
           | LostReply e \<Rightarrow> (Inl e, snd (eff db1)))"

definition run_exec :: "route \<Rightarrow> stmt \<Rightarrow> dbms \<Rightarrow> (go_error + nat) \<times> dbms" where
  "run_exec r st =
     run_call r (\<lambda>db. case fst st (db_view r db) of
         Inl e \<Rightarrow> (Inl e, db)
       | Inr n \<Rightarrow> (Inr n, db_emit (EvExec r) (db_write r (snd st) db)))"

definition run_select :: "route \<Rightarrow> (tables \<Rightarrow> 'a) \<Rightarrow> dbms \<Rightarrow> (go_error + 'a) \<times> dbms" where
  "run_select r sel = run_call r (\<lambda>db. (Inr (sel (db_view r db)), db))"

definition ExecContext :: "sql_ctx \<Rightarrow> stmt \<Rightarrow> dbms \<Rightarrow> (go_error + nat) \<times> dbms" where
  "ExecContext ctx st db = run_exec (route_of ctx) st db"

definition SelectContext :: "sql_ctx \<Rightarrow> (tables \<Rightarrow> 'a list) \<Rightarrow> dbms \<Rightarrow> (go_error + 'a list) \<times> dbms" where
  "SelectContext ctx sel db = run_select (route_of ctx) sel db"

text \<open>\<^verbatim>\<open>GetContext\<close> scans the first row and reports \<^verbatim>\<open>sql.ErrNoRows\<close> when there is none.\<close>

definition GetContext :: "sql_ctx \<Rightarrow> (tables \<Rightarrow> 'a list) \<Rightarrow> dbms \<Rightarrow> (go_error + 'a) \<times> dbms" where
  "GetContext ctx sel db =
     (case run_select (route_of ctx) sel db of
        (Inl e, db') \<Rightarrow> (Inl e, db')
      | (Inr [], db') \<Rightarrow> (Inl (Sentinel SqlErrNoRows), db')
      | (Inr (x # _), db') \<Rightarrow> (Inr x, db'))"

definition HasTransaction :: "sql_ctx \<Rightarrow> bool" where
  "HasTransaction ctx = (cx_tx ctx \<noteq> None)"

section \<open>Connections and transactions\<close>

definition open_conn :: "dbms \<Rightarrow> (go_error + nat) \<times> dbms" where
  "open_conn db =
     (let (f, db1) = next_fault db
      in case f of
           NoFault \<Rightarrow>
             (let c = db_next db1
              in (Inr c, db_emit (EvConnOpen c)
                   (db1\<lparr>db_next := Suc c, db_conns := insert c (db_conns db1)\<rparr>)))
         | LostRequest e \<Rightarrow> (Inl e, db1)
         | LostReply e \<Rightarrow> (Inl e, db1))"

definition close_conn :: "nat \<Rightarrow> dbms \<Rightarrow> dbms" where
  "close_conn c db = db_emit (EvConnClose c) (db\<lparr>db_conns := db_conns db - {c}\<rparr>)"

text \<open>
  \<^verbatim>\<open>transactionalClient.WithinSingleConnection\<close> returns the context and a function that gives
  the connection back, here the connection to close, if any.
\<close>

definition WithinSingleConnection ::
    "sql_ctx \<Rightarrow> dbms \<Rightarrow> (go_error + sql_ctx \<times> nat option) \<times> dbms" where
  "WithinSingleConnection ctx db =
     (if cx_conn ctx \<noteq> None \<or> HasTransaction ctx then (Inr (ctx, None), db)
      else case open_conn db of
             (Inl e, db1) \<Rightarrow> (Inl e, db1)
           | (Inr c, db1) \<Rightarrow> (Inr (ctx\<lparr>cx_conn := Some c\<rparr>, Some c), db1))"

definition cancel_conn :: "nat option \<Rightarrow> dbms \<Rightarrow> dbms" where
  "cancel_conn c db = (case c of None \<Rightarrow> db | Some c \<Rightarrow> close_conn c db)"

text \<open>\<^verbatim>\<open>BeginTxx\<close> on a connection or on the pool.\<close>

definition begin_tx :: "dbms \<Rightarrow> (go_error + nat) \<times> dbms" where
  "begin_tx db =
     (let (f, db1) = next_fault db
      in case f of
           NoFault \<Rightarrow>
             (let t = db_next db1
              in (Inr t, db_emit (EvBegin t)
                   (db1\<lparr>db_next := Suc t, db_open := (db_open db1)(t \<mapsto> [])\<rparr>)))
         | LostRequest e \<Rightarrow> (Inl e, db1)
         | LostReply e \<Rightarrow> (Inl e, db1))"

definition tx_Commit :: "nat \<Rightarrow> dbms \<Rightarrow> err \<times> dbms" where
  "tx_Commit t db =
     (let (f, db1) = next_fault db
      in case db_open db1 t of
           None \<Rightarrow> (Some (Sentinel SqlErrTxDone), db1)
         | Some ws \<Rightarrow>
             (let gone = db1\<lparr>db_open := (db_open db1)(t := None)\<rparr>;
                  committed = db_emit (EvCommit t)
                    (gone\<lparr>db_tables := apply_log ws (db_tables db1)\<rparr>)
              in case f of
                   NoFault \<Rightarrow> (None, committed)
                 | LostRequest e \<Rightarrow> (Some e, gone)
                 | LostReply e \<Rightarrow> (Some e, committed)))"

definition tx_Rollback :: "nat \<Rightarrow> dbms \<Rightarrow> dbms" where
  "tx_Rollback t db =
     (if db_open db t = None then db
      else db_emit (EvRollback t) (db\<lparr>db_open := (db_open db)(t := None)\<rparr>))"

section \<open>Advisory locks\<close>

text \<open>
  UTF-8 of the code points below U+0100, and \<^verbatim>\<open>fnv.New64a\<close>: start at the offset basis; for each
  byte, xor, then multiply by the prime, in 64-bit arithmetic.
\<close>

definition utf8_char :: "char \<Rightarrow> 64 word list" where
  "utf8_char c =
     (let n = code_point c in
      if n < 128 then [of_nat n] else [of_nat (192 + n div 64), of_nat (128 + n mod 64)])"

definition utf8 :: "string \<Rightarrow> 64 word list" where
  "utf8 s = concat (map utf8_char s)"

definition fnv64a :: "64 word list \<Rightarrow> 64 word" where
  "fnv64a bytes = foldl (\<lambda>h b. (h XOR b) * 1099511628211) 14695981039346656037 bytes"

definition getLockIDByName :: "string \<Rightarrow> int" where
  "getLockIDByName name = sint (fnv64a (utf8 name))"

definition pg_advisory_lock :: "sql_ctx \<Rightarrow> int \<Rightarrow> dbms \<Rightarrow> (go_error + unit) \<times> dbms" where
  "pg_advisory_lock ctx lockID =
     (let r = route_of ctx in
      run_call r (\<lambda>db. (Inr (), db_emit (EvAdvisoryLock r lockID)
        (db\<lparr>db_locks := (r, lockID) # db_locks db\<rparr>))))"

definition pg_advisory_unlock :: "sql_ctx \<Rightarrow> int \<Rightarrow> dbms \<Rightarrow> (go_error + bool) \<times> dbms" where
  "pg_advisory_unlock ctx lockID =
     (let r = route_of ctx in
      run_call r (\<lambda>db. (Inr ((r, lockID) \<in> set (db_locks db)), db_emit (EvAdvisoryUnlock r lockID)
        (db\<lparr>db_locks := remove1 (r, lockID) (db_locks db)\<rparr>))))"

text \<open>What \<^verbatim>\<open>withSessionLevelLock\<close> captures in the release function it returns.\<close>

record session_lock =
  sl_ctx :: sql_ctx
  sl_conn :: "nat option"
  sl_lockID :: int

definition withSessionLevelLock ::
    "sql_ctx \<Rightarrow> string \<Rightarrow> dbms \<Rightarrow> (go_error + sql_ctx \<times> session_lock) \<times> dbms" where
  "withSessionLevelLock ctx name db =
     (let lockID = getLockIDByName name in
      case WithinSingleConnection ctx db of
        (Inl e, db1) \<Rightarrow> (Inl (errorf ''get connection'' e), db1)
      | (Inr (ctx1, conn), db1) \<Rightarrow>
          (case pg_advisory_lock ctx1 lockID db1 of
             (Inl e, db2) \<Rightarrow> (Inl (errorf ''get lock'' e), cancel_conn conn db2)
           | (Inr _, db2) \<Rightarrow>
               (Inr (ctx1, \<lparr>sl_ctx = ctx1, sl_conn = conn, sl_lockID = lockID\<rparr>), db2)))"

definition releaseSessionLock :: "session_lock \<Rightarrow> dbms \<Rightarrow> err \<times> dbms" where
  "releaseSessionLock l db =
     (case pg_advisory_unlock (sl_ctx l) (sl_lockID l) db of
        (Inl e, db1) \<Rightarrow> (Some (errorf ''release lock'' e), cancel_conn (sl_conn l) db1)
      | (Inr released, db1) \<Rightarrow>
          (if released then (None, cancel_conn (sl_conn l) db1)
           else (Some (errors_new ''lock was not released''), cancel_conn (sl_conn l) db1)))"

definition withTransactionLevelLock :: "sql_ctx \<Rightarrow> string \<Rightarrow> bool \<Rightarrow> nat \<Rightarrow> dbms \<Rightarrow> err \<times> dbms" where
  "withTransactionLevelLock ctx name shared tx db =
     (let lockID = getLockIDByName name in
      case run_call (ViaTx tx)
             (\<lambda>db. (Inr (), db_emit (EvXactLock (ViaTx tx) lockID shared) db)) db of
        (Inl e, db1) \<Rightarrow> (Some (errorf ''get lock'' e), db1)
      | (Inr _, db1) \<Rightarrow> (None, db1))"

text \<open>A server that never fails, for examples.\<close>

definition empty_tables :: tables where
  "empty_tables = \<lparr>t_message_storage = [], t_idempotency_key = [], t_user = [], t_user_profile = [], t_migration = None\<rparr>"

definition calm_db :: "tables \<Rightarrow> dbms" where
  "calm_db t = \<lparr>db_fault = (\<lambda>_. NoFault), db_calls = 0, db_tables = t, db_open = Map.empty,
     db_next = 0, db_conns = {}, db_locks = [], db_trace = []\<rparr>"

section \<open>What a call changes\<close>

lemmas call_defs = run_call_def next_fault_def db_emit_def

lemma route_no_tx: "cx_tx ctx = None \<Longrightarrow> route_of ctx = ViaDB \<or> (\<exists>c. route_of ctx = ViaConn c)"
  by (simp add: route_of_def split: option.split)

lemma exec_autocommit_ok:
  "cx_tx ctx = None \<Longrightarrow> ExecContext ctx st db = (Inr n, db') \<Longrightarrow>
   db_tables db' = snd st (db_tables db) \<and> fst st (db_tables db) = Inr n"
  using route_no_tx [of ctx]
  by (auto simp: ExecContext_def run_exec_def call_defs tx_done_def db_view_def db_write_def
      split: fault.splits sum.splits if_splits)

lemma exec_autocommit_error:
  "cx_tx ctx = None \<Longrightarrow> ExecContext ctx st db = (Inl e, db') \<Longrightarrow>
   db_tables db' = db_tables db \<or> db_tables db' = snd st (db_tables db)"
  using route_no_tx [of ctx]
  by (auto simp: ExecContext_def run_exec_def call_defs tx_done_def db_view_def db_write_def
      split: fault.splits sum.splits if_splits)

lemma run_select_same: "run_select r sel db = (x, db') \<Longrightarrow> db' = db\<lparr>db_calls := Suc (db_calls db)\<rparr>"
  by (auto simp: run_select_def call_defs split: fault.splits if_splits)

lemma db_view_calls [simp]: "db_view r (db\<lparr>db_calls := n\<rparr>) = db_view r db"
  by (cases r) (simp_all add: db_view_def split: option.split)

lemma run_select_ok: "run_select r sel db = (Inr x, db') \<Longrightarrow> x = sel (db_view r db)"
  by (auto simp: run_select_def call_defs split: fault.splits if_splits)

lemma db_view_no_tx: "cx_tx ctx = None \<Longrightarrow> db_view (route_of ctx) db = db_tables db"
  using route_no_tx [of ctx] by (auto simp: db_view_def)

lemma select_autocommit_ok:
  assumes "cx_tx ctx = None" and "SelectContext ctx sel db = (Inr xs, db')"
  shows "xs = sel (db_tables db)"
  using run_select_ok [of "route_of ctx" sel db xs db'] assms
  by (simp add: SelectContext_def db_view_no_tx)

lemma select_tables:
  "SelectContext ctx sel db = (r, db') \<Longrightarrow> db_tables db' = db_tables db \<and> db_conns db' = db_conns db"
  by (auto simp: SelectContext_def dest: run_select_same)

lemma session_lock_tables:
  "withSessionLevelLock ctx name db = (r, db') \<Longrightarrow> db_tables db' = db_tables db"
  by (auto simp: withSessionLevelLock_def WithinSingleConnection_def open_conn_def Let_def
      pg_advisory_lock_def call_defs cancel_conn_def close_conn_def
      split: fault.splits sum.splits if_splits prod.splits option.splits)

lemma session_lock_ctx:
  "withSessionLevelLock ctx name db = (Inr (ctx', l), db') \<Longrightarrow>
   cx_tx ctx' = cx_tx ctx \<and> cx_lock ctx' = cx_lock ctx \<and> cx_log ctx' = cx_log ctx
   \<and> cx_fields ctx' = cx_fields ctx \<and> cx_auth ctx' = cx_auth ctx"
  by (auto simp: withSessionLevelLock_def WithinSingleConnection_def Let_def
      split: sum.splits if_splits prod.splits)

lemma release_tables: "releaseSessionLock l db = (e, db') \<Longrightarrow> db_tables db' = db_tables db"
  by (auto simp: releaseSessionLock_def pg_advisory_unlock_def Let_def call_defs cancel_conn_def
      close_conn_def split: fault.splits sum.splits if_splits option.splits prod.splits)

text \<open>Connection identifiers are handed out in increasing order.\<close>

definition conns_ok :: "dbms \<Rightarrow> bool" where
  "conns_ok db \<longleftrightarrow> db_conns db \<subseteq> {..< db_next db}"

lemma session_lock_error_conns:
  assumes "conns_ok db" and "withSessionLevelLock ctx name db = (Inl e, db')"
  shows "db_conns db' = db_conns db"
  using assms
  by (auto simp: conns_ok_def withSessionLevelLock_def WithinSingleConnection_def open_conn_def
      Let_def pg_advisory_lock_def call_defs cancel_conn_def close_conn_def
      split: fault.splits sum.splits if_splits prod.splits option.splits)

lemma session_lock_ok_conns:
  assumes "conns_ok db" and "withSessionLevelLock ctx name db = (Inr (ctx', l), db')"
  shows "db_conns db' - set_option (sl_conn l) = db_conns db"
  using assms
  by (auto simp: conns_ok_def withSessionLevelLock_def WithinSingleConnection_def open_conn_def
      Let_def pg_advisory_lock_def call_defs
      split: fault.splits sum.splits if_splits prod.splits option.splits)

lemma release_conns:
  "releaseSessionLock l db = (e, db') \<Longrightarrow> db_conns db' = db_conns db - set_option (sl_conn l)"
  by (auto simp: releaseSessionLock_def pg_advisory_unlock_def Let_def call_defs cancel_conn_def
      close_conn_def split: fault.splits sum.splits if_splits option.splits prod.splits)

lemma GetContext_view: "GetContext ctx sel db = (r, db') \<Longrightarrow> db_view (route_of ctx) db' = db_view (route_of ctx) db"
  by (auto simp: GetContext_def split: prod.splits sum.splits list.splits dest!: run_select_same)

lemma GetContext_ok:
  assumes "GetContext ctx sel db = (Inr x, db')"
  shows "\<exists>xs. sel (db_view (route_of ctx) db) = x # xs"
proof -
  obtain xs where "run_select (route_of ctx) sel db = (Inr (x # xs), db')"
    using assms by (auto simp: GetContext_def split: prod.splits sum.splits list.splits)
  from run_select_ok [OF this] show ?thesis by metis
qed

end
