(* ===== verification/Message_Storage.thy ===== *)
theory Message_Storage
  imports Message_Model Sql_Client "HOL-Library.Multiset"
begin

text \<open>
  \<^verbatim>\<open>message.Storage\<close> (\<^verbatim>\<open>pkg/message/storage.go\<close>) and its SQL implementation
  \<^verbatim>\<open>pkg/sql/messagestorage.go\<close>.  The query builder squirrel renders the statements; rendering
  does not fail on the statements built here.  \<open>order\<close> stands for the server's \<^verbatim>\<open>ORDER BY
  scheduled_at\<close>: how rows with equal keys are arranged is not specified by SQL.
\<close>

record storage_specification =
  spec_IDsExcluded :: "uuid list"
  spec_Topics :: "topic list"
  spec_ScheduledAtBefore :: time
  spec_Limit :: int

section \<open>The statements\<close>

definition row_of :: "time \<Rightarrow> message \<Rightarrow> msg_row" where
  "row_of at m = \<lparr>mr_id = msg_ID m, mr_topic = msg_Topic m, mr_key = msg_Key m,
     mr_payload = msg_Payload m, mr_scheduled_at = at\<rparr>"

definition message_of :: "msg_row \<Rightarrow> message" where
  "message_of r = \<lparr>msg_ID = mr_id r, msg_Topic = mr_topic r, msg_Key = mr_key r,
     msg_Payload = mr_payload r\<rparr>"

definition same_key :: "msg_row \<Rightarrow> msg_row \<Rightarrow> bool" where
  "same_key a b = (mr_id a = mr_id b \<and> mr_topic a = mr_topic b)"

text \<open>\<^verbatim>\<open>insert ... on conflict (id, topic) do nothing\<close>, row by row.\<close>

definition insert_row :: "msg_row \<Rightarrow> msg_row list \<Rightarrow> msg_row list" where
  "insert_row r rows = (if list_ex (same_key r) rows then rows else rows @ [r])"

definition insert_rows :: "msg_row list \<Rightarrow> msg_row list \<Rightarrow> msg_row list" where
  "insert_rows rs rows = fold insert_row rs rows"

definition find_matches :: "storage_specification \<Rightarrow> msg_row \<Rightarrow> bool" where
  "find_matches spec r =
     (mr_scheduled_at r \<le> spec_ScheduledAtBefore spec
      \<and> (spec_IDsExcluded spec = [] \<or> mr_id r \<notin> set (spec_IDsExcluded spec))
      \<and> (spec_Topics spec = [] \<or> mr_topic r \<in> set (spec_Topics spec)))"

definition find_rows ::
    "(msg_row list \<Rightarrow> msg_row list) \<Rightarrow> storage_specification \<Rightarrow> msg_row list \<Rightarrow> msg_row list" where
  "find_rows order spec rows =
     (let found = order (filter (find_matches spec) rows)
      in if 0 < spec_Limit spec then take (nat (spec_Limit spec)) found else found)"

definition delete_rows :: "topic \<Rightarrow> uuid list \<Rightarrow> msg_row list \<Rightarrow> msg_row list" where
  "delete_rows tp ids rows = filter (\<lambda>r. \<not> (mr_topic r = tp \<and> mr_id r \<in> set ids)) rows"

section \<open>The operations\<close>

definition messageStorageLockName :: string where
  "messageStorageLockName = ''message_storage''"

definition storage_lock_name :: "string list \<Rightarrow> string" where
  "storage_lock_name extraKeys =
     (if extraKeys = [] then messageStorageLockName
      else fold (\<lambda>key sb. sb @ ''_'' @ key) extraKeys messageStorageLockName)"

definition storage_Lock ::
    "sql_ctx \<Rightarrow> string list \<Rightarrow> dbms \<Rightarrow> (go_error + sql_ctx \<times> session_lock) \<times> dbms" where
  "storage_Lock ctx extraKeys db = withSessionLevelLock ctx (storage_lock_name extraKeys) db"

definition storage_Find ::
    "(msg_row list \<Rightarrow> msg_row list) \<Rightarrow> sql_ctx \<Rightarrow> storage_specification \<Rightarrow> dbms
      \<Rightarrow> (go_error + message list) \<times> dbms" where
  "storage_Find order ctx spec db =
     (case SelectContext ctx (\<lambda>t. find_rows order spec (t_message_storage t)) db of
        (Inl e, db') \<Rightarrow> (Inl (errorf ''select query'' e), db')
      | (Inr rows, db') \<Rightarrow> (Inr (map message_of rows), db'))"

definition store_stmt :: "time \<Rightarrow> message list \<Rightarrow> stmt" where
  "store_stmt scheduledAt msgs =
     (\<lambda>t. Inr (length (insert_rows (map (row_of scheduledAt) msgs) (t_message_storage t))
               - length (t_message_storage t)),
      \<lambda>t. t\<lparr>t_message_storage := insert_rows (map (row_of scheduledAt) msgs) (t_message_storage t)\<rparr>)"

definition storage_Store ::
    "sql_ctx \<Rightarrow> time \<Rightarrow> message list \<Rightarrow> dbms \<Rightarrow> err \<times> dbms" where
  "storage_Store ctx scheduledAt msgs db =
     (if msgs = [] then (None, db)
      else case ExecContext ctx (store_stmt scheduledAt msgs) db of
             (Inl e, db') \<Rightarrow> (Some (errorf ''insert query'' e), db')
           | (Inr _, db') \<Rightarrow> (None, db'))"

definition delete_stmt :: "topic \<Rightarrow> uuid list \<Rightarrow> stmt" where
  "delete_stmt tp ids =
     (\<lambda>t. Inr (length (t_message_storage t) - length (delete_rows tp ids (t_message_storage t))),
      \<lambda>t. t\<lparr>t_message_storage := delete_rows tp ids (t_message_storage t)\<rparr>)"

definition storage_Delete ::
    "sql_ctx \<Rightarrow> topic \<Rightarrow> uuid list \<Rightarrow> dbms \<Rightarrow> err \<times> dbms" where
  "storage_Delete ctx tp ids db =
     (if ids = [] then (None, db)
      else case ExecContext ctx (delete_stmt tp ids) db of
             (Inl e, db') \<Rightarrow> (Some (errorf ''delete query'' e), db')
           | (Inr _, db') \<Rightarrow> (None, db'))"

text \<open>The documented behaviour of \<^verbatim>\<open>ORDER BY scheduled_at\<close>.\<close>

definition orders_by_scheduled_at :: "(msg_row list \<Rightarrow> msg_row list) \<Rightarrow> bool" where
  "orders_by_scheduled_at order \<longleftrightarrow>
     (\<forall>rows. mset (order rows) = mset rows \<and> sorted (map mr_scheduled_at (order rows)))"

section \<open>Facts about the table\<close>

definition table_ok :: "msg_row list \<Rightarrow> bool" where
  "table_ok rows = distinct (map (\<lambda>r. (mr_id r, mr_topic r)) rows)"

definition pending :: "dbms \<Rightarrow> (message \<times> time) set" where
  "pending db = (\<lambda>r. (message_of r, mr_scheduled_at r)) ` set (t_message_storage (db_tables db))"

lemma message_of_row_of [simp]: "message_of (row_of at m) = m"
  by (simp add: message_of_def row_of_def)

lemma table_ok_insert_row: "table_ok rows \<Longrightarrow> table_ok (insert_row r rows)"
  by (auto simp: table_ok_def insert_row_def same_key_def list_ex_iff)

lemma table_ok_insert_rows: "table_ok rows \<Longrightarrow> table_ok (insert_rows rs rows)"
  unfolding insert_rows_def by (induction rs arbitrary: rows) (auto simp: table_ok_insert_row)

lemma table_ok_delete_rows: "table_ok rows \<Longrightarrow> table_ok (delete_rows tp ids rows)"
  by (simp add: table_ok_def delete_rows_def distinct_map_filter)

lemma insert_rows_extends: "\<exists>new. insert_rows rs rows = rows @ new \<and> set new \<subseteq> set rs"
proof (induction rs arbitrary: rows)
  case Nil
  show ?case by (simp add: insert_rows_def)
next
  case (Cons r rs)
  from Cons [of "insert_row r rows"] obtain new where
    "fold insert_row rs (insert_row r rows) = insert_row r rows @ new" "set new \<subseteq> set rs"
    by (auto simp: insert_rows_def)
  then show ?case by (auto simp: insert_rows_def insert_row_def)
qed

lemma insert_rows_covers: "r \<in> set rs \<Longrightarrow> \<exists>x \<in> set (insert_rows rs rows). same_key r x"
proof (induction rs arbitrary: rows)
  case Nil
  then show ?case by simp
next
  case (Cons r' rs)
  show ?case
  proof (cases "r \<in> set rs")
    case True
    with Cons.IH [of "insert_row r' rows"] show ?thesis by (simp add: insert_rows_def)
  next
    case False
    with Cons.prems have "\<exists>x \<in> set (insert_row r' rows). same_key r x"
      by (auto simp: insert_row_def list_ex_iff same_key_def)
    with insert_rows_extends [of rs "insert_row r' rows"] show ?thesis
      by (auto simp: insert_rows_def)
  qed
qed

text \<open>Storing again what is already stored changes nothing.\<close>

lemma insert_rows_known:
  "\<forall>r \<in> set rs. list_ex (same_key r) rows \<Longrightarrow> insert_rows rs rows = rows"
  unfolding insert_rows_def by (induction rs) (auto simp: insert_row_def)

lemma insert_rows_same_keys:
  assumes "map (\<lambda>r. (mr_id r, mr_topic r)) rs' = map (\<lambda>r. (mr_id r, mr_topic r)) rs"
  shows "insert_rows rs' (insert_rows rs rows) = insert_rows rs rows"
proof (rule insert_rows_known, rule ballI)
  fix r' assume "r' \<in> set rs'"
  then have "(mr_id r', mr_topic r') \<in> set (map (\<lambda>r. (mr_id r, mr_topic r)) rs)"
    using assms by (metis (mono_tags, lifting) image_eqI image_set)
  then obtain r where "r \<in> set rs" "same_key r' r" by (auto simp: same_key_def)
  with insert_rows_covers [of r rs rows] show "list_ex (same_key r') (insert_rows rs rows)"
    by (auto simp: list_ex_iff same_key_def)
qed

section \<open>The interface and its contract\<close>

text \<open>\<^verbatim>\<open>message.Storage\<close> as a dictionary of operations on a store \<^typ>\<open>'s\<close>; \<^typ>\<open>'l\<close> is what the release
  function returned by \<^verbatim>\<open>Lock\<close> has captured.\<close>

record ('l, 's) storage_ops =
  so_Lock :: "sql_ctx \<Rightarrow> string list \<Rightarrow> 's \<Rightarrow> (go_error + sql_ctx \<times> 'l) \<times> 's"
  so_release :: "'l \<Rightarrow> 's \<Rightarrow> err \<times> 's"
  so_Find :: "sql_ctx \<Rightarrow> storage_specification \<Rightarrow> 's \<Rightarrow> (go_error + message list) \<times> 's"
  so_Store :: "sql_ctx \<Rightarrow> time \<Rightarrow> message list \<Rightarrow> 's \<Rightarrow> err \<times> 's"
  so_Delete :: "sql_ctx \<Rightarrow> topic \<Rightarrow> uuid list \<Rightarrow> 's \<Rightarrow> err \<times> 's"

definition NewMessageStorage :: "(msg_row list \<Rightarrow> msg_row list) \<Rightarrow> (session_lock, dbms) storage_ops" where
  "NewMessageStorage order =
     \<lparr>so_Lock = storage_Lock, so_release = releaseSessionLock, so_Find = storage_Find order,
      so_Store = storage_Store, so_Delete = storage_Delete\<rparr>"

text \<open>A stored message with the instant it is scheduled at.\<close>

type_synonym entry = "message \<times> time"

definition entry_key :: "entry \<Rightarrow> uuid \<times> topic" where
  "entry_key en = (msg_ID (fst en), msg_Topic (fst en))"

definition spec_matches :: "storage_specification \<Rightarrow> entry \<Rightarrow> bool" where
  "spec_matches spec en =
     (snd en \<le> spec_ScheduledAtBefore spec
      \<and> msg_ID (fst en) \<notin> set (spec_IDsExcluded spec)
      \<and> (spec_Topics spec = [] \<or> msg_Topic (fst en) \<in> set (spec_Topics spec)))"

text \<open>What \<^verbatim>\<open>Find\<close> promises: matching entries, each key once, the earliest ones, in the order of their
  schedule, no more than the limit, and all of them when the limit is not reached.\<close>

definition found_ok :: "storage_specification \<Rightarrow> entry set \<Rightarrow> entry list \<Rightarrow> bool" where
  "found_ok spec P ens \<longleftrightarrow>
     set ens \<subseteq> {en \<in> P. spec_matches spec en}
     \<and> distinct (map entry_key ens)
     \<and> sorted (map snd ens)
     \<and> (0 < spec_Limit spec \<longrightarrow> int (length ens) \<le> spec_Limit spec)
     \<and> (spec_Limit spec \<le> 0 \<or> int (length ens) < spec_Limit spec \<longrightarrow>
          set ens = {en \<in> P. spec_matches spec en})
     \<and> (\<forall>en \<in> set ens. \<forall>en' \<in> P. spec_matches spec en' \<longrightarrow> en' \<notin> set ens \<longrightarrow> snd en \<le> snd en')"

locale message_storage =
  fixes S :: "('l, 's) storage_ops"
    and pend :: "'s \<Rightarrow> entry set"
    and inv :: "'s \<Rightarrow> bool"
    and ok :: "sql_ctx \<Rightarrow> bool"
  assumes pend_finite: "finite (pend s)"
    and pend_keys: "inv s \<Longrightarrow> inj_on entry_key (pend s)"
    and lock_keeps: "so_Lock S c ks s = (r, s') \<Longrightarrow> inv s \<Longrightarrow> pend s' = pend s \<and> inv s'"
    and lock_ok: "so_Lock S c ks s = (Inr (c', l), s') \<Longrightarrow> ok c \<Longrightarrow> ok c'"
    and release_keeps: "so_release S l s = (e, s') \<Longrightarrow> inv s \<Longrightarrow> pend s' = pend s \<and> inv s'"
    and find_keeps: "so_Find S c spec s = (fr, s') \<Longrightarrow> inv s \<Longrightarrow> pend s' = pend s \<and> inv s'"
    and find_found: "so_Find S c spec s = (Inr ms, s') \<Longrightarrow> ok c \<Longrightarrow> inv s \<Longrightarrow>
        \<exists>ens. ms = map fst ens \<and> found_ok spec (pend s) ens"
    and store_inv: "so_Store S c at ms s = (e, s') \<Longrightarrow> ok c \<Longrightarrow> inv s \<Longrightarrow> inv s' \<and> pend s \<subseteq> pend s'"
    and store_covers: "so_Store S c at ms s = (None, s') \<Longrightarrow> ok c \<Longrightarrow> inv s \<Longrightarrow> m \<in> set ms \<Longrightarrow>
        (msg_ID m, msg_Topic m) \<in> entry_key ` pend s'"
    and delete_removes: "so_Delete S c tp ids s = (None, s') \<Longrightarrow> ok c \<Longrightarrow> inv s \<Longrightarrow>
        inv s' \<and> pend s' = {en \<in> pend s. \<not> (msg_Topic (fst en) = tp \<and> msg_ID (fst en) \<in> set ids)}"
    and delete_error: "so_Delete S c tp ids s = (Some de, s') \<Longrightarrow> ok c \<Longrightarrow> inv s \<Longrightarrow>
        inv s' \<and> (pend s' = pend s \<or>
          pend s' = {en \<in> pend s. \<not> (msg_Topic (fst en) = tp \<and> msg_ID (fst en) \<in> set ids)})"

text \<open>A store that answers: every call on it succeeds, and the lock is given back.\<close>

locale reliable_storage = message_storage +
  fixes healthy :: "'b \<Rightarrow> bool"
    and holds :: "'a \<Rightarrow> 'b \<Rightarrow> bool"
  assumes lock_succeeds: "healthy s \<Longrightarrow> inv s \<Longrightarrow> ok c \<Longrightarrow>
        \<exists>c' l s'. so_Lock S c ks s = (Inr (c', l), s') \<and> healthy s' \<and> holds l s'"
    and release_succeeds: "healthy s \<Longrightarrow> holds l s \<Longrightarrow> inv s \<Longrightarrow>
        \<exists>s'. so_release S l s = (None, s') \<and> healthy s'"
    and find_succeeds: "healthy s \<Longrightarrow> inv s \<Longrightarrow> ok c \<Longrightarrow>
        \<exists>ms s'. so_Find S c spec s = (Inr ms, s') \<and> healthy s' \<and> (\<forall>l. holds l s \<longrightarrow> holds l s')"
    and delete_succeeds: "healthy s \<Longrightarrow> inv s \<Longrightarrow> ok c \<Longrightarrow>
        \<exists>s'. so_Delete S c tp ids s = (None, s') \<and> healthy s' \<and> (\<forall>l. holds l s \<longrightarrow> holds l s')"

section \<open>The SQL storage keeps the contract\<close>

lemma find_matches_entry:
  "find_matches spec r = spec_matches spec (message_of r, mr_scheduled_at r)"
  by (auto simp: find_matches_def spec_matches_def message_of_def)

lemma spec_matches_row:
  "spec_matches spec (message_of r, mr_scheduled_at r) = find_matches spec r"
  by (simp add: find_matches_entry)

abbreviation row_entry :: "msg_row \<Rightarrow> entry" where
  "row_entry r \<equiv> (message_of r, mr_scheduled_at r)"

lemma entry_key_row [simp]: "entry_key (row_entry r) = (mr_id r, mr_topic r)"
  by (simp add: entry_key_def message_of_def)

lemma sorted_take_drop_le:
  "sorted (map f xs) \<Longrightarrow> x \<in> set (take n xs) \<Longrightarrow> y \<in> set (drop n xs) \<Longrightarrow> f x \<le> (f y :: int)"
  using sorted_append [of "map f (take n xs)" "map f (drop n xs)"]
  by (auto simp flip: map_append)

lemma find_rows_ok:
  assumes ord: "orders_by_scheduled_at order" and ok: "table_ok rows"
  shows "found_ok spec (row_entry ` set rows) (map row_entry (find_rows order spec rows))"
proof -
  define F where "F = order (filter (find_matches spec) rows)"
  have perm: "mset F = mset (filter (find_matches spec) rows)" and srt: "sorted (map mr_scheduled_at F)"
    using ord by (simp_all add: F_def orders_by_scheduled_at_def)
  have setF: "set F = {r \<in> set rows. find_matches spec r}"
    using perm by (metis mset_eq_setD set_filter)
  have img: "row_entry ` set F = {en \<in> row_entry ` set rows. spec_matches spec en}"
    using setF by (auto simp: find_matches_entry)
  have "distinct (map (\<lambda>r. (mr_id r, mr_topic r)) (filter (find_matches spec) rows))"
    using ok by (simp add: table_ok_def distinct_map_filter)
  then have dF: "distinct (map (\<lambda>r. (mr_id r, mr_topic r)) F)"
    using perm by (metis mset_eq_imp_distinct_iff mset_map)
  define n where "n = (if 0 < spec_Limit spec then nat (spec_Limit spec) else length F)"
  have fr: "find_rows order spec rows = take n F"
    by (simp add: find_rows_def F_def n_def Let_def)
  have snds: "map snd (map row_entry (take n F)) = map mr_scheduled_at (take n F)"
    and keys: "map entry_key (map row_entry (take n F)) = map (\<lambda>r. (mr_id r, mr_topic r)) (take n F)"
    by simp_all
  have full: "spec_Limit spec \<le> 0 \<or> int (length (take n F)) < spec_Limit spec \<Longrightarrow> take n F = F"
    by (auto simp: n_def split: if_splits)
  have early: "snd (row_entry x) \<le> mr_scheduled_at y"
    if x: "x \<in> set (take n F)" and y: "y \<in> set rows" "find_matches spec y"
      and ny: "row_entry y \<notin> row_entry ` set (take n F)" for x y
  proof -
    have "y \<in> set F" using y setF by simp
    then have "y \<in> set (take n F) \<or> y \<in> set (drop n F)"
      using append_take_drop_id [of n F] set_append [of "take n F" "drop n F"] by auto
    with ny have "y \<in> set (drop n F)" by blast
    with sorted_take_drop_le [OF srt x] show ?thesis by simp
  qed
  show ?thesis
    unfolding found_ok_def fr keys snds
  proof (intro conjI)
    show "set (map row_entry (take n F)) \<subseteq> {en \<in> row_entry ` set rows. spec_matches spec en}"
      unfolding img [symmetric] by (auto dest: in_set_takeD)
    show "distinct (map (\<lambda>r. (mr_id r, mr_topic r)) (take n F))"
      using dF by (metis distinct_take take_map)
    show "sorted (map mr_scheduled_at (take n F))" using srt by (metis sorted_wrt_take take_map)
    show "0 < spec_Limit spec \<longrightarrow> int (length (map row_entry (take n F))) \<le> spec_Limit spec"
      by (auto simp: n_def min_def)
    show "spec_Limit spec \<le> 0 \<or> int (length (map row_entry (take n F))) < spec_Limit spec \<longrightarrow>
        set (map row_entry (take n F)) = {en \<in> row_entry ` set rows. spec_matches spec en}"
    proof
      assume "spec_Limit spec \<le> 0 \<or> int (length (map row_entry (take n F))) < spec_Limit spec"
      then have "take n F = F" using full by simp
      with img show "set (map row_entry (take n F)) = {en \<in> row_entry ` set rows. spec_matches spec en}"
        by (simp only: set_map)
    qed
    show "\<forall>en \<in> set (map row_entry (take n F)). \<forall>en' \<in> row_entry ` set rows.
        spec_matches spec en' \<longrightarrow> en' \<notin> set (map row_entry (take n F)) \<longrightarrow> snd en \<le> snd en'"
      using early by (fastforce simp: spec_matches_row)
  qed
qed

definition storage_inv :: "dbms \<Rightarrow> bool" where
  "storage_inv db = table_ok (t_message_storage (db_tables db))"

definition no_tx :: "sql_ctx \<Rightarrow> bool" where
  "no_tx ctx = (cx_tx ctx = None)"

lemma pending_insert_rows:
  "pending db \<subseteq> row_entry ` set (insert_rows rs (t_message_storage (db_tables db)))"
  using insert_rows_extends [of rs "t_message_storage (db_tables db)"] by (auto simp: pending_def)

lemma row_entries_delete:
  "row_entry ` set (delete_rows tp ids rows) =
   {en \<in> row_entry ` set rows. \<not> (msg_Topic (fst en) = tp \<and> msg_ID (fst en) \<in> set ids)}"
  by (auto simp: delete_rows_def message_of_def)

lemma Delete_cases:
  assumes "storage_Delete ctx tp ids db = (e, db')" and "no_tx ctx"
  obtains "t_message_storage (db_tables db') = delete_rows tp ids (t_message_storage (db_tables db))"
  | "e \<noteq> None" and "db_tables db' = db_tables db"
proof (cases "ids = []")
  case True
  with assms have "t_message_storage (db_tables db') = delete_rows tp ids (t_message_storage (db_tables db))"
    by (auto simp: storage_Delete_def delete_rows_def)
  then show ?thesis by (rule that(1))
next
  case False
  obtain r where r: "ExecContext ctx (delete_stmt tp ids) db = (r, db')"
    using assms False by (auto simp: storage_Delete_def split: prod.splits sum.splits)
  show ?thesis
  proof (cases r)
    case (Inl x)
    with r assms(2) have "db_tables db' = db_tables db \<or>
        db_tables db' = snd (delete_stmt tp ids) (db_tables db)"
      by (metis exec_autocommit_error no_tx_def)
    with assms False r Inl that show ?thesis by (auto simp: storage_Delete_def delete_stmt_def)
  next
    case (Inr x)
    with r assms(2) have "db_tables db' = snd (delete_stmt tp ids) (db_tables db)"
      by (metis exec_autocommit_ok no_tx_def)
    with that(1) show ?thesis by (simp add: delete_stmt_def)
  qed
qed

lemma Store_cases:
  assumes "storage_Store ctx at ms db = (e, db')" and "no_tx ctx"
  obtains "t_message_storage (db_tables db')
      = insert_rows (map (row_of at) ms) (t_message_storage (db_tables db))"
  | "e \<noteq> None" and "db_tables db' = db_tables db"
proof (cases "ms = []")
  case True
  with assms have "t_message_storage (db_tables db')
      = insert_rows (map (row_of at) ms) (t_message_storage (db_tables db))"
    by (auto simp: storage_Store_def insert_rows_def)
  then show ?thesis by (rule that(1))
next
  case False
  obtain r where r: "ExecContext ctx (store_stmt at ms) db = (r, db')"
    using assms False by (auto simp: storage_Store_def split: prod.splits sum.splits)
  show ?thesis
  proof (cases r)
    case (Inl x)
    with r assms(2) have "db_tables db' = db_tables db \<or>
        db_tables db' = snd (store_stmt at ms) (db_tables db)"
      by (metis exec_autocommit_error no_tx_def)
    with assms False r Inl that show ?thesis by (auto simp: storage_Store_def store_stmt_def)
  next
    case (Inr x)
    with r assms(2) have "db_tables db' = snd (store_stmt at ms) (db_tables db)"
      by (metis exec_autocommit_ok no_tx_def)
    with that(1) show ?thesis by (simp add: store_stmt_def)
  qed
qed

lemma Find_found:
  assumes "storage_Find order ctx spec db = (Inr ms, db')" and "no_tx ctx" and "storage_inv db"
    and "orders_by_scheduled_at order"
  shows "\<exists>ens. ms = map fst ens \<and> found_ok spec (pending db) ens"
proof -
  obtain rows where "SelectContext ctx (\<lambda>t. find_rows order spec (t_message_storage t)) db = (Inr rows, db')"
    and ms: "ms = map message_of rows"
    using assms(1) by (auto simp: storage_Find_def split: prod.splits sum.splits)
  then have "rows = find_rows order spec (t_message_storage (db_tables db))"
    using select_autocommit_ok assms(2) unfolding no_tx_def by blast
  moreover have "ms = map fst (map row_entry rows)" using ms by simp
  ultimately show ?thesis
    using find_rows_ok [OF assms(4)] assms(3) unfolding pending_def storage_inv_def by blast
qed

locale ordered_select =
  fixes order :: "msg_row list \<Rightarrow> msg_row list"
  assumes orders: "orders_by_scheduled_at order"

sublocale ordered_select \<subseteq> st: message_storage "NewMessageStorage order" pending storage_inv no_tx
proof unfold_locales
  fix s :: dbms
  show "finite (pending s)" by (simp add: pending_def)
next
  fix s
  assume "storage_inv s"
  then show "inj_on entry_key (pending s)"
    by (auto simp: storage_inv_def table_ok_def pending_def inj_on_def distinct_map)
next
  fix c ks s r s'
  assume "so_Lock (NewMessageStorage order) c ks s = (r, s')" and "storage_inv s"
  then show "pending s' = pending s \<and> storage_inv s'"
    by (auto simp: NewMessageStorage_def storage_Lock_def pending_def storage_inv_def
        dest: session_lock_tables)
next
  fix c ks s c' l s'
  assume "so_Lock (NewMessageStorage order) c ks s = (Inr (c', l), s')" and "no_tx c"
  then show "no_tx c'"
    by (auto simp: NewMessageStorage_def storage_Lock_def no_tx_def dest: session_lock_ctx)
next
  fix l s e s'
  assume "so_release (NewMessageStorage order) l s = (e, s')" and "storage_inv s"
  then show "pending s' = pending s \<and> storage_inv s'"
    by (auto simp: NewMessageStorage_def pending_def storage_inv_def dest: release_tables)
next
  fix c spec s fr s'
  assume "so_Find (NewMessageStorage order) c spec s = (fr, s')" and "storage_inv s"
  then show "pending s' = pending s \<and> storage_inv s'"
    by (auto simp: NewMessageStorage_def storage_Find_def pending_def storage_inv_def
        split: prod.splits sum.splits dest!: select_tables)
next
  fix c spec s ms s'
  assume "so_Find (NewMessageStorage order) c spec s = (Inr ms, s')" "no_tx c" "storage_inv s"
  then show "\<exists>ens. ms = map fst ens \<and> found_ok spec (pending s) ens"
    using Find_found orders by (simp add: NewMessageStorage_def)
next
  fix c at ms s e s'
  assume a: "so_Store (NewMessageStorage order) c at ms s = (e, s')" "no_tx c" "storage_inv s"
  then have "storage_Store c at ms s = (e, s')" by (simp add: NewMessageStorage_def)
  then show "storage_inv s' \<and> pending s \<subseteq> pending s'"
    using a pending_insert_rows [of s "map (row_of at) ms"]
    by (elim Store_cases) (auto simp: storage_inv_def pending_def table_ok_insert_rows)
next
  fix c at ms s s' m
  assume a: "so_Store (NewMessageStorage order) c at ms s = (None, s')" "no_tx c" and m: "m \<in> set ms"
  then have "storage_Store c at ms s = (None, s')" by (simp add: NewMessageStorage_def)
  then have rows: "t_message_storage (db_tables s')
      = insert_rows (map (row_of at) ms) (t_message_storage (db_tables s))"
    using a(2) by (elim Store_cases) auto
  obtain r where "r \<in> set (t_message_storage (db_tables s'))" "same_key (row_of at m) r"
    using m insert_rows_covers [of "row_of at m" "map (row_of at) ms"] rows by auto
  then have "row_entry r \<in> pending s'" "(msg_ID m, msg_Topic m) = entry_key (row_entry r)"
    by (auto simp: pending_def same_key_def row_of_def)
  then show "(msg_ID m, msg_Topic m) \<in> entry_key ` pending s'" by blast
next
  fix c tp ids s s'
  assume "so_Delete (NewMessageStorage order) c tp ids s = (None, s')" "no_tx c" "storage_inv s"
  then show "storage_inv s' \<and> pending s' =
      {en \<in> pending s. \<not> (msg_Topic (fst en) = tp \<and> msg_ID (fst en) \<in> set ids)}"
    unfolding pending_def row_entries_delete [symmetric]
    by (auto simp: NewMessageStorage_def storage_inv_def table_ok_delete_rows elim!: Delete_cases)
next
  fix c tp ids s de s'
  assume "so_Delete (NewMessageStorage order) c tp ids s = (Some de, s')" "no_tx c" "storage_inv s"
  then show "storage_inv s' \<and> (pending s' = pending s \<or> pending s' =
      {en \<in> pending s. \<not> (msg_Topic (fst en) = tp \<and> msg_ID (fst en) \<in> set ids)})"
    unfolding pending_def row_entries_delete [symmetric]
    by (auto simp: NewMessageStorage_def storage_inv_def table_ok_delete_rows elim!: Delete_cases)
qed

text \<open>Without faults the SQL storage answers every call.\<close>

definition db_healthy :: "dbms \<Rightarrow> bool" where
  "db_healthy db \<longleftrightarrow> (\<forall>n. db_fault db n = NoFault)"

definition lock_held :: "session_lock \<Rightarrow> dbms \<Rightarrow> bool" where
  "lock_held l db \<longleftrightarrow>
     cx_tx (sl_ctx l) = None \<and> (route_of (sl_ctx l), sl_lockID l) \<in> set (db_locks db)"

lemma tx_done_no_tx: "cx_tx ctx = None \<Longrightarrow> \<not> tx_done (route_of ctx) db"
  using route_no_tx [of ctx] by (auto simp: tx_done_def)

lemma exec_healthy:
  assumes "db_healthy db" and "cx_tx ctx = None" and "fst st (db_tables db) = Inr n"
  shows "\<exists>db'. ExecContext ctx st db = (Inr n, db') \<and> db_healthy db' \<and> db_locks db' = db_locks db"
  using assms route_no_tx [of ctx] tx_done_no_tx [of ctx]
  by (auto simp: ExecContext_def run_exec_def call_defs db_healthy_def db_view_no_tx db_write_def)

lemma select_healthy:
  assumes "db_healthy db" and "cx_tx ctx = None"
  shows "\<exists>xs db'. SelectContext ctx sel db = (Inr xs, db') \<and> db_healthy db' \<and> db_locks db' = db_locks db"
  using assms tx_done_no_tx [of ctx]
  by (auto simp: SelectContext_def run_select_def call_defs db_healthy_def)

lemma session_lock_healthy:
  assumes "db_healthy db" and "cx_tx ctx = None"
  shows "\<exists>c l db'. withSessionLevelLock ctx name db = (Inr (c, l), db') \<and> db_healthy db' \<and> lock_held l db'"
  using assms
  by (auto simp: withSessionLevelLock_def WithinSingleConnection_def open_conn_def Let_def
      pg_advisory_lock_def call_defs db_healthy_def lock_held_def tx_done_def route_of_def
      HasTransaction_def split: option.split)

lemma release_healthy:
  assumes "db_healthy db" and "lock_held l db"
  shows "\<exists>db'. releaseSessionLock l db = (None, db') \<and> db_healthy db'"
  using assms tx_done_no_tx [of "sl_ctx l"]
  by (auto simp: releaseSessionLock_def pg_advisory_unlock_def Let_def call_defs db_healthy_def
      lock_held_def cancel_conn_def close_conn_def split: option.split)

sublocale ordered_select \<subseteq>
  rs: reliable_storage "NewMessageStorage order" pending storage_inv no_tx db_healthy lock_held
proof unfold_locales
  fix s c ks
  assume "db_healthy s" "no_tx c"
  then show "\<exists>c' l s'. so_Lock (NewMessageStorage order) c ks s = (Inr (c', l), s')
      \<and> db_healthy s' \<and> lock_held l s'"
    using session_lock_healthy by (simp add: NewMessageStorage_def storage_Lock_def no_tx_def)
next
  fix s l
  assume "db_healthy s" "lock_held l s"
  then show "\<exists>s'. so_release (NewMessageStorage order) l s = (None, s') \<and> db_healthy s'"
    using release_healthy by (simp add: NewMessageStorage_def)
next
  fix s c spec
  assume "db_healthy s" "no_tx c"
  then obtain xs s' where "SelectContext c (\<lambda>t. find_rows order spec (t_message_storage t)) s = (Inr xs, s')"
    "db_healthy s'" "db_locks s' = db_locks s"
    using select_healthy unfolding no_tx_def by blast
  then show "\<exists>ms s'. so_Find (NewMessageStorage order) c spec s = (Inr ms, s') \<and> db_healthy s'
      \<and> (\<forall>l. lock_held l s \<longrightarrow> lock_held l s')"
    by (auto simp: NewMessageStorage_def storage_Find_def lock_held_def)
next
  fix s c tp ids
  assume h: "db_healthy s" and c: "no_tx c"
  obtain n where "fst (delete_stmt tp ids) (db_tables s) = Inr n" by (simp add: delete_stmt_def)
  then obtain s' where "ExecContext c (delete_stmt tp ids) s = (Inr n, s')"
    "db_healthy s'" "db_locks s' = db_locks s"
    using exec_healthy h c unfolding no_tx_def by blast
  with h show "\<exists>s'. so_Delete (NewMessageStorage order) c tp ids s = (None, s') \<and> db_healthy s'
      \<and> (\<forall>l. lock_held l s \<longrightarrow> lock_held l s')"
    by (auto simp: NewMessageStorage_def storage_Delete_def lock_held_def)
qed

text \<open>A stable sort is one way to meet \<^verbatim>\<open>ORDER BY\<close>.\<close>

interpretation stable_select: ordered_select "sort_key mr_scheduled_at"
  by unfold_locales (simp add: orders_by_scheduled_at_def)

context ordered_select
begin

lemma sql_contract:
  "message_storage (NewMessageStorage order) pending storage_inv no_tx"
  "reliable_storage (NewMessageStorage order) pending storage_inv no_tx db_healthy lock_held"
  by (rule st.message_storage_axioms rs.reliable_storage_axioms)+

end

lemmas sql_message_storage = ordered_select.sql_contract(1) [OF ordered_select.intro]
lemmas sql_reliable_storage = ordered_select.sql_contract(2) [OF ordered_select.intro]

end
