(* ===== verification/Outbox.thy ===== *)
theory Outbox
  imports Message_Storage
begin

text \<open>
  \<^verbatim>\<open>pkg/message/outbox.go\<close>: the transactional outbox.  \<^verbatim>\<open>processBatch\<close> takes the storage lock,
  finds due messages, hands each to the producer and deletes it.  \<^verbatim>\<open>process\<close> repeats batches until
  one comes back short, under \<^verbatim>\<open>backoff.Retry\<close>; \<^verbatim>\<open>Worker\<close> runs \<^verbatim>\<open>process\<close> for every signal.

  The storage is any implementation of \<^verbatim>\<open>message.Storage\<close> (\<open>storage_ops\<close>), the producer
  any function on a broker state, \<^verbatim>\<open>backoff.Retry\<close> a parameter.  \<^verbatim>\<open>time.Now\<close> reads the next value of a
  clock.  The loop of \<^verbatim>\<open>process\<close> has fuel: running out of it is \<^const>\<open>None\<close>.
\<close>

section \<open>State\<close>

type_synonym 'b producer = "message \<Rightarrow> 'b \<Rightarrow> err \<times> 'b"

record ('s, 'b) outbox_world =
  ow_store :: 's
  ow_broker :: 'b
  ow_sent :: "message list"
  ow_obs :: "obs list"
  ow_clock :: "nat \<Rightarrow> time"
  ow_ticks :: nat

text \<open>Hooks get the context (\<^const>\<open>None\<close> is Go's nil) and write observations, or panic.\<close>

record OutboxImpl =
  BatchSize :: int
  OnInternalError :: "(sql_ctx option \<Rightarrow> err \<Rightarrow> obs list outcome) list"
  OnFoundMessages :: "(sql_ctx option \<Rightarrow> message list \<Rightarrow> err \<Rightarrow> obs list outcome) list"
  OnSentMessage :: "(sql_ctx option \<Rightarrow> message \<Rightarrow> err \<Rightarrow> obs list outcome) list"
  OnDeletedMessage :: "(sql_ctx option \<Rightarrow> message \<Rightarrow> err \<Rightarrow> obs list outcome) list"

type_synonym OutboxOption = "OutboxImpl \<Rightarrow> OutboxImpl"

definition defaultOutboxBatchSize :: int where
  "defaultOutboxBatchSize = 100"

definition NewOutbox :: "OutboxOption list \<Rightarrow> OutboxImpl" where
  "NewOutbox opts = fold (\<lambda>opt o'. opt o') opts
     \<lparr>BatchSize = defaultOutboxBatchSize, OnInternalError = [], OnFoundMessages = [],
      OnSentMessage = [], OnDeletedMessage = []\<rparr>"

text \<open>A list of hook calls, in order: what they write, and whether one panicked (the rest is then
  not called).\<close>

fun run_hooks :: "obs list outcome list \<Rightarrow> obs list \<times> bool" where
  "run_hooks [] = ([], False)"
| "run_hooks (Panics # hs) = ([], True)"
| "run_hooks (Returns os # hs) = (case run_hooks hs of (os', p) \<Rightarrow> (os @ os', p))"

definition call_hooks :: "obs list outcome list \<Rightarrow> ('s, 'b) outbox_world \<Rightarrow> bool \<times> ('s, 'b) outbox_world" where
  "call_hooks hs w = (case run_hooks hs of (os, p) \<Rightarrow> (p, w\<lparr>ow_obs := ow_obs w @ os\<rparr>))"

definition outbox_now :: "('s, 'b) outbox_world \<Rightarrow> time \<times> ('s, 'b) outbox_world" where
  "outbox_now w = (ow_clock w (ow_ticks w), w\<lparr>ow_ticks := Suc (ow_ticks w)\<rparr>)"

section \<open>One batch\<close>

text \<open>\<^verbatim>\<open>producer.Produce\<close>; the messages it has accepted are recorded.\<close>

definition outbox_produce ::
    "'b producer \<Rightarrow> message \<Rightarrow> ('s, 'b) outbox_world \<Rightarrow> err \<times> ('s, 'b) outbox_world" where
  "outbox_produce P m w =
     (case P m (ow_broker w) of
        (None, b) \<Rightarrow> (None, w\<lparr>ow_broker := b, ow_sent := ow_sent w @ [m]\<rparr>)
      | (Some e, b) \<Rightarrow> (Some e, w\<lparr>ow_broker := b\<rparr>))"

definition outbox_delete ::
    "('l, 's) storage_ops \<Rightarrow> sql_ctx \<Rightarrow> message \<Rightarrow> ('s, 'b) outbox_world \<Rightarrow> err \<times> ('s, 'b) outbox_world" where
  "outbox_delete S ctx m w =
     (case so_Delete S ctx (msg_Topic m) [msg_ID m] (ow_store w) of
        (e, s) \<Rightarrow> (e, w\<lparr>ow_store := s\<rparr>))"

fun send_messages ::
    "('l, 's) storage_ops \<Rightarrow> 'b producer \<Rightarrow> OutboxImpl \<Rightarrow> sql_ctx \<Rightarrow> message list
      \<Rightarrow> ('s, 'b) outbox_world \<Rightarrow> err outcome \<times> ('s, 'b) outbox_world" where
  "send_messages S P ob ctx [] w = (Returns None, w)"
| "send_messages S P ob ctx (m # ms) w =
     (let (e, w1) = outbox_produce P m w;
          (p, w2) = call_hooks (map (\<lambda>fn. fn (Some ctx) m e) (OnSentMessage ob)) w1
      in if p then (Panics, w2)
         else case e of
           Some x \<Rightarrow> (Returns (Some (errorf ''send message'' x)), w2)
         | None \<Rightarrow>
             (let (e', w3) = outbox_delete S ctx m w2;
                  (p', w4) = call_hooks (map (\<lambda>fn. fn (Some ctx) m e') (OnDeletedMessage ob)) w3
              in if p' then (Panics, w4)
                 else case e' of
                   Some x \<Rightarrow> (Returns (Some (errorf ''delete sent message'' x)), w4)
                 | None \<Rightarrow> send_messages S P ob ctx ms w4))"

text \<open>The body of \<^verbatim>\<open>processBatch\<close> after the lock, up to the deferred function.\<close>

definition batch_body ::
    "('l, 's) storage_ops \<Rightarrow> 'b producer \<Rightarrow> OutboxImpl \<Rightarrow> sql_ctx
      \<Rightarrow> ('s, 'b) outbox_world \<Rightarrow> (bool \<times> err) outcome \<times> ('s, 'b) outbox_world" where
  "batch_body S P ob ctx w =
     (let (now, w1) = outbox_now w;
          (found, s) = so_Find S ctx \<lparr>spec_IDsExcluded = [], spec_Topics = [],
              spec_ScheduledAtBefore = now, spec_Limit = BatchSize ob\<rparr> (ow_store w1);
          w2 = w1\<lparr>ow_store := s\<rparr>;
          msgs = (case found of Inl _ \<Rightarrow> [] | Inr ms \<Rightarrow> ms);
          e = (case found of Inl x \<Rightarrow> Some x | Inr _ \<Rightarrow> None);
          (p, w3) = call_hooks (map (\<lambda>fn. fn (Some ctx) msgs e) (OnFoundMessages ob)) w2
      in if p then (Panics, w3)
         else case e of
           Some x \<Rightarrow> (Returns (False, Some (errorf ''get messages to send'' x)), w3)
         | None \<Rightarrow>
             if msgs = [] then (Returns (True, None), w3)
             else case send_messages S P ob ctx msgs w3 of
                 (Panics, w4) \<Rightarrow> (Panics, w4)
               | (Returns (Some x), w4) \<Rightarrow> (Returns (False, Some x), w4)
               | (Returns None, w4) \<Rightarrow> (Returns (int (length msgs) < BatchSize ob, None), w4))"

text \<open>
  \<^verbatim>\<open>processBatch\<close>.  Its results are named: the deferred function assigns the result of
  \<^verbatim>\<open>releaseLock()\<close> to \<^verbatim>\<open>err\<close>, whatever the body had returned.  A failed \<^verbatim>\<open>Lock\<close> has set the variable
  \<^verbatim>\<open>ctx\<close> to nil before the hooks get it.
\<close>

definition processBatch ::
    "('l, 's) storage_ops \<Rightarrow> 'b producer \<Rightarrow> OutboxImpl \<Rightarrow> sql_ctx
      \<Rightarrow> ('s, 'b) outbox_world \<Rightarrow> (bool \<times> err) outcome \<times> ('s, 'b) outbox_world" where
  "processBatch S P ob ctx w =
     (case so_Lock S ctx [] (ow_store w) of
        (Inl x, s) \<Rightarrow>
          (let e = errorf ''get storage lock'' x;
               (p, w1) = call_hooks (map (\<lambda>fn. fn None (Some e)) (OnInternalError ob)) (w\<lparr>ow_store := s\<rparr>)
           in (if p then Panics else Returns (False, Some e), w1))
      | (Inr (ctx', l), s) \<Rightarrow>
          (let (r, w1) = batch_body S P ob ctx' (w\<lparr>ow_store := s\<rparr>);
               (e, s') = so_release S l (ow_store w1);
               w2 = w1\<lparr>ow_store := s'\<rparr>;
               (p, w3) =
                 (case e of
                    None \<Rightarrow> (False, w2)
                  | Some x \<Rightarrow> call_hooks
                      (map (\<lambda>fn. fn (Some ctx') (Some (errorf ''release storage lock'' x))) (OnInternalError ob)) w2)
           in (if p then Panics
               else case r of Panics \<Rightarrow> Panics | Returns (allProcessed, _) \<Rightarrow> Returns (allProcessed, e),
               w3)))"

section \<open>The loop, the retry, the worker\<close>

fun process_impl ::
    "nat \<Rightarrow> ('l, 's) storage_ops \<Rightarrow> 'b producer \<Rightarrow> OutboxImpl \<Rightarrow> sql_ctx
      \<Rightarrow> ('s, 'b) outbox_world \<Rightarrow> (err outcome \<times> ('s, 'b) outbox_world) option" where
  "process_impl 0 S P ob ctx w = None"
| "process_impl (Suc n) S P ob ctx w =
     (case processBatch S P ob ctx w of
        (Panics, w') \<Rightarrow> Some (Panics, w')
      | (Returns (allProcessed, Some e), w') \<Rightarrow> Some (Returns (Some e), w')
      | (Returns (True, None), w') \<Rightarrow> Some (Returns None, w')
      | (Returns (False, None), w') \<Rightarrow> process_impl n S P ob ctx w')"

type_synonym 'w operation = "'w \<Rightarrow> (err outcome \<times> 'w) option"

text \<open>
  \<open>retry\<close> stands for \<^verbatim>\<open>backoff.Retry(_, backoff.WithContext(o.Retry, ctx))\<close>; its result is
  dropped.
\<close>

definition outbox_process ::
    "(('s, 'b) outbox_world operation \<Rightarrow> ('s, 'b) outbox_world operation)
      \<Rightarrow> nat \<Rightarrow> ('l, 's) storage_ops \<Rightarrow> 'b producer \<Rightarrow> OutboxImpl \<Rightarrow> sql_ctx
      \<Rightarrow> ('s, 'b) outbox_world \<Rightarrow> (unit outcome \<times> ('s, 'b) outbox_world) option" where
  "outbox_process retry n S P ob ctx w =
     (case retry (process_impl n S P ob ctx) w of
        None \<Rightarrow> None
      | Some (Panics, w') \<Rightarrow> Some (Panics, w')
      | Some (Returns _, w') \<Rightarrow> Some (Returns (), w'))"

text \<open>
  The documented behaviour of \<^verbatim>\<open>backoff.Retry\<close>: it calls the operation; a nil error ends it; after
  an error it either gives up with an error or calls the operation again; a panic passes through.
\<close>

inductive retry_run :: "'w operation \<Rightarrow> 'w \<Rightarrow> err outcome \<Rightarrow> 'w \<Rightarrow> bool" for operation where
  run_ok: "operation w = Some (Returns None, w') \<Longrightarrow> retry_run operation w (Returns None) w'"
| run_panic: "operation w = Some (Panics, w') \<Longrightarrow> retry_run operation w Panics w'"
| run_stop: "operation w = Some (Returns (Some e), w') \<Longrightarrow> retry_run operation w (Returns (Some e')) w'"
| run_again: "operation w = Some (Returns (Some e), w1) \<Longrightarrow> retry_run operation w1 r w' \<Longrightarrow>
    retry_run operation w r w'"

definition retries :: "('w operation \<Rightarrow> 'w operation) \<Rightarrow> bool" where
  "retries retry \<longleftrightarrow>
     (\<forall>operation w r w'. retry operation w = Some (r, w') \<longrightarrow> retry_run operation w r w')
     \<and> (\<forall>operation w w'. operation w = Some (Returns None, w') \<longrightarrow>
          retry operation w = Some (Returns None, w'))"

text \<open>
  \<^verbatim>\<open>Worker\<close> and \<^verbatim>\<open>Process\<close>, over the one-slot channel: \<^verbatim>\<open>Process\<close> fills the slot or does nothing when it is full; the
  worker empties it and runs \<^verbatim>\<open>process\<close> (\<open>run\<close>, which may panic or not return), or leaves
  when the context is done (\<open>ws_done\<close>).
\<close>

datatype worker_phase = Waiting | Left | Crashed

record 'w worker_state =
  ws_chan :: bool
  ws_phase :: worker_phase
  ws_done :: bool
  ws_world :: 'w

definition outbox_Process :: "'w worker_state \<Rightarrow> 'w worker_state" where
  "outbox_Process st = st\<lparr>ws_chan := True\<rparr>"

definition outbox_Worker_start :: "'w \<Rightarrow> 'w worker_state" where
  "outbox_Worker_start w =
     outbox_Process \<lparr>ws_chan = False, ws_phase = Waiting, ws_done = False, ws_world = w\<rparr>"

inductive outbox_step ::
    "('w \<Rightarrow> (unit outcome \<times> 'w) option) \<Rightarrow> 'w worker_state \<Rightarrow> 'w worker_state \<Rightarrow> bool" for run where
  step_process: "outbox_step run st (outbox_Process st)"
| step_receive: "ws_phase st = Waiting \<Longrightarrow> ws_chan st \<Longrightarrow> run (ws_world st) = Some (Returns (), w) \<Longrightarrow>
    outbox_step run st (st\<lparr>ws_chan := False, ws_world := w\<rparr>)"
| step_crash: "ws_phase st = Waiting \<Longrightarrow> ws_chan st \<Longrightarrow> run (ws_world st) = Some (Panics, w) \<Longrightarrow>
    outbox_step run st (st\<lparr>ws_chan := False, ws_phase := Crashed, ws_world := w\<rparr>)"
| step_leave: "ws_phase st = Waiting \<Longrightarrow> ws_done st \<Longrightarrow> outbox_step run st (st\<lparr>ws_phase := Left\<rparr>)"
| step_cancel: "outbox_step run st (st\<lparr>ws_done := True\<rparr>)"

section \<open>Options\<close>

abbreviation log_ctx :: "sql_ctx option \<Rightarrow> fields option" where
  "log_ctx ctx \<equiv> map_option cx_log ctx"

definition WithOutboxLogging :: "logger \<Rightarrow> level \<Rightarrow> level \<Rightarrow> OutboxOption" where
  "WithOutboxLogging l infoLevel errorLevel ob =
     ob\<lparr>OnInternalError := OnInternalError ob @
          [\<lambda>ctx e. log_Log (log_WithError l e) (log_ctx ctx) errorLevel ''message outbox internal error''],
        OnFoundMessages := OnFoundMessages ob @
          [\<lambda>ctx _ e. if e \<noteq> None
             then log_Log (log_WithError l e) (log_ctx ctx) errorLevel ''message outbox internal error''
             else Returns []],
        OnSentMessage := OnSentMessage ob @
          [\<lambda>ctx msg e. let l = log_WithField l ''messageID'' (FUuid (msg_ID msg)) in
             if e \<noteq> None
             then log_Log (log_WithError l e) (log_ctx ctx) errorLevel ''outbox message sending failed''
             else log_Log l (log_ctx ctx) infoLevel ''outbox message sent successfully''],
        OnDeletedMessage := OnDeletedMessage ob @
          [\<lambda>ctx msg e. let l = log_WithField l ''messageID'' (FUuid (msg_ID msg)) in
             case e of
               Some x \<Rightarrow> log_Log (log_WithError l (Some (errorf ''delete message from storage'' x)))
                 (log_ctx ctx) errorLevel ''message outbox internal error''
             | None \<Rightarrow> log_Log l (log_ctx ctx) infoLevel ''outbox message deleted from storage successfully'']\<rparr>"

definition attempt_labels :: "message \<Rightarrow> err \<Rightarrow> fields" where
  "attempt_labels msg e = [(''success'', FBool (e = None)), (''topic'', FStr (msg_Topic msg))]"

definition WithOutboxMetrics :: "metrics \<Rightarrow> OutboxOption" where
  "WithOutboxMetrics m ob =
     ob\<lparr>OnInternalError := OnInternalError ob @
          [\<lambda>_ _. Returns (met_Increment m ''msg_outbox_internal_error_total'')],
        OnFoundMessages := OnFoundMessages ob @
          [\<lambda>_ _ e. Returns (if e \<noteq> None then met_Increment m ''msg_outbox_internal_error_total'' else [])],
        OnSentMessage := OnSentMessage ob @
          [\<lambda>_ msg e. Returns (met_Increment (met_With m (attempt_labels msg e))
             ''msg_outbox_producer_sending_attempts_total'')],
        OnDeletedMessage := OnDeletedMessage ob @
          [\<lambda>_ msg e. Returns (met_Increment (met_With m (attempt_labels msg e))
             ''msg_outbox_producer_delete_from_storage_attempts_total'')]\<rparr>"

section \<open>What a run does to the storage\<close>

lemma call_hooks_world [simp]:
  "ow_store (snd (call_hooks hs w)) = ow_store w"
  "ow_broker (snd (call_hooks hs w)) = ow_broker w"
  "ow_sent (snd (call_hooks hs w)) = ow_sent w"
  "ow_clock (snd (call_hooks hs w)) = ow_clock w"
  "ow_ticks (snd (call_hooks hs w)) = ow_ticks w"
  by (simp_all add: call_hooks_def split: prod.split)

lemma call_hooks_eq:
  "call_hooks hs w = (p, w') \<Longrightarrow> ow_store w' = ow_store w \<and> ow_broker w' = ow_broker w \<and>
   ow_sent w' = ow_sent w \<and> ow_clock w' = ow_clock w \<and> ow_ticks w' = ow_ticks w"
  using call_hooks_world [of hs w] by simp

lemma outbox_produce_eq:
  "outbox_produce P m w = (e, w') \<Longrightarrow>
   ow_store w' = ow_store w \<and> ow_sent w' = ow_sent w @ (if e = None then [m] else []) \<and>
   ow_clock w' = ow_clock w \<and> ow_ticks w' = ow_ticks w"
  by (auto simp: outbox_produce_def split: prod.splits option.splits)

lemma outbox_delete_eq:
  "outbox_delete S ctx m w = (e, w') \<Longrightarrow>
   (\<exists>s. so_Delete S ctx (msg_Topic m) [msg_ID m] (ow_store w) = (e, s) \<and> ow_store w' = s) \<and>
   ow_sent w' = ow_sent w \<and> ow_broker w' = ow_broker w \<and>
   ow_clock w' = ow_clock w \<and> ow_ticks w' = ow_ticks w"
  by (auto simp: outbox_delete_def split: prod.splits)

text \<open>From \<open>w\<close> to \<open>w'\<close> messages have only left the storage after the producer took them, and only
  stored messages were sent.\<close>

definition outbox_progress ::
    "('s \<Rightarrow> entry set) \<Rightarrow> ('s, 'b) outbox_world \<Rightarrow> ('s, 'b) outbox_world \<Rightarrow> bool" where
  "outbox_progress pend w w' \<longleftrightarrow>
     (\<exists>new. ow_sent w' = ow_sent w @ new \<and> set new \<subseteq> fst ` pend (ow_store w)
        \<and> pend (ow_store w') \<subseteq> pend (ow_store w)
        \<and> (\<forall>en \<in> pend (ow_store w). en \<in> pend (ow_store w') \<or> fst en \<in> set new))"

lemma outbox_progress_refl: "ow_sent w' = ow_sent w \<Longrightarrow> pend (ow_store w') = pend (ow_store w) \<Longrightarrow>
    outbox_progress pend w w'"
  by (auto simp: outbox_progress_def)

lemma outbox_progress_trans:
  assumes "outbox_progress pend w1 w2" and "outbox_progress pend w2 w3"
  shows "outbox_progress pend w1 w3"
proof -
  obtain a where a: "ow_sent w2 = ow_sent w1 @ a" "set a \<subseteq> fst ` pend (ow_store w1)"
    "pend (ow_store w2) \<subseteq> pend (ow_store w1)"
    "\<forall>en \<in> pend (ow_store w1). en \<in> pend (ow_store w2) \<or> fst en \<in> set a"
    using assms(1) unfolding outbox_progress_def by blast
  obtain b where b: "ow_sent w3 = ow_sent w2 @ b" "set b \<subseteq> fst ` pend (ow_store w2)"
    "pend (ow_store w3) \<subseteq> pend (ow_store w2)"
    "\<forall>en \<in> pend (ow_store w2). en \<in> pend (ow_store w3) \<or> fst en \<in> set b"
    using assms(2) unfolding outbox_progress_def by blast
  have "set b \<subseteq> fst ` pend (ow_store w1)" using b(2) a(3) by blast
  with a b show ?thesis
    unfolding outbox_progress_def by (intro exI [of _ "a @ b"]) auto
qed

text \<open>What a (possibly interrupted) run over \<open>ens\<close> leaves behind: the first \<open>k\<close> were sent, the storage
  has lost none but those.\<close>

definition sent_prefix ::
    "('s \<Rightarrow> entry set) \<Rightarrow> entry list \<Rightarrow> nat \<Rightarrow> ('s, 'b) outbox_world \<Rightarrow> ('s, 'b) outbox_world \<Rightarrow> bool" where
  "sent_prefix pend ens k w w' \<longleftrightarrow>
     k \<le> length ens \<and> ow_sent w' = ow_sent w @ map fst (take k ens)
     \<and> pend (ow_store w) - set (take k ens) \<subseteq> pend (ow_store w')
     \<and> pend (ow_store w') \<subseteq> pend (ow_store w)"

lemma sent_prefix_progress:
  assumes "sent_prefix pend ens k w w'" and "set ens \<subseteq> pend (ow_store w)"
  shows "outbox_progress pend w w'"
  unfolding outbox_progress_def
  by (rule exI [of _ "map fst (take k ens)"])
     (use assms in \<open>auto simp: sent_prefix_def dest: in_set_takeD\<close>)

lemma sent_prefix_0:
  "ow_sent w' = ow_sent w \<Longrightarrow> pend (ow_store w') = pend (ow_store w) \<Longrightarrow> sent_prefix pend ens 0 w w'"
  by (simp add: sent_prefix_def)

lemma sent_prefix_Suc:
  assumes "ow_sent w1 = ow_sent w @ [fst en]"
    and "pend (ow_store w) - {en} \<subseteq> pend (ow_store w1)" "pend (ow_store w1) \<subseteq> pend (ow_store w)"
    and "sent_prefix pend ens k w1 w'"
  shows "sent_prefix pend (en # ens) (Suc k) w w'"
  using assms by (auto simp: sent_prefix_def)

lemma entry_key_removes:
  assumes "inj_on entry_key P" and "en \<in> P"
  shows "{x \<in> P. \<not> (msg_Topic (fst x) = msg_Topic (fst en) \<and> msg_ID (fst x) \<in> set [msg_ID (fst en)])} = P - {en}"
  using assms by (auto simp: inj_on_def entry_key_def)

context message_storage
begin

lemma delete_entry:
  assumes "outbox_delete S ctx (fst en) w = (e, w')" and "ok ctx" and "inv (ow_store w)"
    and "en \<in> pend (ow_store w)"
  shows "inv (ow_store w') \<and> pend (ow_store w) - {en} \<subseteq> pend (ow_store w')
    \<and> pend (ow_store w') \<subseteq> pend (ow_store w) \<and> (e = None \<longrightarrow> pend (ow_store w') = pend (ow_store w) - {en})"
proof -
  obtain s where s: "so_Delete S ctx (msg_Topic (fst en)) [msg_ID (fst en)] (ow_store w) = (e, s)"
    "ow_store w' = s"
    using assms(1) outbox_delete_eq by blast
  note rem = entry_key_removes [OF pend_keys [OF assms(3)] assms(4)]
  show ?thesis
  proof (cases e)
    case None
    with s have "so_Delete S ctx (msg_Topic (fst en)) [msg_ID (fst en)] (ow_store w) = (None, ow_store w')"
      by simp
    from delete_removes [OF this assms(2,3)] show ?thesis unfolding rem by auto
  next
    case (Some x)
    with s have "so_Delete S ctx (msg_Topic (fst en)) [msg_ID (fst en)] (ow_store w) = (Some x, ow_store w')"
      by simp
    from delete_error [OF this assms(2,3)] Some show ?thesis unfolding rem by auto
  qed
qed

text \<open>The first message of a list: sending stops at it, with it sent or not, or goes on without it in the storage.\<close>

lemma send_first:
  assumes run: "send_messages S P ob ctx (fst en # ms) w = (r, w')" and ok: "ok ctx" and i: "inv (ow_store w)" and en: "en \<in> pend (ow_store w)"
  shows "r \<noteq> Returns None \<and> inv (ow_store w') \<and> ow_clock w' = ow_clock w \<and> ow_ticks w' = ow_ticks w \<and> (\<forall>ens. \<exists>k. sent_prefix pend (en # ens) k w w')
    \<or> (\<exists>w1. send_messages S P ob ctx ms w1 = (r, w') \<and> inv (ow_store w1) \<and> ow_clock w1 = ow_clock w \<and> ow_ticks w1 = ow_ticks w
        \<and> ow_sent w1 = ow_sent w @ [fst en] \<and> pend (ow_store w1) = pend (ow_store w) - {en})"
proof -
  obtain e w1 where p: "outbox_produce P (fst en) w = (e, w1)" by force
  obtain b w2 where h: "call_hooks (map (\<lambda>fn. fn (Some ctx) (fst en) e) (OnSentMessage ob)) w1 = (b, w2)" by force
  note eqs = outbox_produce_eq [OF p] call_hooks_eq [OF h]
  show ?thesis
  proof (cases "b \<or> e \<noteq> None")
    case True
    with run p h have "w' = w2" "r \<noteq> Returns None" by (auto split: option.splits if_splits)
    moreover have "sent_prefix pend (en # ens) (if e = None then Suc 0 else 0) w w2" for ens
    proof (cases e)
      case None
      have "sent_prefix pend (en # ens) (Suc 0) w w2" using eqs None by (intro sent_prefix_Suc [of w2]) (auto intro: sent_prefix_0)
      with None show ?thesis by simp
    next
      case (Some x)
      then show ?thesis using eqs by (auto intro: sent_prefix_0)
    qed
    ultimately show ?thesis using eqs i by auto
  next
    case False
    obtain e' w3 where d: "outbox_delete S ctx (fst en) w2 = (e', w3)" by force
    obtain b' w4 where h': "call_hooks (map (\<lambda>fn. fn (Some ctx) (fst en) e') (OnDeletedMessage ob)) w3 = (b', w4)" by force
    note eqs' = outbox_delete_eq [OF d] call_hooks_eq [OF h']
    have del: "inv (ow_store w4)" "pend (ow_store w) - {en} \<subseteq> pend (ow_store w4)" "pend (ow_store w4) \<subseteq> pend (ow_store w)"
      "e' = None \<Longrightarrow> pend (ow_store w4) = pend (ow_store w) - {en}" using delete_entry [OF d ok] i en eqs eqs' by auto
    have sent: "ow_sent w4 = ow_sent w @ [fst en]" "ow_clock w4 = ow_clock w" "ow_ticks w4 = ow_ticks w" using eqs eqs' False by auto
    show ?thesis
    proof (cases "b' \<or> e' \<noteq> None")
      case True
      with run p h d h' False have "w' = w4" "r \<noteq> Returns None" by (auto split: option.splits if_splits)
      moreover have "sent_prefix pend (en # ens) (Suc 0) w w4" for ens using sent del by (intro sent_prefix_Suc [of w4]) (auto intro: sent_prefix_0)
      ultimately show ?thesis using sent del by blast
    next
      case rest: False
      then have "send_messages S P ob ctx ms w4 = (r, w')" using run p h d h' False by auto
      with sent del rest show ?thesis by blast
    qed
  qed
qed

lemma send_messages_prefix:
  assumes "send_messages S P ob ctx (map fst ens) w = (r, w')" and "ok ctx" and "inv (ow_store w)"
    and "set ens \<subseteq> pend (ow_store w)" and "distinct (map entry_key ens)"
  shows "inv (ow_store w') \<and> ow_clock w' = ow_clock w \<and> ow_ticks w' = ow_ticks w
    \<and> (\<exists>k. sent_prefix pend ens k w w'
        \<and> (r = Returns None \<longrightarrow> k = length ens \<and> pend (ow_store w') = pend (ow_store w) - set ens))"
  using assms
proof (induction ens arbitrary: w)
  case Nil
  then show ?case by (auto simp: sent_prefix_def)
next
  case (Cons en ens)
  have "send_messages S P ob ctx (fst en # map fst ens) w = (r, w')" "en \<in> pend (ow_store w)" using Cons.prems(1,4) by simp_all
  from send_first [OF this(1) Cons.prems(2,3) this(2)] show ?case
  proof (elim disjE exE conjE)
    fix w1 assume run: "send_messages S P ob ctx (map fst ens) w1 = (r, w')" and i1: "inv (ow_store w1)"
      and eq: "ow_clock w1 = ow_clock w" "ow_ticks w1 = ow_ticks w" and sent: "ow_sent w1 = ow_sent w @ [fst en]"
      and pend1: "pend (ow_store w1) = pend (ow_store w) - {en}"
    have sub: "set ens \<subseteq> pend (ow_store w1)" using Cons.prems(4,5) pend1 by auto
    have "distinct (map entry_key ens)" using Cons.prems(5) by simp
    from Cons.IH [OF run Cons.prems(2) i1 sub this] obtain k where k: "sent_prefix pend ens k w1 w'"
      and rest: "inv (ow_store w')" "ow_clock w' = ow_clock w1" "ow_ticks w' = ow_ticks w1"
        "r = Returns None \<longrightarrow> k = length ens \<and> pend (ow_store w') = pend (ow_store w1) - set ens" by blast
    have "sent_prefix pend (en # ens) (Suc k) w w'" using sent_prefix_Suc [OF sent _ _ k] pend1 by auto
    with rest pend1 eq show ?thesis by (intro conjI exI [of _ "Suc k"]) auto
  qed auto
qed

end

definition due :: "time \<Rightarrow> entry set \<Rightarrow> entry set" where
  "due t P = {en \<in> P. snd en \<le> t}"

lemma found_due:
  "found_ok \<lparr>spec_IDsExcluded = [], spec_Topics = [], spec_ScheduledAtBefore = t, spec_Limit = n\<rparr> P ens \<Longrightarrow>
   set ens \<subseteq> due t P \<and> distinct (map entry_key ens) \<and> sorted (map snd ens)
   \<and> (n \<le> 0 \<or> int (length ens) < n \<longrightarrow> set ens = due t P)"
  by (simp add: found_ok_def spec_matches_def due_def)

text \<open>What a batch at instant \<open>t\<close> that came to the verdict \<open>r\<close> did.\<close>

definition batch_outcome ::
    "('s \<Rightarrow> entry set) \<Rightarrow> time \<Rightarrow> (bool \<times> err) outcome \<Rightarrow> ('s, 'b) outbox_world \<Rightarrow> ('s, 'b) outbox_world \<Rightarrow> bool" where
  "batch_outcome pend t r w w' \<longleftrightarrow>
     (\<exists>ens k. set ens \<subseteq> due t (pend (ow_store w)) \<and> sorted (map snd ens) \<and> sent_prefix pend ens k w w'
        \<and> (\<forall>b. r = Returns (b, None) \<longrightarrow> pend (ow_store w') = pend (ow_store w) - set ens
             \<and> (b \<longrightarrow> set ens = due t (pend (ow_store w))) \<and> (\<not> b \<longrightarrow> ens \<noteq> [])))"

lemma batch_outcome_none:
  "ow_sent w' = ow_sent w \<Longrightarrow> pend (ow_store w') = pend (ow_store w) \<Longrightarrow> (\<And>b. r \<noteq> Returns (b, None)) \<Longrightarrow>
   batch_outcome pend t r w w'"
  unfolding batch_outcome_def by (intro exI [of _ "[]"] exI [of _ 0]) (simp add: sent_prefix_0)

lemma batch_outcome_progress: "batch_outcome pend t r w w' \<Longrightarrow> outbox_progress pend w w'"
  by (auto simp: batch_outcome_def due_def intro!: sent_prefix_progress)

lemma batch_outcome_cong:
  assumes "batch_outcome pend t r w w'"
    and "ow_sent v = ow_sent w" "pend (ow_store v) = pend (ow_store w)"
    and "ow_sent v' = ow_sent w'" "pend (ow_store v') = pend (ow_store w')"
    and "\<And>b. r' = Returns (b, None) \<Longrightarrow> r = Returns (b, None)"
  shows "batch_outcome pend t r' v v'"
  using assms unfolding batch_outcome_def sent_prefix_def by metis

context message_storage
begin

lemma batch_body_outcome:
  assumes body: "batch_body S P ob ctx w = (r, w')" and ok: "ok ctx" and i: "inv (ow_store w)"
  shows "inv (ow_store w') \<and> ow_clock w' = ow_clock w \<and> ow_ticks w' = Suc (ow_ticks w)
    \<and> batch_outcome pend (ow_clock w (ow_ticks w)) r w w'"
proof -
  let ?t = "ow_clock w (ow_ticks w)"
  let ?spec = "\<lparr>spec_IDsExcluded = [], spec_Topics = [], spec_ScheduledAtBefore = ?t, spec_Limit = BatchSize ob\<rparr>"
  obtain found s where f: "so_Find S ctx ?spec (ow_store w) = (found, s)" by force
  have s: "pend s = pend (ow_store w)" "inv s" using find_keeps [OF f i] by auto
  define w2 where "w2 = w\<lparr>ow_ticks := Suc (ow_ticks w), ow_store := s\<rparr>"
  define msgs where "msgs = (case found of Inl _ \<Rightarrow> [] | Inr ms \<Rightarrow> ms)"
  define e where "e = (case found of Inl x \<Rightarrow> Some x | Inr _ \<Rightarrow> None)"
  obtain p w3 where h: "call_hooks (map (\<lambda>fn. fn (Some ctx) msgs e) (OnFoundMessages ob)) w2 = (p, w3)"
    by force
  have w3: "ow_store w3 = s" "ow_sent w3 = ow_sent w" "ow_clock w3 = ow_clock w"
    "ow_ticks w3 = Suc (ow_ticks w)"
    using call_hooks_eq [OF h] by (simp_all add: w2_def)
  have run: "(if p then (Panics, w3) else case e of
       Some x \<Rightarrow> (Returns (False, Some (errorf ''get messages to send'' x)), w3)
     | None \<Rightarrow> if msgs = [] then (Returns (True, None), w3)
         else case send_messages S P ob ctx msgs w3 of
             (Panics, w4) \<Rightarrow> (Panics, w4)
           | (Returns (Some x), w4) \<Rightarrow> (Returns (False, Some x), w4)
           | (Returns None, w4) \<Rightarrow> (Returns (int (length msgs) < BatchSize ob, None), w4)) = (r, w')"
    using body f h unfolding batch_body_def outbox_now_def w2_def msgs_def e_def Let_def
    by (cases found) (simp_all split del: if_split cong: if_cong option.case_cong prod.case_cong outcome.case_cong)
  show ?thesis
  proof (cases "p \<or> e \<noteq> None")
    case True
    with run have "w' = w3" "\<And>b. r \<noteq> Returns (b, None)" by (auto split: option.splits if_splits)
    with w3 s show ?thesis by (auto intro: batch_outcome_none)
  next
    case False
    then have found: "found = Inr msgs" by (auto simp: e_def msgs_def split: sum.splits)
    from find_found [OF f [unfolded found] ok i] obtain ens where ms: "msgs = map fst ens"
      and ens: "found_ok ?spec (pend (ow_store w)) ens" by auto
    note d = found_due [OF ens]
    show ?thesis
    proof (cases "msgs = []")
      case True
      with ms have "ens = []" by simp
      moreover have "due ?t (pend (ow_store w)) = {}" using d \<open>ens = []\<close> by auto
      moreover have "w' = w3" "r = Returns (True, None)" using run True False by auto
      ultimately have "batch_outcome pend ?t r w w'"
        unfolding batch_outcome_def
        by (intro exI [of _ "[]"] exI [of _ 0]) (auto simp: w3 s intro: sent_prefix_0)
      with w3 s \<open>w' = w3\<close> show ?thesis by simp
    next
      case ne: False
      obtain q w4 where q: "send_messages S P ob ctx (map fst ens) w3 = (q, w4)" by force
      have w4: "w' = w4" "\<And>b. r = Returns (b, None) \<Longrightarrow> q = Returns None \<and> (b \<longleftrightarrow> int (length ens) < BatchSize ob)"
        using run False ne q ms by (auto split: outcome.splits option.splits)
      have sub: "set ens \<subseteq> pend (ow_store w3)" using d w3 s by (auto simp: due_def)
      have keys: "distinct (map entry_key ens)" using d by blast
      have i3: "inv (ow_store w3)" using w3 s by simp
      from send_messages_prefix [OF q ok i3 sub keys]
      obtain k where k: "inv (ow_store w4)" "ow_clock w4 = ow_clock w3" "ow_ticks w4 = ow_ticks w3"
        "sent_prefix pend ens k w3 w4"
        "q = Returns None \<Longrightarrow> pend (ow_store w4) = pend (ow_store w3) - set ens"
        by blast
      have "sent_prefix pend ens k w w4" using k(4) w3 s by (simp add: sent_prefix_def)
      moreover have "ens \<noteq> []" using ne ms by simp
      ultimately have "batch_outcome pend ?t r w w'"
        unfolding batch_outcome_def
        by (intro exI [of _ ens] exI [of _ k]) (use d k(5) w3 s w4 in auto)
      with k w3 w4 show ?thesis by simp
    qed
  qed
qed

lemma processBatch_outcome:
  assumes run: "processBatch S P ob ctx w = (r, w')" and ok: "ok ctx" and i: "inv (ow_store w)"
  shows "inv (ow_store w') \<and> ow_clock w' = ow_clock w \<and> ow_ticks w \<le> ow_ticks w'
    \<and> outbox_progress pend w w'
    \<and> (r = Returns (True, None) \<longrightarrow> due (ow_clock w (ow_ticks w)) (pend (ow_store w')) = {})"
proof -
  obtain lr s where l: "so_Lock S ctx [] (ow_store w) = (lr, s)" by force
  have s: "pend s = pend (ow_store w)" "inv s" using lock_keeps [OF l i] by auto
  show ?thesis
  proof (cases lr)
    case (Inl x)
    then have "ow_store w' = s" "ow_sent w' = ow_sent w" "ow_clock w' = ow_clock w"
      "ow_ticks w' = ow_ticks w" "r \<noteq> Returns (True, None)"
      using run l by (auto simp: processBatch_def Let_def split: prod.splits if_splits dest!: call_hooks_eq)
    with s show ?thesis by (auto intro: outbox_progress_refl)
  next
    case (Inr cl)
    obtain c' lk where cl: "cl = (c', lk)" by force
    obtain r1 w1 where b: "batch_body S P ob c' (w\<lparr>ow_store := s\<rparr>) = (r1, w1)" by force
    obtain e s' where rel: "so_release S lk (ow_store w1) = (e, s')" by force
    have "ok c'" using lock_ok l Inr cl ok by blast
    from batch_body_outcome [OF b this] s have b1: "inv (ow_store w1)" "ow_clock w1 = ow_clock w"
      "ow_ticks w1 = Suc (ow_ticks w)"
      "batch_outcome pend (ow_clock w (ow_ticks w)) r1 (w\<lparr>ow_store := s\<rparr>) w1" by auto
    have s': "pend s' = pend (ow_store w1)" "inv s'" using release_keeps [OF rel b1(1)] by auto
    have w': "ow_store w' = s'" "ow_sent w' = ow_sent w1" "ow_clock w' = ow_clock w1"
      "ow_ticks w' = ow_ticks w1" "r = Returns (True, None) \<Longrightarrow> \<exists>e1. r1 = Returns (True, e1)"
      using run l Inr cl b rel
      by (auto simp: processBatch_def Let_def split: prod.splits option.splits outcome.splits if_splits
          dest!: call_hooks_eq)
    have "r1 = Returns (True, e1) \<Longrightarrow> e1 = None" for e1
      using b by (auto simp: batch_body_def Let_def split: prod.splits option.splits outcome.splits if_splits)
    with w'(5) b1(4) s have "r = Returns (True, None) \<Longrightarrow> due (ow_clock w (ow_ticks w)) (pend (ow_store w1)) = {}"
      by (fastforce simp: batch_outcome_def due_def)
    moreover have "outbox_progress pend w w'"
      using batch_outcome_progress [OF b1(4)] w' s s' by (simp add: outbox_progress_def)
    ultimately show ?thesis using w' s' b1 by auto
  qed
qed

end

section \<open>Whole runs\<close>

lemma retry_run_keeps:
  assumes "retry_run operation w r w'" and "I w"
    and "\<And>w r w'. I w \<Longrightarrow> operation w = Some (r, w') \<Longrightarrow> I w' \<and> R w w'"
    and "\<And>u v w. R u v \<Longrightarrow> R v w \<Longrightarrow> R u w"
  shows "I w' \<and> R w w'"
  using assms(1,2) by (induction) (use assms(3,4) in blast)+

context message_storage
begin

lemma process_impl_progress:
  assumes "process_impl n S P ob ctx w = Some (r, w')" and "ok ctx" and "inv (ow_store w)"
  shows "inv (ow_store w') \<and> outbox_progress pend w w'"
  using assms
proof (induction n arbitrary: w)
  case 0
  then show ?case by simp
next
  case (Suc n)
  obtain br w1 where b: "processBatch S P ob ctx w = (br, w1)" by force
  from processBatch_outcome [OF b Suc.prems(2,3)]
  have w1: "inv (ow_store w1)" "outbox_progress pend w w1" by auto
  show ?case
  proof (cases "br = Returns (False, None)")
    case True
    then have "process_impl n S P ob ctx w1 = Some (r, w')" using Suc.prems(1) b by simp
    from Suc.IH [OF this Suc.prems(2) w1(1)] w1(2) show ?thesis by (blast intro: outbox_progress_trans)
  next
    case False
    then have "w' = w1" using Suc.prems(1) b by (auto split: outcome.splits option.splits bool.splits)
    with w1 show ?thesis by simp
  qed
qed

lemma process_progress:
  assumes "outbox_process retry n S P ob ctx w = Some (r, w')" and "retries retry"
    and "ok ctx" and "inv (ow_store w)"
  shows "inv (ow_store w') \<and> outbox_progress pend w w'"
proof -
  obtain r' where "retry (process_impl n S P ob ctx) w = Some (r', w')"
    using assms(1) by (auto simp: outbox_process_def split: option.splits outcome.splits)
  then have "retry_run (process_impl n S P ob ctx) w r' w'" using assms(2) by (simp add: retries_def)
  then show ?thesis
    by (rule retry_run_keeps [where I = "\<lambda>w. inv (ow_store w)" and R = "outbox_progress pend"])
       (use assms process_impl_progress outbox_progress_trans in blast)+
qed

lemma worker_progress:
  assumes "(outbox_step (outbox_process retry n S P ob ctx))\<^sup>*\<^sup>* (outbox_Worker_start w) st"
    and "retries retry" and "ok ctx" and "inv (ow_store w)"
  shows "inv (ow_store (ws_world st)) \<and> outbox_progress pend w (ws_world st)"
  using assms(1)
proof (induction rule: rtranclp_induct)
  case base
  then show ?case
    using assms(4) by (simp add: outbox_Worker_start_def outbox_Process_def outbox_progress_refl)
next
  case (step st st')
  from step(2) show ?case
  proof cases
    case (step_receive w1)
    with process_progress [OF step_receive(4) assms(2,3)] step.IH show ?thesis
      by (auto intro: outbox_progress_trans)
  next
    case (step_crash w1)
    with process_progress [OF step_crash(4) assms(2,3)] step.IH show ?thesis
      by (auto intro: outbox_progress_trans)
  qed (use step.IH in \<open>simp_all add: outbox_Process_def\<close>)
qed

end

section \<open>Draining\<close>

definition hooks_return :: "OutboxImpl \<Rightarrow> bool" where
  "hooks_return ob \<longleftrightarrow>
     (\<forall>fn \<in> set (OnFoundMessages ob). \<forall>c ms e. fn (Some c) ms e \<noteq> Panics)
     \<and> (\<forall>fn \<in> set (OnSentMessage ob). \<forall>c m e. fn (Some c) m e \<noteq> Panics)
     \<and> (\<forall>fn \<in> set (OnDeletedMessage ob). \<forall>c m e. fn (Some c) m e \<noteq> Panics)"

lemma run_hooks_returns: "Panics \<notin> set hs \<Longrightarrow> \<not> snd (run_hooks hs)"
  by (induction hs rule: run_hooks.induct) (auto split: prod.splits)

lemma call_hooks_returns: "Panics \<notin> set hs \<Longrightarrow> \<exists>w'. call_hooks hs w = (False, w')"
  using run_hooks_returns [of hs] by (auto simp: call_hooks_def split: prod.splits)

lemma hooks_return_calls:
  assumes "hooks_return ob"
  shows "\<exists>w'. call_hooks (map (\<lambda>fn. fn (Some c) ms e) (OnFoundMessages ob)) w = (False, w')"
    and "\<exists>w'. call_hooks (map (\<lambda>fn. fn (Some c) m e) (OnSentMessage ob)) w = (False, w')"
    and "\<exists>w'. call_hooks (map (\<lambda>fn. fn (Some c) m e) (OnDeletedMessage ob)) w = (False, w')"
  using assms by (auto simp: hooks_return_def image_iff intro!: call_hooks_returns; metis)+

definition producer_reliable :: "'b producer \<Rightarrow> bool" where
  "producer_reliable P \<longleftrightarrow> (\<forall>m b. fst (P m b) = None)"

lemma outbox_produce_reliable:
  assumes "producer_reliable P"
  shows "\<exists>w'. outbox_produce P m w = (None, w')"
proof -
  have "fst (P m (ow_broker w)) = None" using assms by (simp add: producer_reliable_def)
  then obtain b where "P m (ow_broker w) = (None, b)" by (metis prod.collapse)
  then show ?thesis by (simp add: outbox_produce_def)
qed

lemma log_Log_returns [simp]: "log_Log l (Some ctx) lvl msg \<noteq> Panics"
  using log_Log_ctx [of l ctx lvl msg] by auto

lemma hooks_return_logging: "hooks_return ob \<Longrightarrow> hooks_return (WithOutboxLogging l il el ob)"
  by (auto simp: hooks_return_def WithOutboxLogging_def Let_def split: option.split)

lemma hooks_return_metrics: "hooks_return ob \<Longrightarrow> hooks_return (WithOutboxMetrics m ob)"
  by (auto simp: hooks_return_def WithOutboxMetrics_def)

context reliable_storage
begin

lemma send_messages_reliable:
  assumes "hooks_return ob" and "producer_reliable P" and "ok ctx"
    and "healthy (ow_store w)" "inv (ow_store w)" "holds l (ow_store w)"
  shows "\<exists>w'. send_messages S P ob ctx ms w = (Returns None, w')
    \<and> healthy (ow_store w') \<and> holds l (ow_store w')"
  using assms(4-)
proof (induction ms arbitrary: w)
  case Nil
  then show ?case by simp
next
  case (Cons m ms)
  obtain w1 where p: "outbox_produce P m w = (None, w1)"
    using outbox_produce_reliable [OF assms(2)] by blast
  obtain w2 where h: "call_hooks (map (\<lambda>fn. fn (Some ctx) m None) (OnSentMessage ob)) w1 = (False, w2)"
    using hooks_return_calls [OF assms(1)] by blast
  have st: "ow_store w2 = ow_store w" using outbox_produce_eq [OF p] call_hooks_eq [OF h] by simp
  obtain s where d: "so_Delete S ctx (msg_Topic m) [msg_ID m] (ow_store w2) = (None, s)"
    "healthy s" "holds l s"
    using delete_succeeds [of "ow_store w2" ctx] Cons.prems assms(3) st by metis
  obtain w4 where h': "call_hooks (map (\<lambda>fn. fn (Some ctx) m None) (OnDeletedMessage ob)) (w2\<lparr>ow_store := s\<rparr>)
      = (False, w4)"
    using hooks_return_calls [OF assms(1)] by blast
  have "ow_store w4 = s" using call_hooks_eq [OF h'] by simp
  moreover have "inv s" using delete_removes [OF d(1) assms(3)] Cons.prems st by simp
  ultimately show ?case using Cons.IH [of w4] p h d h' by (simp add: outbox_delete_def)
qed

lemma processBatch_reliable:
  assumes "hooks_return ob" and "producer_reliable P" and ok: "ok ctx"
    and hw: "healthy (ow_store w)" and iw: "inv (ow_store w)"
  shows "\<exists>b w'. processBatch S P ob ctx w = (Returns (b, None), w') \<and> healthy (ow_store w')
    \<and> (\<not> b \<longrightarrow> card (pend (ow_store w')) < card (pend (ow_store w)))"
proof -
  obtain c' l s where l: "so_Lock S ctx [] (ow_store w) = (Inr (c', l), s)" "healthy s" "holds l s"
    using lock_succeeds [OF hw iw ok] by blast
  have s: "pend s = pend (ow_store w)" "inv s" using lock_keeps [OF l(1) iw] by auto
  have c': "ok c'" using lock_ok [OF l(1) ok] .
  let ?w = "w\<lparr>ow_store := s\<rparr>"
  obtain r w1 where b: "batch_body S P ob c' ?w = (r, w1)" by force
  obtain ms s2 where f: "so_Find S c' \<lparr>spec_IDsExcluded = [], spec_Topics = [],
      spec_ScheduledAtBefore = ow_clock w (ow_ticks w), spec_Limit = BatchSize ob\<rparr> s = (Inr ms, s2)"
    "healthy s2" "holds l s2"
    using find_succeeds [OF l(2) s(2) c'] l(3) by metis
  have i2: "inv s2" using find_keeps [OF f(1) s(2)] by simp
  obtain w3 where h: "call_hooks (map (\<lambda>fn. fn (Some c') ms None) (OnFoundMessages ob))
      (?w\<lparr>ow_ticks := Suc (ow_ticks w), ow_store := s2\<rparr>) = (False, w3)"
    using hooks_return_calls [OF assms(1)] by blast
  have w3: "ow_store w3 = s2" using call_hooks_eq [OF h] by simp
  obtain w4 where sm: "send_messages S P ob c' ms w3 = (Returns None, w4)"
    "healthy (ow_store w4)" "holds l (ow_store w4)"
    using send_messages_reliable [OF assms(1,2) c', of w3 l ms] w3 f i2 by auto
  have r: "(\<exists>a. r = Returns (a, None)) \<and> healthy (ow_store w1) \<and> holds l (ow_store w1)"
    using b f h sm w3 by (auto simp: batch_body_def outbox_now_def Let_def split: if_splits)
  then obtain a where a: "r = Returns (a, None)" by blast
  from batch_body_outcome [OF b c'] s have out: "inv (ow_store w1)"
    "batch_outcome pend (ow_clock w (ow_ticks w)) r ?w w1" by auto
  obtain s' where rel: "so_release S l (ow_store w1) = (None, s')" "healthy s'"
    using release_succeeds r out(1) by blast
  have s': "pend s' = pend (ow_store w1)" using release_keeps [OF rel(1) out(1)] by simp
  have less: "card (pend s') < card (pend (ow_store w))" if "\<not> a"
  proof -
    from out(2) a that s obtain ens where "ens \<noteq> []" "set ens \<subseteq> pend (ow_store w)"
      "pend (ow_store w1) = pend (ow_store w) - set ens"
      by (auto simp: batch_outcome_def due_def)
    then have "pend s' \<subset> pend (ow_store w)" using s' by (cases ens) auto
    then show ?thesis using pend_finite psubset_card_mono by blast
  qed
  have "processBatch S P ob ctx w = (Returns (a, None), w1\<lparr>ow_store := s'\<rparr>)"
    using l(1) b rel(1) a by (simp add: processBatch_def)
  with rel(2) less show ?thesis by auto
qed

lemma process_impl_drains:
  assumes "hooks_return ob" and "producer_reliable P" and ok: "ok ctx"
    and "healthy (ow_store w)" "inv (ow_store w)"
    and "card (pend (ow_store w)) < n" and "\<And>i. T \<le> ow_clock w i"
  shows "\<exists>w'. process_impl n S P ob ctx w = Some (Returns None, w')
    \<and> outbox_progress pend w w' \<and> due T (pend (ow_store w')) = {}"
  using assms(4-)
proof (induction n arbitrary: w)
  case 0
  then show ?case by simp
next
  case (Suc n)
  obtain b w1 where b: "processBatch S P ob ctx w = (Returns (b, None), w1)" "healthy (ow_store w1)"
    "\<not> b \<longrightarrow> card (pend (ow_store w1)) < card (pend (ow_store w))"
    using processBatch_reliable [OF assms(1,2) ok Suc.prems(1,2)] by blast
  note out = processBatch_outcome [OF b(1) ok Suc.prems(2)]
  show ?case
  proof (cases b)
    case True
    then have "due (ow_clock w (ow_ticks w)) (pend (ow_store w1)) = {}" using out by simp
    then have "due T (pend (ow_store w1)) = {}"
      using Suc.prems(4) [of "ow_ticks w"] by (force simp: due_def)
    with b out True show ?thesis by simp
  next
    case False
    with b out Suc.prems obtain w' where "process_impl n S P ob ctx w1 = Some (Returns None, w')"
      "outbox_progress pend w1 w'" "due T (pend (ow_store w')) = {}"
      using Suc.IH [of w1] by auto
    with b out False show ?thesis by (auto intro: outbox_progress_trans)
  qed
qed

end

section \<open>A producer that is down\<close>

definition producer_down :: "'b producer \<Rightarrow> bool" where
  "producer_down P \<longleftrightarrow> (\<forall>m b. fst (P m b) \<noteq> None)"

lemma send_messages_down:
  assumes "producer_down P" and "hooks_return ob"
  shows "\<exists>e w'. send_messages S P ob ctx (m # ms) w = (Returns (Some e), w')
    \<and> ow_store w' = ow_store w \<and> ow_sent w' = ow_sent w"
proof -
  have "fst (P m (ow_broker w)) \<noteq> None" using assms(1) by (simp add: producer_down_def)
  then obtain x b where "P m (ow_broker w) = (Some x, b)" by (metis not_Some_eq prod.collapse)
  then have p: "outbox_produce P m w = (Some x, w\<lparr>ow_broker := b\<rparr>)" by (simp add: outbox_produce_def)
  obtain w2 where h: "call_hooks (map (\<lambda>fn. fn (Some ctx) m (Some x)) (OnSentMessage ob)) (w\<lparr>ow_broker := b\<rparr>)
      = (False, w2)"
    using hooks_return_calls [OF assms(2)] by blast
  from p h call_hooks_eq [OF h] show ?thesis by simp
qed

context reliable_storage
begin

lemma processBatch_down:
  assumes "hooks_return ob" and "producer_down P" and ok: "ok ctx"
    and hw: "healthy (ow_store w)" and iw: "inv (ow_store w)"
    and T: "\<And>i. T \<le> ow_clock w i" and d: "due T (pend (ow_store w)) \<noteq> {}"
  shows "\<exists>w'. processBatch S P ob ctx w = (Returns (False, None), w') \<and> healthy (ow_store w')
    \<and> pend (ow_store w') = pend (ow_store w) \<and> ow_sent w' = ow_sent w"
proof -
  obtain c' l s where l: "so_Lock S ctx [] (ow_store w) = (Inr (c', l), s)" "healthy s" "holds l s"
    using lock_succeeds [OF hw iw ok] by blast
  have s: "pend s = pend (ow_store w)" "inv s" using lock_keeps [OF l(1) iw] by auto
  have c': "ok c'" using lock_ok [OF l(1) ok] .
  let ?t = "ow_clock w (ow_ticks w)"
  obtain ms s2 where f: "so_Find S c' \<lparr>spec_IDsExcluded = [], spec_Topics = [],
      spec_ScheduledAtBefore = ?t, spec_Limit = BatchSize ob\<rparr> s = (Inr ms, s2)"
    "healthy s2" "holds l s2"
    using find_succeeds [OF l(2) s(2) c'] l(3) by metis
  have s2: "inv s2" "pend s2 = pend s" using find_keeps [OF f(1) s(2)] by simp_all
  obtain ens where ens: "ms = map fst ens" "found_ok \<lparr>spec_IDsExcluded = [], spec_Topics = [],
      spec_ScheduledAtBefore = ?t, spec_Limit = BatchSize ob\<rparr> (pend s) ens"
    using find_found [OF f(1) c' s(2)] by blast
  have "due ?t (pend s) \<noteq> {}" using d s T [of "ow_ticks w"] by (force simp: due_def)
  then have "ms \<noteq> []" using found_due [OF ens(2)] ens(1) by auto
  then obtain m ms' where ms: "ms = m # ms'" by (cases ms) auto
  obtain w3 where h: "call_hooks (map (\<lambda>fn. fn (Some c') ms None) (OnFoundMessages ob))
      (w\<lparr>ow_store := s\<rparr>\<lparr>ow_ticks := Suc (ow_ticks w), ow_store := s2\<rparr>) = (False, w3)"
    using hooks_return_calls [OF assms(1)] by blast
  have w3: "ow_store w3 = s2" "ow_sent w3 = ow_sent w" using call_hooks_eq [OF h] by simp_all
  obtain e w4 where sm: "send_messages S P ob c' ms w3 = (Returns (Some e), w4)"
    "ow_store w4 = s2" "ow_sent w4 = ow_sent w"
    using send_messages_down [OF assms(2,1)] ms w3 by metis
  have b: "batch_body S P ob c' (w\<lparr>ow_store := s\<rparr>) = (Returns (False, Some e), w4)"
    using f(1) h sm(1) ms by (simp add: batch_body_def outbox_now_def)
  obtain s' where rel: "so_release S l s2 = (None, s')" "healthy s'"
    using release_succeeds f s2 by blast
  have "processBatch S P ob ctx w = (Returns (False, None), w4\<lparr>ow_store := s'\<rparr>)"
    using l(1) b rel(1) sm(2) by (simp add: processBatch_def)
  moreover have "pend s' = pend (ow_store w)" using release_keeps [OF rel(1) s2(1)] s s2 by simp
  ultimately show ?thesis using rel(2) sm(3) by simp
qed

lemma process_impl_spins:
  assumes "hooks_return ob" and "producer_down P" and ok: "ok ctx"
    and "healthy (ow_store w)" "inv (ow_store w)"
    and "\<And>i. T \<le> ow_clock w i" and "due T (pend (ow_store w)) \<noteq> {}"
  shows "process_impl n S P ob ctx w = None"
  using assms(4-)
proof (induction n arbitrary: w)
  case 0
  then show ?case by simp
next
  case (Suc n)
  obtain w1 where b: "processBatch S P ob ctx w = (Returns (False, None), w1)" "healthy (ow_store w1)"
    "pend (ow_store w1) = pend (ow_store w)"
    using processBatch_down [OF assms(1,2) ok Suc.prems] by blast
  with processBatch_outcome [OF b(1) ok Suc.prems(2)] Suc show ?case by simp
qed

end

section \<open>The outbox over the SQL storage\<close>

definition example_row :: msg_row where
  "example_row = \<lparr>mr_id = 1, mr_topic = ''t'', mr_key = [], mr_payload = ''p'', mr_scheduled_at = 5\<rparr>"

definition example_db :: "msg_row list \<Rightarrow> dbms" where
  "example_db rows = calm_db (empty_tables\<lparr>t_message_storage := rows\<rparr>)"

definition example_world :: "(dbms, unit) outbox_world" where
  "example_world = \<lparr>ow_store = example_db [example_row], ow_broker = (), ow_sent = [], ow_obs = [],
     ow_clock = (\<lambda>_. 7), ow_ticks = 0\<rparr>"

lemma retries_once: "retries (\<lambda>operation. operation)"
  unfolding retries_def
proof (intro conjI allI impI)
  fix operation :: "'a operation" and w r w'
  assume "operation w = Some (r, w')"
  then show "retry_run operation w r w'"
    by (cases r; cases "\<exists>e. r = Returns (Some e)")
       (auto intro: retry_run.intros simp: not_Some_eq)
qed

text \<open>
  C1. The outbox never loses a message: whatever the database and the broker do, in every state the
  worker reaches from its start, each message stored at the start is still stored or has been
  accepted by the producer, what was sent had been stored, and the storage stays well formed.
\<close>

theorem outbox_never_loses_messages:
  assumes "orders_by_scheduled_at order" and "retries retry" and "cx_tx ctx = None"
    and "storage_inv (ow_store w)"
    and "(outbox_step (outbox_process retry n (NewMessageStorage order) P ob ctx))\<^sup>*\<^sup>*
      (outbox_Worker_start w) st"
  shows "storage_inv (ow_store (ws_world st))
    \<and> (\<exists>new. ow_sent (ws_world st) = ow_sent w @ new
        \<and> set new \<subseteq> fst ` pending (ow_store w)
        \<and> pending (ow_store (ws_world st)) \<subseteq> pending (ow_store w)
        \<and> (\<forall>en \<in> pending (ow_store w). en \<in> pending (ow_store (ws_world st)) \<or> fst en \<in> set new))"
  using message_storage.worker_progress [OF sql_message_storage [OF assms(1)] assms(5,2) _ assms(4)] assms(3)
  by (simp add: no_tx_def outbox_progress_def)

definition example_producer :: "unit producer" where
  "example_producer m b = (None, b)"

lemma example_world_ok:
  "storage_inv (ow_store example_world)" "db_healthy (ow_store example_world)" "cx_tx background = None"
  "orders_by_scheduled_at (sort_key mr_scheduled_at)" "hooks_return (NewOutbox [])"
  by (simp_all add: storage_inv_def table_ok_def example_world_def example_db_def calm_db_def empty_tables_def db_healthy_def
      background_def orders_by_scheduled_at_def hooks_return_def NewOutbox_def)

lemma example_pending: "pending (ow_store example_world) = {(message_of example_row, 5)}"
  by (simp add: pending_def example_world_def example_db_def calm_db_def example_row_def)

lemma example_run: "\<forall>i. 7 \<le> ow_clock example_world i" "producer_reliable example_producer"
  by (simp_all add: example_world_def producer_reliable_def example_producer_def)

theorem outbox_never_loses_messages_witness:
  "\<exists>w. (outbox_step (outbox_process (\<lambda>operation. operation) 3
        (NewMessageStorage (sort_key mr_scheduled_at)) example_producer (NewOutbox []) background))\<^sup>*\<^sup>*
      (outbox_Worker_start example_world)
      \<lparr>ws_chan = False, ws_phase = Waiting, ws_done = False, ws_world = w\<rparr>
    \<and> (message_of example_row, 5) \<notin> pending (ow_store w) \<and> message_of example_row \<in> set (ow_sent w)"
proof -
  let ?S = "NewMessageStorage (sort_key mr_scheduled_at)"
  have rel: "reliable_storage ?S pending storage_inv no_tx db_healthy lock_held"
    using sql_reliable_storage example_world_ok(4) .
  obtain w where w: "process_impl 3 ?S example_producer (NewOutbox []) background example_world
      = Some (Returns None, w)" and d: "due 7 (pending (ow_store w)) = {}"
    using reliable_storage.process_impl_drains [OF rel example_world_ok(5) example_run(2) _ example_world_ok(2,1),
        of background 3 7] example_world_ok(3) example_run(1)
    by (auto simp: example_pending no_tx_def)
  let ?st = "\<lparr>ws_chan = False, ws_phase = Waiting, ws_done = False, ws_world = w\<rparr>"
  let ?step = "outbox_step (outbox_process (\<lambda>operation. operation) 3 ?S example_producer (NewOutbox []) background)"
  have "?step (outbox_Worker_start example_world) ?st"
    using step_receive [of "outbox_Worker_start example_world" _ w] w
    by (simp add: outbox_Worker_start_def outbox_Process_def outbox_process_def)
  then have reach: "?step\<^sup>*\<^sup>* (outbox_Worker_start example_world) ?st" by (rule r_into_rtranclp)
  obtain new where "ow_sent w = ow_sent example_world @ new"
    "\<forall>en \<in> pending (ow_store example_world). en \<in> pending (ow_store w) \<or> fst en \<in> set new"
    using outbox_never_loses_messages [OF example_world_ok(4) retries_once example_world_ok(3,1) reach] by auto
  moreover have "(message_of example_row, 5) \<notin> pending (ow_store w)" using d by (force simp: due_def)
  ultimately show ?thesis using reach by (intro exI [of _ w] conjI) (auto simp: example_pending)
qed

text \<open>
  C14. Without faults and with a producer that accepts everything, \<^verbatim>\<open>process\<close> returns, and afterwards
  no message that was due is left in the storage; fuel above the number of stored messages is
  enough, whatever the batch size.
\<close>

theorem outbox_drains:
  assumes "orders_by_scheduled_at order" and "retries retry" and "cx_tx ctx = None"
    and "storage_inv (ow_store w)" and "db_healthy (ow_store w)"
    and "hooks_return ob" and "producer_reliable P"
    and "card (pending (ow_store w)) < n" and "\<forall>i. T \<le> ow_clock w i"
  shows "\<exists>w'. outbox_process retry n (NewMessageStorage order) P ob ctx w = Some (Returns (), w')
    \<and> due T (pending (ow_store w')) = {}
    \<and> (\<forall>en \<in> due T (pending (ow_store w)). fst en \<in> set (ow_sent w'))"
proof -
  from reliable_storage.process_impl_drains [OF sql_reliable_storage [OF assms(1)] assms(6,7) _ assms(5,4,8), of ctx T]
  obtain w' where w': "process_impl n (NewMessageStorage order) P ob ctx w = Some (Returns None, w')"
    "outbox_progress pending w w'" "due T (pending (ow_store w')) = {}"
    using assms(3,9) by (auto simp: no_tx_def)
  have "retry (process_impl n (NewMessageStorage order) P ob ctx) w = Some (Returns None, w')"
    using assms(2) w'(1) by (simp add: retries_def)
  moreover have "\<forall>en \<in> due T (pending (ow_store w)). fst en \<in> set (ow_sent w')"
    using w'(2,3) by (auto simp: outbox_progress_def due_def)
  ultimately show ?thesis using w'(3) by (simp add: outbox_process_def)
qed

theorem outbox_drains_witness:
  "\<exists>w'. outbox_process (\<lambda>operation. operation) 2 (NewMessageStorage (sort_key mr_scheduled_at))
      example_producer (NewOutbox []) background example_world = Some (Returns (), w')
    \<and> message_of example_row \<in> set (ow_sent w')"
proof -
  have "card (pending (ow_store example_world)) < 2" by (simp add: example_pending)
  from outbox_drains [OF example_world_ok(4) retries_once example_world_ok(3,1,2,5) example_run(2) this example_run(1)]
  show ?thesis by (auto simp: example_pending due_def)
qed

text \<open>
  C31. An error of the producer is lost: the deferred release overwrites it, so against a broker that
  is down the loop of \<^verbatim>\<open>process\<close> repeats batches for ever and never hands an error to
  \<^verbatim>\<open>backoff.Retry\<close> - with any amount of fuel the operation does not return.
\<close>

theorem outbox_spins_without_backoff:
  assumes "orders_by_scheduled_at order" and "cx_tx ctx = None"
    and "storage_inv (ow_store w)" and "db_healthy (ow_store w)"
    and "hooks_return ob" and "producer_down P"
    and "\<forall>i. T \<le> ow_clock w i" and "due T (pending (ow_store w)) \<noteq> {}"
  shows "\<forall>n. process_impl n (NewMessageStorage order) P ob ctx w = None"
  using reliable_storage.process_impl_spins
    [OF sql_reliable_storage [OF assms(1)] assms(5,6) _ assms(4,3), of ctx T] assms(2,7,8)
  by (simp add: no_tx_def)

theorem outbox_spins_without_backoff_witness:
  "process_impl 1000 (NewMessageStorage (sort_key mr_scheduled_at))
     (\<lambda>m b. (Some (Sentinel (Opaque 0)), b)) (NewOutbox []) background example_world = None"
proof -
  have "producer_down (\<lambda>m b. (Some (Sentinel (Opaque 0)), b))" by (simp add: producer_down_def)
  moreover have "due 7 (pending (ow_store example_world)) \<noteq> {}" by (simp add: example_pending due_def)
  ultimately show ?thesis
    using outbox_spins_without_backoff [OF example_world_ok(4,3,1,2,5) _ example_run(1)] by blast
qed

text \<open>
  When the storage lock cannot be taken, an outbox with logging panics instead of returning the
  error: \<^verbatim>\<open>Lock\<close> has replaced the context by nil and the logging hook reads its fields.
\<close>

theorem outbox_lock_failure_panics:
  assumes "lvl \<noteq> LevelDisabled" and "errorLevel \<noteq> LevelDisabled"
    and "so_Lock S ctx [] (ow_store w) = (Inl x, s)"
  shows "processBatch S P (NewOutbox [WithOutboxLogging (log_New lvl) infoLevel errorLevel]) ctx w
    = (Panics, w\<lparr>ow_store := s\<rparr>)"
  using assms
  by (simp add: processBatch_def NewOutbox_def WithOutboxLogging_def log_New_def log_Log_def call_hooks_def)

theorem outbox_lock_failure_panics_witness:
  "fst (processBatch (NewMessageStorage (sort_key mr_scheduled_at)) example_producer
     (NewOutbox [WithOutboxLogging (log_New LevelInfo) LevelInfo LevelError]) background
     (example_world\<lparr>ow_store := (ow_store example_world)\<lparr>db_fault := (\<lambda>_. LostRequest (Sentinel (Opaque 1)))\<rparr>\<rparr>))
   = Panics"
proof -
  let ?w = "example_world\<lparr>ow_store := (ow_store example_world)\<lparr>db_fault := (\<lambda>_. LostRequest (Sentinel (Opaque 1)))\<rparr>\<rparr>"
  obtain x s where "so_Lock (NewMessageStorage (sort_key mr_scheduled_at)) background [] (ow_store ?w) = (Inl x, s)"
    by (simp add: NewMessageStorage_def storage_Lock_def withSessionLevelLock_def WithinSingleConnection_def
        background_def HasTransaction_def open_conn_def next_fault_def Let_def)
  from outbox_lock_failure_panics [OF _ _ this, of LevelInfo LevelError example_producer LevelInfo]
  show ?thesis by (simp only: level.distinct not_False_eq_True simp_thms fst_conv)
qed

end
