(* ===== verification/Listener_Queue.thy ===== *)
theory Listener_Queue
  imports Message_Model
begin

text \<open>
  \<^verbatim>\<open>pkg/message/listenerqueue.go\<close>: the three implementations of \<^verbatim>\<open>ListenerProcessingQueue\<close>
  and the protocol in which \<^verbatim>\<open>ListenerImpl.consumerWorker\<close> uses them.

  The token channel is the number of tokens in its buffer; a send on a full channel blocks for
  ever while the queue's mutex is held, which is the result \<^const>\<open>None\<close> of an
  acknowledgement.  The acknowledge strategy belongs to a broker outside the repository: it is
  an arbitrary function on an arbitrary broker state.  Every operation runs under the queue's
  mutex and is one step of the protocol, with one exception the model does not cut: the queue with
  individual acknowledgements calls the broker before it takes the mutex, so that other operations of the queue
  may run in between.  They find the message still in the queue and its token still out, as they do before the
  whole step, and the two halves touch different state, the broker's and the queue's.
\<close>

section \<open>The commit-offset queue\<close>

record listener_message =
  lm_Message :: consumer_message
  lm_Processed :: bool

record commit_offset_queue =
  coq_cap :: nat
  coq_tokens :: nat
  coq_queue :: "listener_message list"

type_synonym 'b commit_strategy = "consumer_message \<Rightarrow> 'b \<Rightarrow> err \<times> 'b"

definition NewCommitOffsetQueue :: "int \<Rightarrow> commit_offset_queue" where
  "NewCommitOffsetQueue maxSize =
     (let n = (if maxSize < 1 then 1 else nat maxSize)
      in \<lparr>coq_cap = n, coq_tokens = n, coq_queue = []\<rparr>)"

definition coq_take_token :: "commit_offset_queue \<Rightarrow> commit_offset_queue option" where
  "coq_take_token q =
     (if coq_tokens q = 0 then None else Some (q\<lparr>coq_tokens := coq_tokens q - 1\<rparr>))"

definition coq_AddProcessing ::
    "consumer_message \<Rightarrow> commit_offset_queue \<Rightarrow> err \<times> commit_offset_queue" where
  "coq_AddProcessing msg q =
     (if length (coq_queue q) = coq_cap q
      then (Some (errors_new ''processing queue is full''), q)
      else (None, q\<lparr>coq_queue := coq_queue q @ [\<lparr>lm_Message = msg, lm_Processed = False\<rparr>]\<rparr>))"

definition mark_processed :: "consumer_message \<Rightarrow> listener_message list \<Rightarrow> listener_message list" where
  "mark_processed msg ms =
     map (\<lambda>lm. if cm_ptr (lm_Message lm) = cm_ptr msg then lm\<lparr>lm_Processed := True\<rparr> else lm) ms"

text \<open>The scan for the last processed entry, stopping at the first one that is not.\<close>

fun scan_processed ::
    "nat \<Rightarrow> int \<times> consumer_message option \<Rightarrow> listener_message list \<Rightarrow> int \<times> consumer_message option" where
  "scan_processed i acc [] = acc"
| "scan_processed i acc (lm # lms) =
     (if lm_Processed lm then scan_processed (Suc i) (int i, Some (lm_Message lm)) lms else acc)"

text \<open>Moving the unprocessed tail to the front of the slice, entry by entry.\<close>

definition shift_queue :: "nat \<Rightarrow> 'a list \<Rightarrow> 'a list" where
  "shift_queue n xs = fold (\<lambda>i ys. ys[i := ys ! (i + n)]) [0..<length xs - n] xs"

definition coq_AcknowledgeResult ::
    "'b commit_strategy \<Rightarrow> consumer_message \<Rightarrow> err \<Rightarrow> 'b \<Rightarrow> commit_offset_queue
      \<Rightarrow> (err \<times> 'b \<times> commit_offset_queue) option" where
  "coq_AcknowledgeResult commitOffset msg result b q =
     (case result of
        Some e \<Rightarrow>
          Some (Some (Errorf ''commit offset'' [Sentinel ErrNegativeAckNotSupported, e]), b, q)
      | None \<Rightarrow>
          (let ms = mark_processed msg (coq_queue q);
               q1 = q\<lparr>coq_queue := ms\<rparr>
           in case scan_processed 0 (-1, None) ms of
                (_, None) \<Rightarrow> Some (None, b, q1)
              | (lastProcessedIndex, Some lastProcessed) \<Rightarrow>
                  (case commitOffset lastProcessed b of
                     (Some e, b') \<Rightarrow> Some (Some (errorf ''commit offset'' e), b', q1)
                   | (None, b') \<Rightarrow>
                       (let n = nat (lastProcessedIndex + 1);
                            rest = take (length ms - n) (shift_queue n ms)
                        in if coq_tokens q + n \<le> coq_cap q
                           then Some (None, b', q\<lparr>coq_queue := rest, coq_tokens := coq_tokens q + n\<rparr>)
                           else None))))"

section \<open>The ack/nack queue and the ack queue\<close>

record ack_nack_queue =
  anq_maxSize :: nat
  anq_tokens :: nat
  anq_queue :: "nat set"

record 'b ack_nack_strategy =
  str_Ack :: "consumer_message \<Rightarrow> 'b \<Rightarrow> err \<times> 'b"
  str_Nack :: "consumer_message \<Rightarrow> 'b \<Rightarrow> err \<times> 'b"

definition NewAckNackQueue :: "int \<Rightarrow> ack_nack_queue" where
  "NewAckNackQueue maxSize =
     (let n = (if maxSize < 1 then 1 else nat maxSize)
      in \<lparr>anq_maxSize = n, anq_tokens = n, anq_queue = {}\<rparr>)"

definition anq_take_token :: "ack_nack_queue \<Rightarrow> ack_nack_queue option" where
  "anq_take_token q =
     (if anq_tokens q = 0 then None else Some (q\<lparr>anq_tokens := anq_tokens q - 1\<rparr>))"

definition anq_AddProcessing :: "consumer_message \<Rightarrow> ack_nack_queue \<Rightarrow> err \<times> ack_nack_queue" where
  "anq_AddProcessing msg q =
     (if card (anq_queue q) = anq_maxSize q
      then (Some (errors_new ''processing queue is full''), q)
      else if cm_ptr msg \<in> anq_queue q
      then (Some (errors_new ''message already in queue''), q)
      else (None, q\<lparr>anq_queue := insert (cm_ptr msg) (anq_queue q)\<rparr>))"

definition anq_AcknowledgeResult ::
    "'b ack_nack_strategy \<Rightarrow> consumer_message \<Rightarrow> err \<Rightarrow> 'b \<Rightarrow> ack_nack_queue
      \<Rightarrow> (err \<times> 'b \<times> ack_nack_queue) option" where
  "anq_AcknowledgeResult acknowledge msg result b q =
     (case (if result = None then str_Ack acknowledge msg b else str_Nack acknowledge msg b) of
        (Some e, b') \<Rightarrow>
          Some (Some (errorf (if result = None then ''ack'' else ''nack'') e), b', q)
      | (None, b') \<Rightarrow>
          (if anq_tokens q < anq_maxSize q
           then Some (None, b', q\<lparr>anq_queue := anq_queue q - {cm_ptr msg},
                                  anq_tokens := anq_tokens q + 1\<rparr>)
           else None))"

definition nackNotSupportedAdapter ::
    "(consumer_message \<Rightarrow> 'b \<Rightarrow> err \<times> 'b) \<Rightarrow> 'b ack_nack_strategy" where
  "nackNotSupportedAdapter ack =
     \<lparr>str_Ack = ack, str_Nack = (\<lambda>_ b. (Some (Sentinel ErrNegativeAckNotSupported), b))\<rparr>"

definition ackq_AcknowledgeResult ::
    "(consumer_message \<Rightarrow> 'b \<Rightarrow> err \<times> 'b) \<Rightarrow> consumer_message \<Rightarrow> err \<Rightarrow> 'b \<Rightarrow> ack_nack_queue
      \<Rightarrow> (err \<times> 'b \<times> ack_nack_queue) option" where
  "ackq_AcknowledgeResult ack msg result b q =
     (case result of
        Some e \<Rightarrow> Some (Some (Errorf ''ack'' [Sentinel ErrNegativeAckNotSupported, e]), b, q)
      | None \<Rightarrow> anq_AcknowledgeResult (nackNotSupportedAdapter ack) msg None b q)"

section \<open>How the listener uses a queue\<close>

text \<open>
  The state of one listener: its queue and broker, whether its worker loop holds a token, and
  the messages whose processing goroutine still has to acknowledge them.
\<close>

record ('q, 'b) worker_state =
  ws_queue :: 'q
  ws_broker :: 'b
  ws_token :: bool
  ws_active :: "consumer_message list"

text \<open>
  \<^verbatim>\<open>consumerWorker\<close> takes a token, receives a message from the consumer and adds it to the
  queue; the goroutine it starts acknowledges the message, with any result, until an
  acknowledgement succeeds.  A received message is a new object: its pointer is none of those
  still referenced.  The parameters are the queue's operations and the pointers it references.
\<close>

inductive worker_step ::
    "('q \<Rightarrow> 'q option) \<Rightarrow> (consumer_message \<Rightarrow> 'q \<Rightarrow> err \<times> 'q)
      \<Rightarrow> (consumer_message \<Rightarrow> err \<Rightarrow> 'b \<Rightarrow> 'q \<Rightarrow> (err \<times> 'b \<times> 'q) option) \<Rightarrow> ('q \<Rightarrow> nat set)
      \<Rightarrow> ('q, 'b) worker_state \<Rightarrow> ('q, 'b) worker_state \<Rightarrow> bool"
  for take_token add_processing ack refs where
  take_token: "\<not> ws_token s \<Longrightarrow> take_token (ws_queue s) = Some q' \<Longrightarrow>
     worker_step take_token add_processing ack refs s (s\<lparr>ws_queue := q', ws_token := True\<rparr>)"
| receive: "ws_token s \<Longrightarrow> cm_ptr m \<notin> cm_ptr ` set (ws_active s) \<union> refs (ws_queue s) \<Longrightarrow>
     add_processing m (ws_queue s) = (None, q') \<Longrightarrow>
     worker_step take_token add_processing ack refs s
       (s\<lparr>ws_queue := q', ws_token := False, ws_active := ws_active s @ [m]\<rparr>)"
| acknowledged: "m \<in> set (ws_active s) \<Longrightarrow>
     ack m r (ws_broker s) (ws_queue s) = Some (None, b', q') \<Longrightarrow>
     worker_step take_token add_processing ack refs s
       (s\<lparr>ws_queue := q', ws_broker := b',
          ws_active := filter (\<lambda>x. cm_ptr x \<noteq> cm_ptr m) (ws_active s)\<rparr>)"
| ack_failed: "m \<in> set (ws_active s) \<Longrightarrow>
     ack m r (ws_broker s) (ws_queue s) = Some (Some e, b', q') \<Longrightarrow>
     worker_step take_token add_processing ack refs s (s\<lparr>ws_queue := q', ws_broker := b'\<rparr>)"

inductive worker_reachable ::
    "('q \<Rightarrow> 'q option) \<Rightarrow> (consumer_message \<Rightarrow> 'q \<Rightarrow> err \<times> 'q)
      \<Rightarrow> (consumer_message \<Rightarrow> err \<Rightarrow> 'b \<Rightarrow> 'q \<Rightarrow> (err \<times> 'b \<times> 'q) option) \<Rightarrow> ('q \<Rightarrow> nat set)
      \<Rightarrow> 'q \<Rightarrow> 'b \<Rightarrow> ('q, 'b) worker_state \<Rightarrow> bool"
  for take_token add_processing ack refs q0 b0 where
  init: "worker_reachable take_token add_processing ack refs q0 b0
     \<lparr>ws_queue = q0, ws_broker = b0, ws_token = False, ws_active = []\<rparr>"
| step: "worker_reachable take_token add_processing ack refs q0 b0 s \<Longrightarrow>
     worker_step take_token add_processing ack refs s t \<Longrightarrow>
     worker_reachable take_token add_processing ack refs q0 b0 t"

text \<open>The pointers a queue references.\<close>

definition coq_refs :: "commit_offset_queue \<Rightarrow> nat set" where
  "coq_refs q = (\<lambda>lm. cm_ptr (lm_Message lm)) ` set (coq_queue q)"

declare coq_take_token_def [queue_simps] coq_AddProcessing_def [queue_simps]
  anq_take_token_def [queue_simps] anq_AddProcessing_def [queue_simps]
  anq_AcknowledgeResult_def [queue_simps] ackq_AcknowledgeResult_def [queue_simps]
  nackNotSupportedAdapter_def [queue_simps] coq_refs_def [queue_simps]

section \<open>The contract of a processing queue\<close>

text \<open>
  What the listener relies on: tokens and queue entries together never exceed the capacity, and
  an operation moves units between the two without creating or losing any.  \<open>ackable q p\<close> says
  that the object at \<open>p\<close> may be acknowledged.
\<close>

locale processing_queue =
  fixes take_token :: "'q \<Rightarrow> 'q option"
    and add_processing :: "consumer_message \<Rightarrow> 'q \<Rightarrow> err \<times> 'q"
    and ack :: "consumer_message \<Rightarrow> err \<Rightarrow> 'b \<Rightarrow> 'q \<Rightarrow> (err \<times> 'b \<times> 'q) option"
    and refs :: "'q \<Rightarrow> nat set"
    and tokens :: "'q \<Rightarrow> nat"
    and used :: "'q \<Rightarrow> nat"
    and capacity :: "'q \<Rightarrow> nat"
    and wf :: "'q \<Rightarrow> bool"
    and ackable :: "'q \<Rightarrow> nat \<Rightarrow> bool"
  assumes take_spec: "take_token q = Some q' \<Longrightarrow>
      tokens q = Suc (tokens q') \<and> used q' = used q \<and> capacity q' = capacity q \<and> wf q' = wf q
      \<and> ackable q' = ackable q"
    and add_spec: "wf q \<Longrightarrow> used q < capacity q \<Longrightarrow> cm_ptr m \<notin> refs q \<Longrightarrow>
      \<exists>q'. add_processing m q = (None, q') \<and> wf q' \<and> used q' = Suc (used q)
        \<and> tokens q' = tokens q \<and> capacity q' = capacity q \<and> ackable q' (cm_ptr m)
        \<and> (\<forall>p. ackable q p \<longrightarrow> ackable q' p)"
    and ack_spec: "wf q \<Longrightarrow> ackable q (cm_ptr m) \<Longrightarrow> used q + tokens q \<le> capacity q \<Longrightarrow>
      \<exists>e b' q'. ack m r b q = Some (e, b', q') \<and> wf q' \<and> capacity q' = capacity q
        \<and> used q' + tokens q' = used q + tokens q
        \<and> (\<forall>p. p \<noteq> cm_ptr m \<or> e \<noteq> None \<longrightarrow> ackable q p \<longrightarrow> ackable q' p)"
begin

definition units :: "('q, 'b) worker_state \<Rightarrow> nat" where
  "units s = used (ws_queue s) + tokens (ws_queue s) + (if ws_token s then 1 else 0)"

definition worker_inv :: "nat \<Rightarrow> ('q, 'b) worker_state \<Rightarrow> bool" where
  "worker_inv n s \<longleftrightarrow> wf (ws_queue s) \<and> capacity (ws_queue s) = n \<and> units s = n
     \<and> (\<forall>m \<in> set (ws_active s). ackable (ws_queue s) (cm_ptr m))"

lemma step_inv:
  assumes "worker_step take_token add_processing ack refs s t" and inv: "worker_inv n s"
  shows "worker_inv n t"
  using assms(1)
proof cases
  case (take_token q')
  with take_spec [OF take_token(3)] inv show ?thesis
    by (auto simp: worker_inv_def units_def)
next
  case (receive m q')
  from inv receive have *: "wf (ws_queue s)" "used (ws_queue s) < capacity (ws_queue s)"
    "cm_ptr m \<notin> refs (ws_queue s)" by (auto simp: worker_inv_def units_def)
  from add_spec [OF this] receive inv show ?thesis
    by (auto simp: worker_inv_def units_def)
next
  case (acknowledged m r b' q')
  from inv acknowledged have "wf (ws_queue s)" "ackable (ws_queue s) (cm_ptr m)"
    "used (ws_queue s) + tokens (ws_queue s) \<le> capacity (ws_queue s)"
    by (auto simp: worker_inv_def units_def)
  from ack_spec [OF this, of r "ws_broker s"] acknowledged inv show ?thesis
    by (auto simp: worker_inv_def units_def)
next
  case (ack_failed m r e b' q')
  from inv ack_failed have "wf (ws_queue s)" "ackable (ws_queue s) (cm_ptr m)"
    "used (ws_queue s) + tokens (ws_queue s) \<le> capacity (ws_queue s)"
    by (auto simp: worker_inv_def units_def)
  from ack_spec [OF this, of r "ws_broker s"] ack_failed inv show ?thesis
    by (auto simp: worker_inv_def units_def)
qed

lemma reachable_inv:
  assumes "worker_reachable take_token add_processing ack refs q0 b0 s"
    and "wf q0" and "capacity q0 = n" and "used q0 + tokens q0 = n"
  shows "worker_inv n s"
  using assms(1)
proof induction
  case init
  with assms(2-4) show ?case by (simp add: worker_inv_def units_def)
next
  case (step s t)
  then show ?case by (blast intro: step_inv)
qed

lemma inv_bounded: "worker_inv n s \<Longrightarrow> used (ws_queue s) + tokens (ws_queue s) \<le> n"
  by (auto simp: worker_inv_def units_def)

lemma inv_add_succeeds:
  assumes "worker_inv n s" and "ws_token s" and "cm_ptr m \<notin> refs (ws_queue s)"
  shows "fst (add_processing m (ws_queue s)) = None"
proof -
  from assms have "used (ws_queue s) < capacity (ws_queue s)"
    by (auto simp: worker_inv_def units_def)
  with add_spec [of "ws_queue s" m] assms show ?thesis
    by (auto simp: worker_inv_def)
qed

lemma inv_ack_returns:
  assumes "worker_inv n s" and "m \<in> set (ws_active s)"
  shows "ack m r b (ws_queue s) \<noteq> None"
proof -
  from assms have "wf (ws_queue s)" "ackable (ws_queue s) (cm_ptr m)"
    "used (ws_queue s) + tokens (ws_queue s) \<le> capacity (ws_queue s)"
    by (auto simp: worker_inv_def units_def)
  from ack_spec [OF this, of r b] show ?thesis by auto
qed

end

section \<open>The commit-offset queue keeps the contract\<close>

lemma scan_processed_takeWhile:
  "scan_processed i acc ms =
     (let k = length (takeWhile lm_Processed ms)
      in if k = 0 then acc else (int (i + k - 1), Some (lm_Message (ms ! (k - 1)))))"
proof (induction ms arbitrary: i acc)
  case Nil
  show ?case by simp
next
  case (Cons lm ms)
  show ?case
  proof (cases "takeWhile lm_Processed ms = []")
    case True
    with Cons show ?thesis by (simp add: Let_def)
  next
    case False
    then have "0 < length (takeWhile lm_Processed ms)" by simp
    with Cons show ?thesis by (auto simp: Let_def nth_Cons')
  qed
qed

lemma shift_queue_step:
  "k \<le> length xs - n \<Longrightarrow>
   fold (\<lambda>i ys. ys[i := ys ! (i + n)]) [0..<k] xs = take k (drop n xs) @ drop k xs"
proof (induction k)
  case 0
  show ?case by simp
next
  case (Suc k)
  then have k: "k + n < length xs" by simp
  let ?ys = "take k (drop n xs) @ drop k xs"
  from k have len: "length (take k (drop n xs)) = k" by simp
  from k len have nth: "?ys ! (k + n) = xs ! (k + n)" by (simp add: nth_append add.commute)
  from Suc have "fold (\<lambda>i ys. ys[i := ys ! (i + n)]) [0..<Suc k] xs = ?ys[k := ?ys ! (k + n)]"
    by simp
  also have "\<dots> = take k (drop n xs) @ xs ! (k + n) # drop (Suc k) xs"
    using k len nth by (simp add: list_update_append Cons_nth_drop_Suc [symmetric])
  also have "\<dots> = take (Suc k) (drop n xs) @ drop (Suc k) xs"
    using k by (simp add: take_Suc_conv_app_nth add.commute)
  finally show ?case .
qed

text \<open>Shifting and reslicing is dropping the processed entries.\<close>

lemma shift_queue_drop:
  assumes "n \<le> length xs"
  shows "take (length xs - n) (shift_queue n xs) = drop n xs"
  using assms by (simp add: shift_queue_def shift_queue_step)

lemma length_mark_processed [simp]: "length (mark_processed m ms) = length ms"
  by (simp add: mark_processed_def)

lemma coq_AcknowledgeResult_nil:
  "coq_AcknowledgeResult commitOffset msg None b q =
     (let ms = mark_processed msg (coq_queue q); k = length (takeWhile lm_Processed ms)
      in if k = 0 then Some (None, b, q\<lparr>coq_queue := ms\<rparr>)
         else case commitOffset (lm_Message (ms ! (k - 1))) b of
                (Some e, b') \<Rightarrow> Some (Some (errorf ''commit offset'' e), b', q\<lparr>coq_queue := ms\<rparr>)
              | (None, b') \<Rightarrow>
                  if coq_tokens q + k \<le> coq_cap q
                  then Some (None, b', q\<lparr>coq_queue := drop k ms, coq_tokens := coq_tokens q + k\<rparr>)
                  else None)"
proof -
  define ms where "ms = mark_processed msg (coq_queue q)"
  define k where "k = length (takeWhile lm_Processed ms)"
  have "k \<le> length ms" unfolding k_def by (rule length_takeWhile_le)
  then have shift: "take (length ms - k) (shift_queue k ms) = drop k ms"
    by (rule shift_queue_drop)
  show ?thesis
  proof (cases "k = 0")
    case True
    then have "takeWhile lm_Processed ms = []" by (simp add: k_def)
    then show ?thesis
      by (simp add: coq_AcknowledgeResult_def scan_processed_takeWhile Let_def ms_def [symmetric])
  next
    case False
    then have "scan_processed 0 (-1, None) ms = (int (k - 1), Some (lm_Message (ms ! (k - 1))))"
      by (simp add: scan_processed_takeWhile Let_def k_def [symmetric] del: length_0_conv)
    moreover from False have "nat (int (k - 1) + 1) = k" by simp
    ultimately show ?thesis using False shift
      by (simp add: coq_AcknowledgeResult_def Let_def ms_def [symmetric] k_def [symmetric]
          del: length_0_conv split: prod.split option.split)
  qed
qed

lemma coq_ack_units:
  assumes "length (coq_queue q) + coq_tokens q \<le> coq_cap q"
  shows "\<exists>e b' q'. coq_AcknowledgeResult commitOffset msg r b q = Some (e, b', q')
    \<and> coq_cap q' = coq_cap q
    \<and> length (coq_queue q') + coq_tokens q' = length (coq_queue q) + coq_tokens q"
proof (cases r)
  case (Some e)
  then show ?thesis by (simp add: coq_AcknowledgeResult_def)
next
  case None
  let ?ms = "mark_processed msg (coq_queue q)"
  let ?k = "length (takeWhile lm_Processed ?ms)"
  have "?k \<le> length (coq_queue q)"
    by (metis length_takeWhile_le length_mark_processed)
  with assms None show ?thesis
    by (auto simp: coq_AcknowledgeResult_nil Let_def split: prod.split option.split)
qed

interpretation coq: processing_queue coq_take_token coq_AddProcessing
  "coq_AcknowledgeResult commitOffset" coq_refs coq_tokens "\<lambda>q. length (coq_queue q)" coq_cap
  "\<lambda>_. True" "\<lambda>_ _. True"
  for commitOffset :: "'b commit_strategy"
  by unfold_locales (use coq_ack_units in \<open>force simp: queue_simps split: if_splits\<close>)+

section \<open>The ack/nack queue and the ack queue keep the contract\<close>

lemma anq_ack_units:
  assumes "finite (anq_queue q)" and "cm_ptr m \<in> anq_queue q"
    and "card (anq_queue q) + anq_tokens q \<le> anq_maxSize q"
  shows "\<exists>e b' q'. anq_AcknowledgeResult acknowledge m r b q = Some (e, b', q')
    \<and> finite (anq_queue q') \<and> anq_maxSize q' = anq_maxSize q
    \<and> card (anq_queue q') + anq_tokens q' = card (anq_queue q) + anq_tokens q
    \<and> (\<forall>p. p \<noteq> cm_ptr m \<or> e \<noteq> None \<longrightarrow> p \<in> anq_queue q \<longrightarrow> p \<in> anq_queue q')"
proof -
  from assms(1,2) have "0 < card (anq_queue q)" by (auto simp: card_gt_0_iff)
  with assms show ?thesis
    by (auto simp: anq_AcknowledgeResult_def card_Diff_singleton split: prod.split option.split)
qed

interpretation anq: processing_queue anq_take_token anq_AddProcessing
  "anq_AcknowledgeResult acknowledge" anq_queue anq_tokens "\<lambda>q. card (anq_queue q)" anq_maxSize
  "\<lambda>q. finite (anq_queue q)" "\<lambda>q p. p \<in> anq_queue q"
  for acknowledge :: "'b ack_nack_strategy"
proof (unfold_locales, goal_cases)
  case (1 q q')
  then show ?case by (auto simp: anq_take_token_def split: if_splits)
next
  case (2 q m)
  then show ?case by (auto simp: anq_AddProcessing_def)
next
  case (3 q m r b)
  then show ?case by (rule anq_ack_units)
qed

interpretation ackq: processing_queue anq_take_token anq_AddProcessing
  "ackq_AcknowledgeResult ack" anq_queue anq_tokens "\<lambda>q. card (anq_queue q)" anq_maxSize
  "\<lambda>q. finite (anq_queue q)" "\<lambda>q p. p \<in> anq_queue q"
  for ack :: "consumer_message \<Rightarrow> 'b \<Rightarrow> err \<times> 'b"
proof (unfold_locales, goal_cases)
  case (1 q q')
  then show ?case by (auto simp: anq_take_token_def split: if_splits)
next
  case (2 q m)
  then show ?case by (auto simp: anq_AddProcessing_def)
next
  case (3 q m r b)
  show ?case
  proof (cases r)
    case None
    with anq_ack_units [OF 3, of "nackNotSupportedAdapter ack" None b] show ?thesis
      by (simp add: ackq_AcknowledgeResult_def)
  next
    case (Some e)
    with 3 show ?thesis by (simp add: ackq_AcknowledgeResult_def)
  qed
qed

section \<open>The commit-offset queue implements an offset log\<close>

text \<open>
  The specification of committing: the log of everything received from the partition, in order,
  each entry with its processed mark, and the number of entries whose offset has been committed.
  An acknowledgement commits the longest processed prefix when it is longer than the committed
  one.  Nothing is ever shifted or removed.
\<close>

record offset_log =
  ol_entries :: "listener_message list"
  ol_committed :: nat

definition log_receive :: "consumer_message \<Rightarrow> offset_log \<Rightarrow> offset_log" where
  "log_receive m L = L\<lparr>ol_entries := ol_entries L @ [\<lparr>lm_Message = m, lm_Processed = False\<rparr>]\<rparr>"

definition log_ack ::
    "'b commit_strategy \<Rightarrow> consumer_message \<Rightarrow> 'b \<Rightarrow> offset_log \<Rightarrow> err \<times> 'b \<times> offset_log" where
  "log_ack commitOffset m b L =
     (let es = mark_processed m (ol_entries L); k = length (takeWhile lm_Processed es)
      in if k \<le> ol_committed L then (None, b, L\<lparr>ol_entries := es\<rparr>)
         else case commitOffset (lm_Message (es ! (k - 1))) b of
                (Some e, b') \<Rightarrow> (Some (errorf ''commit offset'' e), b', L\<lparr>ol_entries := es\<rparr>)
              | (None, b') \<Rightarrow> (None, b', L\<lparr>ol_entries := es, ol_committed := k\<rparr>))"

definition log_rel :: "commit_offset_queue \<Rightarrow> offset_log \<Rightarrow> bool" where
  "log_rel q L \<longleftrightarrow> ol_committed L \<le> length (ol_entries L)
     \<and> list_all lm_Processed (take (ol_committed L) (ol_entries L))
     \<and> coq_queue q = drop (ol_committed L) (ol_entries L)"

lemma mark_processed_all: "list_all lm_Processed ms \<Longrightarrow> mark_processed m ms = ms"
  by (auto simp: mark_processed_def list_all_iff intro: map_idI)

lemma mark_processed_append:
  "mark_processed m (xs @ ys) = mark_processed m xs @ mark_processed m ys"
  by (simp add: mark_processed_def)

lemma takeWhile_append_all:
  "list_all P xs \<Longrightarrow> takeWhile P (xs @ ys) = xs @ takeWhile P ys"
  by (simp add: list_all_iff takeWhile_append2)

text \<open>What the relation gives: the log is a processed prefix followed by the queue.\<close>

lemma log_rel_split:
  assumes "log_rel q L"
  obtains pre where "ol_entries L = pre @ coq_queue q" and "list_all lm_Processed pre"
    and "length pre = ol_committed L"
proof
  let ?pre = "take (ol_committed L) (ol_entries L)"
  from assms show "ol_entries L = ?pre @ coq_queue q" by (simp add: log_rel_def)
  from assms show "list_all lm_Processed ?pre" and "length ?pre = ol_committed L"
    by (simp_all add: log_rel_def)
qed

lemma log_rel_intro:
  assumes "ol_entries L = pre @ coq_queue q" and "list_all lm_Processed pre"
    and "length pre = ol_committed L"
  shows "log_rel q L"
  using assms by (simp add: log_rel_def flip: assms(3))

lemma log_ack_split:
  assumes "ol_entries L = pre @ ms" and "list_all lm_Processed pre"
    and "length pre = ol_committed L"
  shows "log_ack commitOffset m b L =
    (let ms' = mark_processed m ms; k = length (takeWhile lm_Processed ms');
         L1 = L\<lparr>ol_entries := pre @ ms'\<rparr>
     in if k = 0 then (None, b, L1)
        else case commitOffset (lm_Message (ms' ! (k - 1))) b of
               (Some e, b') \<Rightarrow> (Some (errorf ''commit offset'' e), b', L1)
             | (None, b') \<Rightarrow> (None, b', L1\<lparr>ol_committed := ol_committed L + k\<rparr>))"
proof -
  define ms' where "ms' = mark_processed m ms"
  define k where "k = length (takeWhile lm_Processed ms')"
  have es: "mark_processed m (ol_entries L) = pre @ ms'"
    using assms by (simp add: mark_processed_append mark_processed_all ms'_def)
  have "takeWhile lm_Processed (pre @ ms') = pre @ takeWhile lm_Processed ms'"
    using assms(2) by (rule takeWhile_append_all)
  then have k: "length (takeWhile lm_Processed (pre @ ms')) = ol_committed L + k"
    using assms(3) by (simp add: k_def)
  have "k \<noteq> 0 \<Longrightarrow> (pre @ ms') ! (ol_committed L + k - 1) = ms' ! (k - 1)"
    using assms(3) by (simp add: nth_append)
  then show ?thesis
    unfolding log_ack_def es k Let_def ms'_def [symmetric] k_def [symmetric]
    by (cases "k = 0") (simp_all split: prod.split option.split)
qed

lemma list_all_takeWhile: "list_all P (takeWhile P xs)"
  by (auto simp: list_all_iff dest: set_takeWhileD)

lemma coq_ack_refines:
  assumes rel: "log_rel q L" and units: "coq_tokens q + length (coq_queue q) \<le> coq_cap q"
    and spec: "log_ack commitOffset m b L = (e, b', L')"
  shows "\<exists>q'. coq_AcknowledgeResult commitOffset m None b q = Some (e, b', q') \<and> log_rel q' L'"
proof -
  obtain pre where pre: "ol_entries L = pre @ coq_queue q" "list_all lm_Processed pre"
    "length pre = ol_committed L" using rel by (rule log_rel_split)
  define ms where "ms = mark_processed m (coq_queue q)"
  define k where "k = length (takeWhile lm_Processed ms)"
  have k_le: "k \<le> length (coq_queue q)"
    unfolding k_def ms_def by (metis length_takeWhile_le length_mark_processed)
  note log = log_ack_split [OF pre, of commitOffset m b, folded ms_def, unfolded Let_def,
      folded k_def]
  note impl = coq_AcknowledgeResult_nil [of commitOffset m b q, folded ms_def, unfolded Let_def,
      folded k_def]
  have mark: "log_rel (q\<lparr>coq_queue := ms\<rparr>) (L\<lparr>ol_entries := pre @ ms\<rparr>)"
    using pre by (intro log_rel_intro [of _ "pre"]) simp_all
  have commit: "log_rel (q\<lparr>coq_queue := drop k ms, coq_tokens := t\<rparr>)
      (L\<lparr>ol_entries := pre @ ms, ol_committed := ol_committed L + k\<rparr>)" for t
  proof (rule log_rel_intro [of _ "pre @ takeWhile lm_Processed ms"])
    show "list_all lm_Processed (pre @ takeWhile lm_Processed ms)"
      using pre(2) by (simp add: list_all_takeWhile)
    show "length (pre @ takeWhile lm_Processed ms)
        = ol_committed (L\<lparr>ol_entries := pre @ ms, ol_committed := ol_committed L + k\<rparr>)"
      using pre(3) by (simp add: k_def)
  qed (simp add: k_def takeWhile_dropWhile_id dropWhile_eq_drop [symmetric])
  from mark commit k_le units spec show ?thesis
    by (auto simp: log impl split: if_splits prod.splits option.splits)
qed

section \<open>Properties\<close>

lemma new_commit_units:
  "length (coq_queue (NewCommitOffsetQueue n)) + coq_tokens (NewCommitOffsetQueue n)
     = nat (max 1 n)"
  "coq_cap (NewCommitOffsetQueue n) = nat (max 1 n)"
  by (auto simp: NewCommitOffsetQueue_def Let_def max_def)

lemma new_ack_units:
  "card (anq_queue (NewAckNackQueue n)) + anq_tokens (NewAckNackQueue n) = nat (max 1 n)"
  "anq_maxSize (NewAckNackQueue n) = nat (max 1 n)" "finite (anq_queue (NewAckNackQueue n))"
  by (auto simp: NewAckNackQueue_def Let_def max_def)

text \<open>
  C16. A listener over the commit-offset queue, in every state it can reach, whatever the broker
  answers: tokens, entries of the processing queue and the token its worker loop holds add up
  to the configured maximum (at least one); a new message is never refused because the queue
  is full; an acknowledgement never blocks on the token channel.
\<close>

theorem commit_offset_listener_safe:
  assumes "worker_reachable coq_take_token coq_AddProcessing (coq_AcknowledgeResult commitOffset)
      coq_refs (NewCommitOffsetQueue maxSize) b0 s"
  shows "length (coq_queue (ws_queue s)) + coq_tokens (ws_queue s) + (if ws_token s then 1 else 0)
      = nat (max 1 maxSize)
    \<and> (ws_token s \<longrightarrow> cm_ptr m \<notin> coq_refs (ws_queue s) \<longrightarrow>
        fst (coq_AddProcessing m (ws_queue s)) = None)
    \<and> (x \<in> set (ws_active s) \<longrightarrow>
        coq_AcknowledgeResult commitOffset x r b (ws_queue s) \<noteq> None)"
proof -
  have inv: "coq.worker_inv (nat (max 1 maxSize)) s"
    using assms by (rule coq.reachable_inv) (simp_all add: new_commit_units)
  from coq.inv_add_succeeds [OF inv] coq.inv_ack_returns [OF inv] inv show ?thesis
    unfolding coq.worker_inv_def coq.units_def by blast
qed

abbreviation example_message :: "nat \<Rightarrow> consumer_message" where
  "example_message p \<equiv>
     \<lparr>cm_ptr = p, cm_Message = \<lparr>msg_ID = 7, msg_Topic = ''t'', msg_Key = [], msg_Payload = ''x''\<rparr>\<rparr>"

theorem commit_offset_listener_safe_witness:
  "\<exists>s :: (commit_offset_queue, unit) worker_state.
     ws_active s = [example_message 1] \<and> length (coq_queue (ws_queue s)) = 1
     \<and> coq_tokens (ws_queue s) = 1
     \<and> coq_AcknowledgeResult (\<lambda>_ b. (None, b)) (example_message 1) None () (ws_queue s) \<noteq> None"
proof -
  let ?co = "\<lambda>_ b. (None, b) :: err \<times> unit"
  let ?R = "worker_reachable coq_take_token coq_AddProcessing (coq_AcknowledgeResult ?co) coq_refs
      (NewCommitOffsetQueue 2) ()"
  let ?s = "\<lparr>ws_queue = \<lparr>coq_cap = 2, coq_tokens = 1,
      coq_queue = [\<lparr>lm_Message = example_message 1, lm_Processed = False\<rparr>]\<rparr>, ws_broker = (),
      ws_token = False, ws_active = [example_message 1]\<rparr>"
  have "?R \<lparr>ws_queue = NewCommitOffsetQueue 2, ws_broker = (), ws_token = False, ws_active = []\<rparr>"
    by (rule worker_reachable.init)
  then have "?R \<lparr>ws_queue = \<lparr>coq_cap = 2, coq_tokens = 1, coq_queue = []\<rparr>, ws_broker = (),
      ws_token = True, ws_active = []\<rparr>"
    by (rule worker_reachable.step)
      (simp add: worker_step.simps coq_take_token_def NewCommitOffsetQueue_def)
  then have reach: "?R ?s"
    by (rule worker_reachable.step) (simp add: worker_step.simps coq_AddProcessing_def coq_refs_def)
  from commit_offset_listener_safe [OF reach, where x = "example_message 1" and r = None and b = "()"]
  have "coq_AcknowledgeResult ?co (example_message 1) None () (ws_queue ?s) \<noteq> None" by simp
  then show ?thesis by (intro exI [of _ ?s]) simp
qed

text \<open>
  In a listener over the ack queue the entries of the queue are exactly the messages still being
  processed.
\<close>

lemma ack_active_step:
  assumes "worker_step anq_take_token anq_AddProcessing (ackq_AcknowledgeResult ack) anq_queue s t"
    and "anq_queue (ws_queue s) = cm_ptr ` set (ws_active s)"
    and "distinct (map cm_ptr (ws_active s))"
  shows "anq_queue (ws_queue t) = cm_ptr ` set (ws_active t)
    \<and> distinct (map cm_ptr (ws_active t))"
  using assms(1)
proof cases
  case (take_token q')
  with assms show ?thesis by (auto simp: anq_take_token_def split: if_splits)
next
  case (receive m q')
  with assms show ?thesis by (auto simp: anq_AddProcessing_def split: if_splits)
next
  case (acknowledged m r b' q')
  with assms have "anq_queue q' = anq_queue (ws_queue s) - {cm_ptr m}"
    by (auto simp: ackq_AcknowledgeResult_def anq_AcknowledgeResult_def
        split: option.splits prod.splits if_splits)
  with acknowledged assms(2,3) show ?thesis by (auto simp: distinct_map intro: inj_on_subset)
next
  case (ack_failed m r e b' q')
  with assms have "q' = ws_queue s"
    by (auto simp: ackq_AcknowledgeResult_def anq_AcknowledgeResult_def
        split: option.splits prod.splits if_splits)
  with ack_failed assms show ?thesis by simp
qed

lemma ack_active_reachable:
  assumes "worker_reachable anq_take_token anq_AddProcessing (ackq_AcknowledgeResult ack) anq_queue
      (NewAckNackQueue n) b0 s"
  shows "anq_queue (ws_queue s) = cm_ptr ` set (ws_active s) \<and> distinct (map cm_ptr (ws_active s))"
  using assms
proof induction
  case init
  show ?case by (simp add: NewAckNackQueue_def Let_def)
next
  case (step s t)
  from ack_active_step [OF step.hyps(2)] step.IH show ?case by simp
qed

text \<open>
  A listener over the ack queue (the one the services are built with), in every state it can
  reach: at most the configured maximum of messages is being processed at a time, the free
  tokens account exactly for the rest, a new message is never refused and an acknowledgement
  never blocks on the token channel.
\<close>

theorem ack_listener_bounded:
  assumes "worker_reachable anq_take_token anq_AddProcessing (ackq_AcknowledgeResult ack) anq_queue
      (NewAckNackQueue maxSize) b0 s"
  shows "length (ws_active s) + anq_tokens (ws_queue s) + (if ws_token s then 1 else 0)
      = nat (max 1 maxSize)
    \<and> (ws_token s \<longrightarrow> cm_ptr m \<notin> anq_queue (ws_queue s) \<longrightarrow>
        fst (anq_AddProcessing m (ws_queue s)) = None)
    \<and> (x \<in> set (ws_active s) \<longrightarrow> ackq_AcknowledgeResult ack x r b (ws_queue s) \<noteq> None)"
proof -
  have inv: "ackq.worker_inv (nat (max 1 maxSize)) s"
    using assms by (rule ackq.reachable_inv) (simp_all add: new_ack_units)
  have "card (anq_queue (ws_queue s)) = length (ws_active s)"
    using ack_active_reachable [OF assms] by (metis distinct_card length_map set_map)
  with ackq.inv_add_succeeds [OF inv] ackq.inv_ack_returns [OF inv] inv show ?thesis
    unfolding ackq.worker_inv_def ackq.units_def by metis
qed

theorem ack_listener_bounded_witness:
  "\<exists>s :: (ack_nack_queue, unit) worker_state. ws_token s
     \<and> length (ws_active s) + anq_tokens (ws_queue s) = 2
     \<and> fst (anq_AddProcessing (example_message 1) (ws_queue s)) = None"
proof -
  let ?ack = "\<lambda>_ b. (None, b) :: err \<times> unit"
  let ?R = "worker_reachable anq_take_token anq_AddProcessing (ackq_AcknowledgeResult ?ack) anq_queue
      (NewAckNackQueue 3) ()"
  let ?s = "\<lparr>ws_queue = \<lparr>anq_maxSize = 3, anq_tokens = 2, anq_queue = {}\<rparr>, ws_broker = (),
      ws_token = True, ws_active = []\<rparr>"
  have "?R \<lparr>ws_queue = NewAckNackQueue 3, ws_broker = (), ws_token = False, ws_active = []\<rparr>"
    by (rule worker_reachable.init)
  then have reach: "?R ?s"
    by (rule worker_reachable.step)
      (simp add: worker_step.simps anq_take_token_def NewAckNackQueue_def)
  from ack_listener_bounded [OF reach, where m = "example_message 1"] show ?thesis
    by (intro exI [of _ ?s]) simp
qed

text \<open>
  C15. The commit-offset queue implements the offset log: for a queue that represents a log, adding
  a message and acknowledging one give the log's result, the same calls to the broker and a
  queue that represents the log's new state.  In particular an offset is committed only when
  every message received up to it has been processed, and the slice shifting loses nothing.
\<close>

theorem commit_queue_refines_offset_log:
  assumes "log_rel q L" and "coq_tokens q + length (coq_queue q) \<le> coq_cap q"
  shows "(fst (coq_AddProcessing m q) = None \<longrightarrow>
       log_rel (snd (coq_AddProcessing m q)) (log_receive m L))
    \<and> (\<exists>q'. coq_AcknowledgeResult commitOffset m None b q
            = Some (fst (log_ack commitOffset m b L), fst (snd (log_ack commitOffset m b L)), q')
          \<and> log_rel q' (snd (snd (log_ack commitOffset m b L))))
    \<and> list_all lm_Processed (take (ol_committed (snd (snd (log_ack commitOffset m b L))))
         (ol_entries (snd (snd (log_ack commitOffset m b L)))))"
proof (intro conjI)
  show "fst (coq_AddProcessing m q) = None \<longrightarrow>
      log_rel (snd (coq_AddProcessing m q)) (log_receive m L)"
    using assms(1) by (auto simp: coq_AddProcessing_def log_receive_def log_rel_def split: if_splits)
  obtain e b' L' where spec: "log_ack commitOffset m b L = (e, b', L')" by (metis prod_cases3)
  from coq_ack_refines [OF assms spec] obtain q' where
    q': "coq_AcknowledgeResult commitOffset m None b q = Some (e, b', q')" "log_rel q' L'" by blast
  then show "\<exists>q'. coq_AcknowledgeResult commitOffset m None b q
            = Some (fst (log_ack commitOffset m b L), fst (snd (log_ack commitOffset m b L)), q')
          \<and> log_rel q' (snd (snd (log_ack commitOffset m b L)))"
    by (simp add: spec)
  from q'(2) show "list_all lm_Processed (take (ol_committed (snd (snd (log_ack commitOffset m b L))))
         (ol_entries (snd (snd (log_ack commitOffset m b L)))))"
    by (simp add: spec log_rel_def)
qed

theorem commit_queue_refines_offset_log_witness:
  "\<exists>q'. coq_AcknowledgeResult (\<lambda>m b. (None, b @ [cm_ptr m])) (example_message 1) None []
      \<lparr>coq_cap = 3, coq_tokens = 1,
       coq_queue = [\<lparr>lm_Message = example_message 1, lm_Processed = False\<rparr>,
                    \<lparr>lm_Message = example_message 2, lm_Processed = True\<rparr>]\<rparr>
     = Some (None, [2], q') \<and> coq_queue q' = []"
proof -
  let ?es = "[\<lparr>lm_Message = example_message 1, lm_Processed = False\<rparr>,
      \<lparr>lm_Message = example_message 2, lm_Processed = True\<rparr>]"
  let ?q = "\<lparr>coq_cap = 3, coq_tokens = 1, coq_queue = ?es\<rparr>"
  let ?L = "\<lparr>ol_entries = ?es, ol_committed = 0\<rparr>"
  let ?co = "\<lambda>m b. (None, b @ [cm_ptr m]) :: err \<times> nat list"
  have log: "log_ack ?co (example_message 1) [] ?L
      = (None, [2], \<lparr>ol_entries = map (\<lambda>lm. lm\<lparr>lm_Processed := True\<rparr>) ?es, ol_committed = 2\<rparr>)"
    by (simp add: log_ack_def mark_processed_def)
  have rel: "log_rel ?q ?L" by (simp add: log_rel_def)
  have units: "coq_tokens ?q + length (coq_queue ?q) \<le> coq_cap ?q" by simp
  from commit_queue_refines_offset_log [OF rel units, of "example_message 1" ?co "[]"]
  show ?thesis unfolding log by (auto simp: log_rel_def)
qed

end
