(* ===== verification/Bus_Producer.thy ===== *)
theory Bus_Producer
  imports Message_Storage
begin

text \<open>
  The producing side of the message bus: \<^verbatim>\<open>serializer.go\<close>, \<^verbatim>\<open>busproducer.go\<close>, and the
  dispatchers \<^verbatim>\<open>event.go\<close> and \<^verbatim>\<open>task.go\<close> of \<^verbatim>\<open>pkg/message\<close>; the observer of
  \<^verbatim>\<open>pkg/observability\<close>.

  A structured message is a Go interface value: its dynamic type (\<^verbatim>\<open>reflect.TypeOf\<close>), what its
  methods return, and its content.  Metadata is a map with the entries in insertion order.  The
  translation of values to JSON text and back is a pair of arguments.
\<close>

section \<open>Messages and metadata\<close>

record structured_message =
  sm_goType :: string
  sm_ID :: uuid
  sm_Type :: string
  sm_AggregateID :: uuid
  sm_Content :: string

type_synonym metadata = "(string \<times> string) list"

fun meta_put :: "string \<Rightarrow> string \<Rightarrow> metadata \<Rightarrow> metadata" where
  "meta_put k v [] = [(k, v)]"
| "meta_put k v ((k', v') # m) = (if k = k' then (k, v) # m else (k', v') # meta_put k v m)"

definition meta_merge :: "metadata \<Rightarrow> metadata \<Rightarrow> metadata" where
  "meta_merge tmpMeta meta = fold (\<lambda>(k, v). meta_put k v) tmpMeta meta"

type_synonym key_builder = "structured_message \<Rightarrow> string"

text \<open>\<^verbatim>\<open>RegisterMessageFunc\<close>: the blank value of the type, and a key builder or nil.\<close>

type_synonym register_message = "structured_message \<times> key_builder option"

section \<open>Serializer\<close>

record json_message =
  jm_Type :: string
  jm_Payload :: string
  jm_Meta :: metadata

text \<open>\<^verbatim>\<open>json.Marshal\<close> of a message value and of the envelope, \<^verbatim>\<open>json.Unmarshal\<close> of the envelope.\<close>

record json_codec =
  marshal_value :: "structured_message \<Rightarrow> go_error + string"
  marshal_envelope :: "json_message \<Rightarrow> go_error + string"
  unmarshal_envelope :: "string \<Rightarrow> go_error + json_message"

type_synonym payload_deserializer = "string \<Rightarrow> go_error + structured_message"

type_synonym JSONSerializer = "string \<rightharpoonup> payload_deserializer"

definition NewJSONSerializer :: JSONSerializer where
  "NewJSONSerializer = Map.empty"

definition Serialize :: "json_codec \<Rightarrow> structured_message \<Rightarrow> metadata \<Rightarrow> go_error + string" where
  "Serialize j msg meta =
     (case marshal_value j msg of
        Inl e \<Rightarrow> Inl (errorf ''encode message'' e)
      | Inr payload \<Rightarrow>
          (case marshal_envelope j \<lparr>jm_Type = sm_Type msg, jm_Payload = payload, jm_Meta = meta\<rparr> of
             Inl e \<Rightarrow> Inl (errorf ''encode message data'' e)
           | Inr msgData \<Rightarrow> Inr msgData))"

definition Deserialize ::
    "json_codec \<Rightarrow> JSONSerializer \<Rightarrow> string \<Rightarrow> go_error + structured_message \<times> metadata" where
  "Deserialize j deserializers data =
     (case unmarshal_envelope j data of
        Inl _ \<Rightarrow> Inl (Sentinel ErrDeserializeUnknownMessage)
      | Inr msgData \<Rightarrow>
          (case deserializers (jm_Type msgData) of
             None \<Rightarrow> Inl (errorf ''unknown message'' (Sentinel ErrDeserializeUnknownMessage))
           | Some deserializer \<Rightarrow>
               (case deserializer (jm_Payload msgData) of
                  Inl e \<Rightarrow> Inl (errorf ''deserialize message'' e)
                | Inr msg \<Rightarrow> Inr (msg, jm_Meta msgData))))"

definition RegisterDeserializer ::
    "string \<Rightarrow> payload_deserializer \<Rightarrow> JSONSerializer \<Rightarrow> err \<times> JSONSerializer" where
  "RegisterDeserializer msgType deserializer ds =
     (if ds msgType \<noteq> None then (Some (errors_new ''deserializer already exists''), ds)
      else (None, ds(msgType \<mapsto> deserializer)))"

text \<open>\<^verbatim>\<open>PayloadDeserializerImpl[T]\<close>, over \<^verbatim>\<open>json.Unmarshal\<close> into a \<^verbatim>\<open>T\<close>.\<close>

definition PayloadDeserializerImpl :: "(string \<Rightarrow> go_error + structured_message) \<Rightarrow> payload_deserializer" where
  "PayloadDeserializerImpl unmarshal_T payload =
     (case unmarshal_T payload of Inl e \<Rightarrow> Inl (errorf ''json decode'' e) | Inr msg \<Rightarrow> Inr msg)"

section \<open>Bus producer\<close>

record 's bus_world =
  bw_state :: 's
  bw_obs :: "obs list"
  bw_clock :: "nat \<Rightarrow> time"
  bw_ticks :: nat

type_synonym 's bus_produce =
  "sql_ctx \<Rightarrow> topic \<Rightarrow> structured_message \<Rightarrow> time option \<Rightarrow> 's bus_world \<Rightarrow> err \<times> 's bus_world"

type_synonym 's producer_impl =
  "sql_ctx \<Rightarrow> message \<Rightarrow> time option \<Rightarrow> 's bus_world \<Rightarrow> err \<times> 's bus_world"

type_synonym metadata_builder = "sql_ctx \<Rightarrow> go_error + metadata"

record 's bus_producer_config =
  Middlewares :: "('s bus_produce \<Rightarrow> 's bus_produce) list"
  MetadataBuilders :: "metadata_builder list"

type_synonym 's bus_producer_option = "'s bus_producer_config \<Rightarrow> 's bus_producer_config"

record 's bus_producer =
  bp_producerImpl :: "'s producer_impl"
  bp_codec :: json_codec
  bp_messageTopics :: "string \<rightharpoonup> topic list"
  bp_producers :: "topic \<times> string \<rightharpoonup> 's bus_produce"
  bp_topicMessages :: "topic \<rightharpoonup> string set"
  bp_baseConfig :: "'s bus_producer_config"

definition apply_options :: "'s bus_producer_option list \<Rightarrow> 's bus_producer_config \<Rightarrow> 's bus_producer_config" where
  "apply_options opts config = fold (\<lambda>opt c. opt c) opts config"

definition NewBusProducer ::
    "(sql_ctx \<Rightarrow> message \<Rightarrow> 's \<Rightarrow> err \<times> 's) \<Rightarrow> json_codec \<Rightarrow> 's bus_producer_option list \<Rightarrow> 's bus_producer" where
  "NewBusProducer produce serializer opts =
     \<lparr>bp_producerImpl = (\<lambda>ctx m _ w.
        (case produce ctx m (bw_state w) of
           (e, s) \<Rightarrow> (map_option (errorf ''produce message'') e, w\<lparr>bw_state := s\<rparr>))),
      bp_codec = serializer, bp_messageTopics = Map.empty, bp_producers = Map.empty,
      bp_topicMessages = Map.empty,
      bp_baseConfig = apply_options opts \<lparr>Middlewares = [], MetadataBuilders = []\<rparr>\<rparr>"

definition NewBusScheduledProducer ::
    "('l, 's) storage_ops \<Rightarrow> json_codec \<Rightarrow> 's bus_producer_option list \<Rightarrow> 's bus_producer" where
  "NewBusScheduledProducer S serializer opts =
     \<lparr>bp_producerImpl = (\<lambda>ctx m at w.
        (let now = bw_clock w (bw_ticks w);
             scheduleAt = (case at of None \<Rightarrow> now | Some t \<Rightarrow> t)
         in case so_Store S ctx scheduleAt [m] (bw_state w) of
              (e, s) \<Rightarrow> (map_option (errorf ''store message'') e,
                         w\<lparr>bw_state := s, bw_ticks := Suc (bw_ticks w)\<rparr>))),
      bp_codec = serializer, bp_messageTopics = Map.empty, bp_producers = Map.empty,
      bp_topicMessages = Map.empty,
      bp_baseConfig = apply_options opts \<lparr>Middlewares = [], MetadataBuilders = []\<rparr>\<rparr>"

fun build_metadata :: "metadata_builder list \<Rightarrow> sql_ctx \<Rightarrow> metadata \<Rightarrow> go_error + metadata" where
  "build_metadata [] ctx meta = Inr meta"
| "build_metadata (b # bs) ctx meta =
     (case b ctx of
        Inl e \<Rightarrow> Inl (errorf ''build metadata'' e)
      | Inr tmpMeta \<Rightarrow> build_metadata bs ctx (meta_merge tmpMeta meta))"

definition serializePayloadImpl ::
    "json_codec \<Rightarrow> metadata_builder list \<Rightarrow> sql_ctx \<Rightarrow> structured_message \<Rightarrow> go_error + string" where
  "serializePayloadImpl j builders ctx msg =
     (case build_metadata builders ctx [] of
        Inl e \<Rightarrow> Inl e
      | Inr meta \<Rightarrow>
          (case Serialize j msg meta of
             Inl e \<Rightarrow> Inl (errorf ''serialize message'' e)
           | Inr payload \<Rightarrow> Inr payload))"

definition produce_base :: "'s bus_producer \<Rightarrow> metadata_builder list \<Rightarrow> key_builder \<Rightarrow> 's bus_produce" where
  "produce_base p builders keyBuilder ctx tp msg at w =
     (case serializePayloadImpl (bp_codec p) builders ctx msg of
        Inl e \<Rightarrow> (Some (errorf ''serialize message'' e), w)
      | Inr payload \<Rightarrow>
          (case bp_producerImpl p ctx
                  \<lparr>msg_ID = sm_ID msg, msg_Topic = tp, msg_Key = keyBuilder msg, msg_Payload = payload\<rparr> at w of
             (e, w') \<Rightarrow> (map_option (errorf ''produce message'') e, w')))"

definition buildProducer ::
    "'s bus_producer \<Rightarrow> 's bus_producer_config \<Rightarrow> key_builder option \<Rightarrow> 's bus_produce" where
  "buildProducer p config keyBuilder =
     foldr (\<lambda>mw produce. mw produce) (Middlewares config)
       (produce_base p (MetadataBuilders config) (case keyBuilder of None \<Rightarrow> (\<lambda>_. []) | Some kb \<Rightarrow> kb))"

definition registerImpl ::
    "topic \<Rightarrow> register_message \<Rightarrow> 's bus_producer_config \<Rightarrow> 's bus_producer \<Rightarrow> err \<times> 's bus_producer" where
  "registerImpl tp msg config p =
     (let (schema, keyBuilder) = msg;
          msgType = sm_Type schema;
          existed = (case bp_topicMessages p tp of None \<Rightarrow> {} | Some types \<Rightarrow> types)
      in if msgType = [] then (Some (errors_new ''blank message must return const value of type''), p)
         else if msgType \<in> existed then (Some (errors_new ''message type already registered in topic''), p)
         else let ty = sm_goType schema;
                  topics = (case bp_messageTopics p ty of None \<Rightarrow> [] | Some ts \<Rightarrow> ts)
              in (None, p\<lparr>bp_producers := (bp_producers p)((tp, ty) \<mapsto> buildProducer p config keyBuilder),
                          bp_messageTopics := (bp_messageTopics p)(ty \<mapsto> topics @ [tp]),
                          bp_topicMessages := (bp_topicMessages p)(tp \<mapsto> insert msgType existed)\<rparr>))"

text \<open>\<^verbatim>\<open>Register\<close>, the map of messages in the order Go ranges over it.\<close>

fun register_all ::
    "(topic \<times> register_message) list \<Rightarrow> 's bus_producer_config \<Rightarrow> 's bus_producer \<Rightarrow> err \<times> 's bus_producer" where
  "register_all [] config p = (None, p)"
| "register_all ((tp, fn) # rest) config p =
     (case registerImpl tp fn config p of
        (Some e, p') \<Rightarrow> (Some (errorf ''register for topic'' e), p')
      | (None, p') \<Rightarrow> register_all rest config p')"

definition Register ::
    "(topic \<times> register_message list) list \<Rightarrow> 's bus_producer_option list \<Rightarrow> 's bus_producer \<Rightarrow> err \<times> 's bus_producer" where
  "Register msgs opts p =
     register_all (concat (map (\<lambda>(tp, fns). map (Pair tp) fns) msgs)) (apply_options opts (bp_baseConfig p)) p"

text \<open>The first loop of \<^verbatim>\<open>scheduleImpl\<close>: the topics gathered per type, over all the messages.\<close>

fun gather_topics ::
    "'s bus_producer \<Rightarrow> structured_message list \<Rightarrow> (string \<Rightarrow> topic list) \<Rightarrow> go_error + (string \<Rightarrow> topic list)" where
  "gather_topics p [] acc = Inr acc"
| "gather_topics p (msg # msgs) acc =
     (case bp_messageTopics p (sm_goType msg) of
        None \<Rightarrow> Inl (errors_new ''unknown message type'')
      | Some topics \<Rightarrow>
          if list_all (\<lambda>tp. bp_producers p (tp, sm_goType msg) \<noteq> None) topics
          then gather_topics p msgs (acc(sm_goType msg := acc (sm_goType msg) @ topics))
          else Inl (errors_new ''unknown message type''))"

fun produce_all ::
    "'s bus_producer \<Rightarrow> sql_ctx \<Rightarrow> time option \<Rightarrow> (topic \<times> structured_message) list \<Rightarrow> 's bus_world
      \<Rightarrow> err \<times> 's bus_world" where
  "produce_all p ctx at [] w = (None, w)"
| "produce_all p ctx at ((tp, msg) # rest) w =
     (case the (bp_producers p (tp, sm_goType msg)) ctx tp msg at w of
        (Some e, w') \<Rightarrow> (Some e, w')
      | (None, w') \<Rightarrow> produce_all p ctx at rest w')"

definition scheduleImpl ::
    "'s bus_producer \<Rightarrow> sql_ctx \<Rightarrow> time option \<Rightarrow> structured_message list \<Rightarrow> 's bus_world \<Rightarrow> err \<times> 's bus_world" where
  "scheduleImpl p ctx at msgs w =
     (if msgs = [] then (None, w)
      else case gather_topics p msgs (\<lambda>_. []) of
             Inl e \<Rightarrow> (Some e, w)
           | Inr messageTopics \<Rightarrow>
               produce_all p ctx at
                 (concat (map (\<lambda>msg. map (\<lambda>tp. (tp, msg)) (messageTopics (sm_goType msg))) msgs)) w)"

definition bus_Produce ::
    "'s bus_producer \<Rightarrow> sql_ctx \<Rightarrow> structured_message list \<Rightarrow> 's bus_world \<Rightarrow> err \<times> 's bus_world" where
  "bus_Produce p ctx msgs = scheduleImpl p ctx None msgs"

definition bus_Schedule ::
    "'s bus_producer \<Rightarrow> sql_ctx \<Rightarrow> time \<Rightarrow> structured_message list \<Rightarrow> 's bus_world \<Rightarrow> err \<times> 's bus_world" where
  "bus_Schedule p ctx at msgs = scheduleImpl p ctx (Some at) msgs"

section \<open>Observer and producer options\<close>

text \<open>\<^verbatim>\<open>pkg/observability\<close>: an observer is its logger and the fields it also logs; a value the context does
  not have reads as the empty string.\<close>

record observer =
  obs_logger :: logger
  obs_loggingFields :: "string set"

definition observer_Field :: "observer \<Rightarrow> sql_ctx \<Rightarrow> string \<Rightarrow> string" where
  "observer_Field ob ctx field = (case map_of (cx_fields ctx) field of None \<Rightarrow> [] | Some v \<Rightarrow> v)"

definition observer_WithField :: "observer \<Rightarrow> sql_ctx \<Rightarrow> string \<Rightarrow> string \<Rightarrow> sql_ctx" where
  "observer_WithField ob ctx field v =
     (if v = [] then ctx
      else let ctx' = ctx\<lparr>cx_fields := (field, v) # cx_fields ctx\<rparr>
           in if field \<in> obs_loggingFields ob
              then ctx'\<lparr>cx_log := log_WithContext (obs_logger ob) (cx_log ctx') [(field, FStr v)]\<rparr>
              else ctx')"

definition WithFieldsLogging :: "logger \<Rightarrow> string list \<Rightarrow> observer \<Rightarrow> observer" where
  "WithFieldsLogging l fs ob = ob\<lparr>obs_logger := l, obs_loggingFields := set fs\<rparr>"

definition observabilityMetaKeyPrefix :: string where
  "observabilityMetaKeyPrefix = ''observability/''"

text \<open>The values of the fields that are set, under prefixed keys.\<close>

definition observability_metadata :: "observer \<Rightarrow> string list \<Rightarrow> metadata_builder" where
  "observability_metadata ob fs ctx =
     Inr (fold (\<lambda>field m. if observer_Field ob ctx field \<noteq> []
                 then meta_put (observabilityMetaKeyPrefix @ field) (observer_Field ob ctx field) m else m)
               fs [])"

definition WithBusProducerObservability :: "observer \<Rightarrow> string list \<Rightarrow> 's bus_producer_option" where
  "WithBusProducerObservability ob fs config =
     (if fs = [] then config
      else config\<lparr>MetadataBuilders := MetadataBuilders config @ [observability_metadata ob fs]\<rparr>)"

definition WithBusProducerMetrics :: "metrics \<Rightarrow> 's bus_producer_option" where
  "WithBusProducerMetrics m config =
     config\<lparr>Middlewares := Middlewares config @
       [\<lambda>impl ctx tp msg scheduleAt w.
          (case impl ctx tp msg scheduleAt w of
             (e, w') \<Rightarrow>
               (e, w'\<lparr>bw_obs := bw_obs w' @
                  met_Increment (met_With m [(''topic'', FStr tp), (''type'', FStr (sm_Type msg)),
                    (''success'', FBool (e = None))]) ''msg_produce_attempts_total''\<rparr>))]\<rparr>"

definition WithBusProducerLogging :: "logger \<Rightarrow> level \<Rightarrow> level \<Rightarrow> 's bus_producer_option" where
  "WithBusProducerLogging l infoLevel errorLevel config =
     config\<lparr>Middlewares := Middlewares config @
       [\<lambda>impl ctx tp msg scheduleAt w.
          (let l' = log_With l [(''topic'', FStr tp), (''messageID'', FUuid (sm_ID msg)),
                 (''messageType'', FStr (sm_Type msg)), (''scheduleAt'', FTime scheduleAt)];
               (e, w') = impl ctx tp msg scheduleAt w
           in (e, w'\<lparr>bw_obs := bw_obs w' @ written
                (if e \<noteq> None then log_Log (log_WithError l' e) (Some (cx_log ctx)) errorLevel ''message producing failed''
                 else log_Log l' (Some (cx_log ctx)) infoLevel ''message successfully produced'')\<rparr>))]\<rparr>"

section \<open>Event dispatcher and task scheduler\<close>

definition eventDispatcher_Dispatch ::
    "'s bus_producer \<Rightarrow> sql_ctx \<Rightarrow> structured_message list \<Rightarrow> 's bus_world \<Rightarrow> err \<times> 's bus_world" where
  "eventDispatcher_Dispatch bus ctx events w =
     (if events = [] then (None, w)
      else case bus_Produce bus ctx events w of
             (e, w') \<Rightarrow> (map_option (errorf ''dispatch event'') e, w'))"

definition taskScheduler_Schedule ::
    "'s bus_producer \<Rightarrow> sql_ctx \<Rightarrow> time \<Rightarrow> structured_message list \<Rightarrow> 's bus_world \<Rightarrow> err \<times> 's bus_world" where
  "taskScheduler_Schedule bus ctx at tasks w =
     (if tasks = [] then (None, w)
      else case bus_Schedule bus ctx at tasks w of
             (e, w') \<Rightarrow> (map_option (errorf ''publish task'') e, w'))"

text \<open>
  \<^verbatim>\<open>RegisterEvent[T]\<close> for the blank value of \<^verbatim>\<open>T\<close>: a value of another dynamic type gets the
  empty key; \<open>uuid_string\<close> is \<^verbatim>\<open>uuid.UUID.String\<close> of the third-party package.
\<close>

definition RegisterEvent :: "(uuid \<Rightarrow> string) \<Rightarrow> structured_message \<Rightarrow> register_message" where
  "RegisterEvent uuid_string blank =
     (blank, Some (\<lambda>msg. if sm_goType msg = sm_goType blank then uuid_string (sm_AggregateID msg) else []))"

definition RegisterTask :: "structured_message \<Rightarrow> register_message" where
  "RegisterTask blank = (blank, None)"

text \<open>\<^verbatim>\<open>RegisterEventHandlers[T]\<close> and \<^verbatim>\<open>RegisterTaskHandlers[T]\<close> wrap each handler by the
  assertion that the message is a \<^verbatim>\<open>T\<close>.\<close>

definition typed_handler ::
    "string \<Rightarrow> structured_message \<Rightarrow> ('c \<Rightarrow> structured_message \<Rightarrow> 'w \<Rightarrow> err outcome \<times> 'w)
      \<Rightarrow> 'c \<Rightarrow> structured_message \<Rightarrow> 'w \<Rightarrow> err outcome \<times> 'w" where
  "typed_handler what blank handler ctx msg w =
     (if sm_goType msg \<noteq> sm_goType blank
      then (Returns (Some (errors_new (''invalid '' @ what @ '' struct type''))), w)
      else handler ctx msg w)"

definition RegisterEventHandlers where
  "RegisterEventHandlers unmarshal_T blank handlers =
     (blank, PayloadDeserializerImpl unmarshal_T, map (typed_handler ''event'' blank) handlers)"

definition RegisterTaskHandlers where
  "RegisterTaskHandlers unmarshal_T blank handlers =
     (blank, PayloadDeserializerImpl unmarshal_T, map (typed_handler ''task'' blank) handlers)"

section \<open>The registry\<close>

text \<open>
  Every topic listed for a Go type has a producer, and the types registered in a topic are known;
  when the blank values of a Go type always report the same message type (\<open>type_name\<close>), no topic is
  listed twice.
\<close>

definition topics_of :: "'s bus_producer \<Rightarrow> string \<Rightarrow> topic list" where
  "topics_of p ty = (case bp_messageTopics p ty of None \<Rightarrow> [] | Some ts \<Rightarrow> ts)"

definition types_in :: "'s bus_producer \<Rightarrow> topic \<Rightarrow> string set" where
  "types_in p tp = (case bp_topicMessages p tp of None \<Rightarrow> {} | Some types \<Rightarrow> types)"

definition bus_ok :: "(string \<Rightarrow> string) \<Rightarrow> 's bus_producer \<Rightarrow> bool" where
  "bus_ok type_name p \<longleftrightarrow>
     (\<forall>ty. distinct (topics_of p ty)
        \<and> (\<forall>tp \<in> set (topics_of p ty). bp_producers p (tp, ty) \<noteq> None \<and> type_name ty \<in> types_in p tp))"

lemma bus_ok_new [simp]:
  "bus_ok type_name (NewBusProducer produce j opts)" "bus_ok type_name (NewBusScheduledProducer S j opts)"
  by (simp_all add: bus_ok_def topics_of_def NewBusProducer_def NewBusScheduledProducer_def)

lemma registerImpl_ok:
  assumes "registerImpl tp msg config p = (e, p')" and "bus_ok type_name p"
    and "sm_Type (fst msg) = type_name (sm_goType (fst msg))"
  shows "bus_ok type_name p'"
proof (cases "e = None")
  case False
  then show ?thesis using assms by (auto simp: registerImpl_def Let_def split: if_splits prod.splits)
next
  case True
  let ?ty = "sm_goType (fst msg)"
  have new: "type_name ?ty \<notin> types_in p tp"
    and p': "bp_producers p' = (bp_producers p)((tp, ?ty) \<mapsto> buildProducer p config (snd msg))"
      "topics_of p' = (topics_of p)(?ty := topics_of p ?ty @ [tp])"
      "types_in p' = (types_in p)(tp := insert (type_name ?ty) (types_in p tp))"
    using assms(1,3) True
    by (auto simp: registerImpl_def Let_def topics_of_def types_in_def fun_eq_iff split: if_splits prod.splits)
  have "tp \<notin> set (topics_of p ?ty)" using assms(2) new by (auto simp: bus_ok_def)
  with assms(2) show ?thesis unfolding bus_ok_def p' by auto
qed

lemma register_all_ok:
  assumes "register_all rs config p = (e, p')" and "bus_ok type_name p"
    and "\<forall>(tp, schema, kb) \<in> set rs. sm_Type schema = type_name (sm_goType schema)"
  shows "bus_ok type_name p'"
  using assms
proof (induction rs arbitrary: p)
  case Nil
  then show ?case by simp
next
  case (Cons r rs)
  obtain tp msg where r: "r = (tp, msg)" by (cases r)
  obtain e1 p1 where i: "registerImpl tp msg config p = (e1, p1)" by force
  have "bus_ok type_name p1" using registerImpl_ok [OF i Cons.prems(2)] Cons.prems(3) r by auto
  with Cons i r show ?case by (auto split: option.splits)
qed

section \<open>Which calls a batch of messages makes\<close>

abbreviation same_type :: "structured_message \<Rightarrow> structured_message list \<Rightarrow> nat" where
  "same_type msg msgs \<equiv> length (filter (\<lambda>m. sm_goType m = sm_goType msg) msgs)"

definition known :: "'s bus_producer \<Rightarrow> structured_message \<Rightarrow> bool" where
  "known p msg \<longleftrightarrow> bp_messageTopics p (sm_goType msg) \<noteq> None"

lemma gather_topics_eq:
  assumes "bus_ok type_name p"
  shows "gather_topics p msgs acc =
    (if list_all (known p) msgs
     then Inr (\<lambda>ty. acc ty @ concat (replicate (length (filter (\<lambda>m. sm_goType m = ty) msgs)) (topics_of p ty)))
     else Inl (errors_new ''unknown message type''))"
proof (induction msgs arbitrary: acc)
  case Nil
  then show ?case by simp
next
  case (Cons msg msgs)
  show ?case
  proof (cases "bp_messageTopics p (sm_goType msg)")
    case None
    then show ?thesis by (simp add: known_def)
  next
    case (Some ts)
    with assms have "list_all (\<lambda>tp. bp_producers p (tp, sm_goType msg) \<noteq> None) ts"
      by (auto simp: bus_ok_def list_all_iff topics_of_def dest!: spec [of _ "sm_goType msg"])
    with Some Cons.IH show ?thesis by (auto simp: known_def topics_of_def)
  qed
qed

text \<open>The calls made for \<open>msgs\<close>, in order: for every message, its topics, as many times over as the
  batch has messages of its Go type.\<close>

definition schedule_calls :: "'s bus_producer \<Rightarrow> structured_message list \<Rightarrow> (topic \<times> structured_message) list" where
  "schedule_calls p msgs =
     concat (map (\<lambda>msg. map (\<lambda>tp. (tp, msg))
       (concat (replicate (same_type msg msgs) (topics_of p (sm_goType msg))))) msgs)"

lemma scheduleImpl_eq:
  assumes "bus_ok type_name p"
  shows "scheduleImpl p ctx at msgs w =
    (if list_all (known p) msgs then produce_all p ctx at (schedule_calls p msgs) w
     else (Some (errors_new ''unknown message type''), w))"
  by (simp add: scheduleImpl_def gather_topics_eq [OF assms] schedule_calls_def)

lemma same_type_distinct:
  "distinct (map sm_goType msgs) \<Longrightarrow> msg \<in> set msgs \<Longrightarrow> same_type msg msgs = 1"
  by (induction msgs) (auto simp: filter_empty_conv image_iff)

lemma schedule_calls_distinct:
  assumes "distinct (map sm_goType msgs)"
  shows "schedule_calls p msgs = concat (map (\<lambda>msg. map (\<lambda>tp. (tp, msg)) (topics_of p (sm_goType msg))) msgs)"
  unfolding schedule_calls_def using same_type_distinct [OF assms]
  by (intro arg_cong [of _ _ concat] map_cong) simp_all

lemma schedule_calls_set:
  "(tp, msg) \<in> set (schedule_calls p msgs) \<longleftrightarrow> msg \<in> set msgs \<and> tp \<in> set (topics_of p (sm_goType msg))"
proof -
  have "msg \<in> set msgs \<Longrightarrow> same_type msg msgs > 0" by (auto simp: filter_empty_conv)
  then show ?thesis by (fastforce simp: schedule_calls_def image_iff)
qed

section \<open>What was registered\<close>

text \<open>The \<^verbatim>\<open>Register\<close> calls made on a bus one after the other, until one fails.\<close>

fun Register_each ::
    "((topic \<times> register_message list) list \<times> 's bus_producer_option list) list \<Rightarrow> 's bus_producer \<Rightarrow> err \<times> 's bus_producer" where
  "Register_each [] p = (None, p)"
| "Register_each ((regs, opts) # calls) p =
     (case Register regs opts p of (Some e, p') \<Rightarrow> (Some e, p') | (None, p') \<Rightarrow> Register_each calls p')"

text \<open>
  Read off the arguments of these calls alone: the topics a Go type was registered for, in order, each with the
  producer its registration asks for - that of the new bus \<open>q\<close> with the options of the call and the key builder of the message.
\<close>

definition registrations ::
    "'s bus_producer \<Rightarrow> ((topic \<times> register_message list) list \<times> 's bus_producer_option list) list
      \<Rightarrow> (topic \<times> register_message \<times> 's bus_producer_config) list" where
  "registrations q calls = [(tp, fn, apply_options opts (bp_baseConfig q)). (regs, opts) \<leftarrow> calls, (tp, fns) \<leftarrow> regs, fn \<leftarrow> fns]"

definition registered_producers ::
    "'s bus_producer \<Rightarrow> (topic \<times> register_message \<times> 's bus_producer_config) list \<Rightarrow> string \<Rightarrow> (topic \<times> 's bus_produce) list" where
  "registered_producers q log ty =
     [(tp, buildProducer q config kb). (tp, (schema, kb), config) \<leftarrow> log, sm_goType schema = ty]"

text \<open>The tables of a bus hold exactly the registrations \<open>log\<close>.\<close>

definition bus_holds ::
    "(string \<Rightarrow> string) \<Rightarrow> 's bus_producer \<Rightarrow> (topic \<times> register_message \<times> 's bus_producer_config) list \<Rightarrow> 's bus_producer \<Rightarrow> bool" where
  "bus_holds type_name q log p \<longleftrightarrow>
     bp_codec p = bp_codec q \<and> bp_producerImpl p = bp_producerImpl q \<and> bp_baseConfig p = bp_baseConfig q
     \<and> (\<forall>ty. let reg = registered_producers q log ty
         in bp_messageTopics p ty = (if reg = [] then None else Some (map fst reg)) \<and> distinct (map fst reg)
            \<and> (\<forall>(tp, f) \<in> set reg. bp_producers p (tp, ty) = Some f \<and> type_name ty \<in> types_in p tp))"

lemma registered_snoc:
  "registered_producers q (log @ [(tp, (schema, kb), config)]) ty =
     registered_producers q log ty @ (if sm_goType schema = ty then [(tp, buildProducer q config kb)] else [])"
  by (simp add: registered_producers_def)

lemma buildProducer_same:
  assumes "bp_codec p = bp_codec q" and "bp_producerImpl p = bp_producerImpl q"
  shows "buildProducer p config kb = buildProducer q config kb"
  unfolding buildProducer_def produce_base_def [abs_def] assms ..

lemma registerImpl_holds:
  assumes reg: "registerImpl tp (schema, kb) config p = (None, p')" and h: "bus_holds type_name q log p"
    and ty: "sm_Type schema = type_name (sm_goType schema)"
  shows "bus_holds type_name q (log @ [(tp, (schema, kb), config)]) p'"
proof -
  let ?ty = "sm_goType schema" and ?R = "registered_producers q log"
  have b: "buildProducer p config kb = buildProducer q config kb" using h by (intro buildProducer_same) (simp_all add: bus_holds_def)
  have mt: "bp_messageTopics p ?ty = (if ?R ?ty = [] then None else Some (map fst (?R ?ty)))" using h by (simp add: bus_holds_def Let_def)
  have new: "type_name ?ty \<notin> types_in p tp"
    and p': "bp_codec p' = bp_codec p" "bp_producerImpl p' = bp_producerImpl p" "bp_baseConfig p' = bp_baseConfig p"
      "bp_producers p' = (bp_producers p)((tp, ?ty) \<mapsto> buildProducer q config kb)"
      "bp_messageTopics p' = (bp_messageTopics p)(?ty \<mapsto> map fst (?R ?ty) @ [tp])"
      "types_in p' = (types_in p)(tp := insert (type_name ?ty) (types_in p tp))"
    using reg ty b mt by (auto simp: registerImpl_def Let_def types_in_def fun_eq_iff split: if_splits)
  have old: "bp_messageTopics p ty = (if ?R ty = [] then None else Some (map fst (?R ty)))" "distinct (map fst (?R ty))"
    "\<And>tp f. (tp, f) \<in> set (?R ty) \<Longrightarrow> bp_producers p (tp, ty) = Some f \<and> type_name ty \<in> types_in p tp" for ty
    using h by (auto simp: bus_holds_def Let_def)
  have fresh: "tp \<notin> fst ` set (?R ?ty)" using old(3) new by fastforce
  have "let reg = registered_producers q (log @ [(tp, (schema, kb), config)]) ty
      in bp_messageTopics p' ty = (if reg = [] then None else Some (map fst reg)) \<and> distinct (map fst reg)
         \<and> (\<forall>(tp, f) \<in> set reg. bp_producers p' (tp, ty) = Some f \<and> type_name ty \<in> types_in p' tp)" for ty
    using old(1,2) [of ty] old(3) [of _ _ ty] fresh unfolding registered_snoc p' Let_def by (cases "ty = ?ty") (auto simp: image_iff)
  then show ?thesis using h p' by (simp add: bus_holds_def)
qed

lemma register_all_holds:
  assumes "register_all rs config p = (None, p')" and "bus_holds type_name q log p"
    and "\<forall>(tp, schema, kb) \<in> set rs. sm_Type schema = type_name (sm_goType schema)"
  shows "bus_holds type_name q (log @ map (\<lambda>(tp, fn). (tp, fn, config)) rs) p'"
  using assms
proof (induction rs arbitrary: p log)
  case Nil
  then show ?case by simp
next
  case (Cons r rs)
  obtain tp schema kb where r: "r = (tp, (schema, kb))" by (metis surj_pair)
  obtain p1 where i: "registerImpl tp (schema, kb) config p = (None, p1)" and rest: "register_all rs config p1 = (None, p')"
    using Cons.prems(1) r by (auto split: prod.splits option.splits)
  from registerImpl_holds [OF i Cons.prems(2)] Cons.prems(3) r Cons.IH [OF rest] show ?case by fastforce
qed

lemma Register_holds:
  assumes "Register regs opts p = (None, p')" and "bus_holds type_name q log p"
    and "\<forall>(tp, fns) \<in> set regs. \<forall>(schema, kb) \<in> set fns. sm_Type schema = type_name (sm_goType schema)"
  shows "bus_holds type_name q (log @ registrations q [(regs, opts)]) p'"
proof -
  have base: "bp_baseConfig p = bp_baseConfig q" using assms(2) by (simp add: bus_holds_def)
  have "\<forall>(tp, schema, kb) \<in> set (concat (map (\<lambda>(tp, fns). map (Pair tp) fns) regs)). sm_Type schema = type_name (sm_goType schema)"
    using assms(3) by fastforce
  from register_all_holds [OF assms(1) [unfolded Register_def] assms(2) this]
  have h: "bus_holds type_name q (log @ map (\<lambda>(tp, fn). (tp, fn, apply_options opts (bp_baseConfig q)))
      (concat (map (\<lambda>(tp, fns). map (Pair tp) fns) regs))) p'" by (simp add: base)
  have "map (\<lambda>(tp, fn). (tp, fn, c)) (concat (map (\<lambda>(tp, fns). map (Pair tp) fns) regs)) = [(tp, fn, c). (tp, fns) \<leftarrow> regs, fn \<leftarrow> fns]"
    for c :: "'a bus_producer_config"
    by (induction regs) (auto simp: comp_def map_concat)
  with h show ?thesis by (simp add: registrations_def)
qed

lemma Register_each_holds:
  assumes "Register_each calls p = (None, p')" and "bus_holds type_name q log p"
    and "\<forall>(regs, opts) \<in> set calls. \<forall>(tp, fns) \<in> set regs. \<forall>(schema, kb) \<in> set fns. sm_Type schema = type_name (sm_goType schema)"
  shows "bus_holds type_name q (log @ registrations q calls) p'"
  using assms
proof (induction calls arbitrary: p log)
  case Nil
  then show ?case by (simp add: registrations_def)
next
  case (Cons c calls)
  obtain regs opts where c: "c = (regs, opts)" by force
  obtain p1 where i: "Register regs opts p = (None, p1)" and rest: "Register_each calls p1 = (None, p')"
    using Cons.prems(1) c by (auto split: prod.splits option.splits)
  have "bus_holds type_name q (log @ registrations q [(regs, opts)]) p1"
    using Register_holds [OF i Cons.prems(2)] Cons.prems(3) c by auto
  from Cons.IH [OF rest this] Cons.prems(3) c show ?case by (simp add: registrations_def)
qed

lemma bus_holds_topics: "bus_holds type_name q log p \<Longrightarrow> topics_of p ty = map fst (registered_producers q log ty)"
  by (simp add: bus_holds_def Let_def topics_of_def)

lemma bus_holds_producers:
  "bus_holds type_name q log p \<Longrightarrow> (tp, f) \<in> set (registered_producers q log ty) \<Longrightarrow> bp_producers p (tp, ty) = Some f \<and> type_name ty \<in> types_in p tp"
  by (auto simp: bus_holds_def Let_def)

lemma bus_holds_ok:
  assumes "bus_holds type_name q log p"
  shows "bus_ok type_name p"
proof -
  have "distinct (map fst (registered_producers q log ty))" for ty using assms by (simp add: bus_holds_def Let_def)
  with bus_holds_producers [OF assms] show ?thesis unfolding bus_ok_def bus_holds_topics [OF assms] by force
qed

text \<open>Calls of producers in order, up to the first error.\<close>

fun run_calls ::
    "sql_ctx \<Rightarrow> time option \<Rightarrow> (topic \<times> structured_message \<times> 's bus_produce) list \<Rightarrow> 's bus_world \<Rightarrow> err \<times> 's bus_world" where
  "run_calls ctx at [] w = (None, w)"
| "run_calls ctx at ((tp, msg, f) # rest) w =
     (case f ctx tp msg at w of (Some e, w') \<Rightarrow> (Some e, w') | (None, w') \<Rightarrow> run_calls ctx at rest w')"

definition registered_calls ::
    "(string \<Rightarrow> (topic \<times> 's bus_produce) list) \<Rightarrow> structured_message list \<Rightarrow> (topic \<times> structured_message \<times> 's bus_produce) list" where
  "registered_calls R msgs =
     concat (map (\<lambda>msg. map (\<lambda>(tp, f). (tp, msg, f)) (concat (replicate (same_type msg msgs) (R (sm_goType msg))))) msgs)"

lemma produce_all_calls:
  "produce_all p ctx at calls w = run_calls ctx at (map (\<lambda>(tp, msg). (tp, msg, the (bp_producers p (tp, sm_goType msg)))) calls) w"
  by (induction calls arbitrary: w) (auto split: prod.split option.split)

lemma schedule_calls_registered:
  assumes "bus_holds type_name q log p"
  shows "map (\<lambda>(tp, msg). (tp, msg, the (bp_producers p (tp, sm_goType msg)))) (schedule_calls p msgs)
    = registered_calls (registered_producers q log) msgs"
proof -
  let ?R = "registered_producers q log"
  have eq: "map (\<lambda>tp. (tp, msg, the (bp_producers p (tp, sm_goType msg)))) (topics_of p (sm_goType msg)) = map (\<lambda>(tp, f). (tp, msg, f)) (?R (sm_goType msg))"
    for msg
  proof -
    have "\<forall>(tp, f) \<in> set (?R (sm_goType msg)). bp_producers p (tp, sm_goType msg) = Some f"
      using bus_holds_producers [OF assms] by blast
    then show ?thesis unfolding bus_holds_topics [OF assms] by auto
  qed
  have rep: "map (\<lambda>tp. (tp, msg, the (bp_producers p (tp, sm_goType msg)))) (concat (replicate n (topics_of p (sm_goType msg))))
      = map (\<lambda>(tp, f). (tp, msg, f)) (concat (replicate n (?R (sm_goType msg))))" for msg n
    by (induction n) (simp_all add: eq)
  show ?thesis
    unfolding schedule_calls_def registered_calls_def map_concat [of _ "map _ msgs"] by (simp only: map_map comp_def prod.case rep)
qed

text \<open>
  C18. After any sequence of \<^verbatim>\<open>Register\<close> calls on a new bus, producing a batch calls, for each message, the producer of
  every topic its Go type was registered for in any of the calls - no topic lost, none added, in the
  order of the registrations, each with the options of its call and the key builder of its message - up to the first error, or,
  if the type of one message was never registered, fails before anything is produced.  When the messages of the batch have different Go
  types, each goes exactly once to each of its topics, in the order of the batch.
\<close>

theorem bus_produces_to_registered_topics:
  assumes "q = NewBusProducer produce j opts0 \<or> q = NewBusScheduledProducer S j opts0"
    and "\<forall>(regs, opts) \<in> set calls. \<forall>(tp, fns) \<in> set regs. \<forall>(schema, kb) \<in> set fns. sm_Type schema = type_name (sm_goType schema)"
    and "Register_each calls q = (None, p)"
    and "R = registered_producers q (registrations q calls)"
  shows "(if \<forall>msg \<in> set msgs. R (sm_goType msg) \<noteq> []
          then scheduleImpl p ctx at msgs w = run_calls ctx at (registered_calls R msgs) w
            \<and> (\<forall>tp msg f. (tp, msg, f) \<in> set (registered_calls R msgs) \<longleftrightarrow> msg \<in> set msgs \<and> (tp, f) \<in> set (R (sm_goType msg)))
            \<and> (distinct (map sm_goType msgs) \<longrightarrow>
                 registered_calls R msgs = [(tp, msg, f). msg \<leftarrow> msgs, (tp, f) \<leftarrow> R (sm_goType msg)]
                 \<and> distinct (map (\<lambda>(tp, msg, f). (tp, msg)) (registered_calls R msgs)))
          else scheduleImpl p ctx at msgs w = (Some (errors_new ''unknown message type''), w))"
proof -
  have "bus_holds type_name q [] q"
    using assms(1) by (auto simp: bus_holds_def registered_producers_def NewBusProducer_def NewBusScheduledProducer_def)
  from Register_each_holds [OF assms(3) this assms(2)] have h: "bus_holds type_name q (registrations q calls) p" by simp
  note ok = bus_holds_ok [OF h]
  have k: "known p msg \<longleftrightarrow> R (sm_goType msg) \<noteq> []" for msg using h assms(4) by (simp add: bus_holds_def Let_def known_def)
  have run: "produce_all p ctx at (schedule_calls p msgs) w = run_calls ctx at (registered_calls R msgs) w"
    unfolding produce_all_calls schedule_calls_registered [OF h] assms(4) ..
  have mem: "(tp, msg, f) \<in> set (registered_calls R msgs) \<longleftrightarrow> msg \<in> set msgs \<and> (tp, f) \<in> set (R (sm_goType msg))" for tp msg f
  proof -
    have "msg \<in> set msgs \<Longrightarrow> same_type msg msgs > 0" by (auto simp: filter_empty_conv)
    then have "set (concat (replicate (same_type m msgs) (R (sm_goType m)))) = set (R (sm_goType m))" if "m \<in> set msgs" for m
      using that by (auto simp: filter_empty_conv)
    then have "(tp, msg, f) \<in> set (registered_calls R msgs) \<longleftrightarrow>
        (\<exists>m \<in> set msgs. (tp, msg, f) \<in> (\<lambda>(tp, f). (tp, m, f)) ` set (R (sm_goType m)))"
      unfolding registered_calls_def by (simp del: set_concat add: set_concat [of "map _ msgs"] cong: bex_cong)
    then show ?thesis by (force simp: image_iff)
  qed
  have "registered_calls R msgs = [(tp, msg, f). msg \<leftarrow> msgs, (tp, f) \<leftarrow> R (sm_goType msg)]" if "distinct (map sm_goType msgs)"
    unfolding registered_calls_def using same_type_distinct [OF that]
    by (intro arg_cong [of _ _ concat] map_cong) (simp_all add: concat_map_singleton case_prod_unfold)
  moreover have "map (\<lambda>(tp, msg, f). (tp, msg)) (registered_calls R msgs) = schedule_calls p msgs"
    unfolding assms(4) schedule_calls_registered [OF h, symmetric] by (simp add: comp_def case_prod_unfold)
  moreover have "distinct (schedule_calls p msgs)" if d: "distinct (map sm_goType msgs)"
    unfolding schedule_calls_distinct [OF d] using d ok by (induction msgs) (auto simp: bus_ok_def distinct_map inj_on_def)
  ultimately show ?thesis using scheduleImpl_eq [OF ok] run k mem by (auto simp: list_all_iff)
qed

definition example_event :: "nat \<Rightarrow> structured_message" where
  "example_event n = \<lparr>sm_goType = ''UserDeleted'', sm_ID = of_nat n, sm_Type = ''user_deleted'',
     sm_AggregateID = 7, sm_Content = []\<rparr>"

definition example_codec :: json_codec where
  "example_codec = \<lparr>marshal_value = (\<lambda>m. Inr (sm_Content m)),
     marshal_envelope = (\<lambda>j. Inr (jm_Payload j)),
     unmarshal_envelope = (\<lambda>s. Inr \<lparr>jm_Type = ''user_deleted'', jm_Payload = s, jm_Meta = []\<rparr>)\<rparr>"

text \<open>A broker that keeps what it is given.\<close>

definition example_bus :: "message list bus_producer" where
  "example_bus = snd (Register [(''t'', [RegisterEvent (\<lambda>_. ''k'') (example_event 0)])] []
     (NewBusProducer (\<lambda>_ m b. (None, b @ [m])) example_codec []))"

definition example_bus_world :: "message list bus_world" where
  "example_bus_world = \<lparr>bw_state = [], bw_obs = [], bw_clock = (\<lambda>_. 0), bw_ticks = 0\<rparr>"

lemmas bus_eval = example_bus_def Register_def RegisterEvent_def example_event_def NewBusProducer_def
  apply_options_def registerImpl_def buildProducer_def topics_of_def Let_def

text \<open>One Go type registered for two topics by two calls: an event goes to both.\<close>

definition example_bus_registrations where
  "example_bus_registrations = [([(''t'', [RegisterEvent (\<lambda>_. ''k'') (example_event 0)])], []),
     ([(''u'', [RegisterTask (example_event 0)])], [])]"

theorem bus_produces_to_registered_topics_witness:
  "\<exists>p. Register_each example_bus_registrations (NewBusProducer (\<lambda>_ m b. (None, b @ [m])) example_codec []) = (None, p)
    \<and> map (\<lambda>m. (msg_Topic m, msg_Key m, msg_ID m)) (bw_state (snd (scheduleImpl p background None [example_event 1] example_bus_world)))
        = [(''t'', ''k'', 1), (''u'', [], 1)]"
proof -
  define q :: "message list bus_producer" where "q = NewBusProducer (\<lambda>_ m b. (None, b @ [m])) example_codec []"
  define R where "R = registered_producers q (registrations q example_bus_registrations)"
  note eval = bus_eval q_def example_bus_registrations_def RegisterTask_def
  obtain p where p: "Register_each example_bus_registrations q = (None, p)" by (simp add: eval)
  have "\<forall>(regs, opts) \<in> set (example_bus_registrations :: (_ \<times> message list bus_producer_option list) list).
      \<forall>(tp, fns) \<in> set regs. \<forall>(schema, kb) \<in> set fns. sm_Type schema = (\<lambda>_. ''user_deleted'') (sm_goType schema)"
    by (simp add: example_bus_registrations_def RegisterEvent_def RegisterTask_def example_event_def)
  note prod = bus_produces_to_registered_topics [OF disjI1 [OF q_def] this p R_def, where msgs = "[example_event 1]"]
  have R: "R ''UserDeleted'' = [(''t'', buildProducer q \<lparr>Middlewares = [], MetadataBuilders = []\<rparr>
        (Some (\<lambda>msg. if sm_goType msg = ''UserDeleted'' then ''k'' else []))),
      (''u'', buildProducer q \<lparr>Middlewares = [], MetadataBuilders = []\<rparr> None)]"
    unfolding R_def by (simp add: registered_producers_def registrations_def example_bus_registrations_def RegisterEvent_def
        RegisterTask_def example_event_def q_def NewBusProducer_def apply_options_def)
  have "scheduleImpl p background None [example_event 1] example_bus_world
      = run_calls background None (registered_calls R [example_event 1]) example_bus_world"
    using prod [of background None example_bus_world] R by (simp add: example_event_def)
  moreover have "registered_calls R [example_event 1] = map (\<lambda>(tp, f). (tp, example_event 1, f)) (R ''UserDeleted'')"
    by (simp add: registered_calls_def example_event_def)
  moreover have "map (\<lambda>m. (msg_Topic m, msg_Key m, msg_ID m)) (bw_state (snd (run_calls background None
      (map (\<lambda>(tp, f). (tp, example_event 1, f)) (R ''UserDeleted'')) example_bus_world))) = [(''t'', ''k'', 1), (''u'', [], 1)]"
    unfolding R by (simp add: example_event_def buildProducer_def produce_base_def serializePayloadImpl_def
        Serialize_def example_codec_def example_bus_world_def q_def NewBusProducer_def)
  ultimately have "map (\<lambda>m. (msg_Topic m, msg_Key m, msg_ID m))
      (bw_state (snd (scheduleImpl p background None [example_event 1] example_bus_world))) = [(''t'', ''k'', 1), (''u'', [], 1)]" by simp
  with p show ?thesis unfolding q_def by (intro exI [of _ p] conjI)
qed

lemma count_list_concat: "count_list (concat xss) x = (\<Sum>xs \<leftarrow> xss. count_list xs x)"
  by (induction xss) simp_all

lemma count_list_one: "distinct xs \<Longrightarrow> x \<in> set xs \<Longrightarrow> count_list xs x = 1"
  by (induction xs) (auto simp: count_list_0_iff)

lemma count_list_pair:
  "count_list (map (\<lambda>tp. (tp, m)) ts) (tp, msg) = (if m = msg then count_list ts tp else 0)"
  by (induction ts) auto

lemma sum_list_single:
  "distinct ms \<Longrightarrow> m \<in> set ms \<Longrightarrow> (\<Sum>x \<leftarrow> ms. if x = m then f x else 0) = (f m :: nat)"
  by (induction ms) (auto simp: sum_list_0 cong: map_cong)

text \<open>
  A batch with several messages of one Go type is produced too often: with \<open>k\<close> messages of the
  type, each of them is handed \<open>k\<close> times to each of its topics.
\<close>

theorem bus_duplicates_same_type:
  assumes "bus_ok type_name p" and "msg \<in> set msgs" and "tp \<in> set (topics_of p (sm_goType msg))"
    and "distinct msgs"
  shows "count_list (schedule_calls p msgs) (tp, msg)
    = length (filter (\<lambda>m. sm_goType m = sm_goType msg) msgs)"
proof -
  have one: "count_list (topics_of p (sm_goType msg)) tp = 1"
    using assms(1,3) by (intro count_list_one) (auto simp: bus_ok_def)
  have "count_list (schedule_calls p msgs) (tp, msg)
      = (\<Sum>m \<leftarrow> msgs. if m = msg then count_list (concat (replicate (same_type m msgs) (topics_of p (sm_goType m)))) tp else 0)"
    unfolding schedule_calls_def count_list_concat [of "map _ msgs"] map_map comp_def count_list_pair ..
  also have "\<dots> = count_list (concat (replicate (same_type msg msgs) (topics_of p (sm_goType msg)))) tp"
    using assms(4,2) by (rule sum_list_single)
  also have "\<dots> = same_type msg msgs"
    by (simp add: count_list_concat one sum_list_replicate)
  finally show ?thesis .
qed

theorem bus_duplicates_same_type_witness:
  "count_list (schedule_calls example_bus [example_event 1, example_event 2]) (''t'', example_event 2) = 2
   \<and> map msg_ID (bw_state (snd (bus_Produce example_bus background [example_event 1, example_event 2]
        example_bus_world))) = [1, 1, 2, 2]"
proof
  have "registerImpl ''t'' (RegisterEvent (\<lambda>_. ''k'') (example_event 0)) \<lparr>Middlewares = [], MetadataBuilders = []\<rparr>
      (NewBusProducer (\<lambda>_ m b. (None, b @ [m])) example_codec []) = (None, example_bus)"
    by (simp add: bus_eval)
  from registerImpl_ok [OF this bus_ok_new(1)]
  have ok: "bus_ok (\<lambda>_. ''user_deleted'') example_bus" by (simp add: RegisterEvent_def example_event_def)
  have "topics_of example_bus ''UserDeleted'' = [''t'']" by (simp add: bus_eval)
  with bus_duplicates_same_type [OF ok, of "example_event 2" "[example_event 1, example_event 2]" "''t''"]
  show "count_list (schedule_calls example_bus [example_event 1, example_event 2]) (''t'', example_event 2) = 2"
    by (simp add: example_event_def)
  show "map msg_ID (bw_state (snd (bus_Produce example_bus background [example_event 1, example_event 2]
        example_bus_world))) = [1, 1, 2, 2]"
    by (simp add: bus_eval bus_Produce_def scheduleImpl_def produce_base_def serializePayloadImpl_def
        Serialize_def example_codec_def example_bus_world_def)
qed

text \<open>
  Deserializing what was serialized gives back the message and its metadata, when a deserializer
  for the message's type is registered and reads what \<^verbatim>\<open>json.Marshal\<close> writes; without one, or for a text
  that is no envelope, the error is \<^verbatim>\<open>ErrDeserializeUnknownMessage\<close>.
\<close>

theorem serializer_round_trip:
  assumes "\<forall>m text. marshal_envelope j m = Inr text \<longrightarrow> unmarshal_envelope j text = Inr m"
    and "Serialize j msg meta = Inr data"
  shows "(\<forall>payload. marshal_value j msg = Inr payload \<longrightarrow> ds (sm_Type msg) = Some (PayloadDeserializerImpl unmarshal_T)
        \<longrightarrow> unmarshal_T payload = Inr msg \<longrightarrow> Deserialize j ds data = Inr (msg, meta))
    \<and> (ds (sm_Type msg) = None \<longrightarrow>
        (\<exists>e. Deserialize j ds data = Inl e \<and> error_is e ErrDeserializeUnknownMessage))"
  using assms by (auto simp: Serialize_def Deserialize_def PayloadDeserializerImpl_def split: sum.splits)

theorem serializer_round_trip_witness:
  "\<exists>data. Serialize example_codec (example_event 1) [] = Inr data
    \<and> Deserialize example_codec [''user_deleted'' \<mapsto> PayloadDeserializerImpl (\<lambda>_. Inr (example_event 1))] data
        = Inr (example_event 1, [])"
proof -
  let ?j = "example_codec\<lparr>marshal_envelope := (\<lambda>m. if jm_Type m = ''user_deleted'' \<and> jm_Meta m = []
      then Inr (jm_Payload m) else Inl (errors_new []))\<rparr>"
  have h: "\<forall>m text. marshal_envelope ?j m = Inr text \<longrightarrow> unmarshal_envelope ?j text = Inr m"
    by (auto simp: example_codec_def split: if_splits)
  obtain data where s: "Serialize ?j (example_event 1) [] = Inr data" "marshal_value ?j (example_event 1) = Inr data"
    by (simp add: Serialize_def example_codec_def example_event_def)
  have "Deserialize ?j [''user_deleted'' \<mapsto> PayloadDeserializerImpl (\<lambda>_. Inr (example_event 1))] data
      = Inr (example_event 1, [])"
    using serializer_round_trip [OF h s(1), of "[''user_deleted'' \<mapsto> PayloadDeserializerImpl (\<lambda>_. Inr (example_event 1))]"] s(2)
    by (simp add: example_event_def)
  then show ?thesis
    using s by (auto simp: Serialize_def Deserialize_def example_codec_def example_event_def)
qed

end
