(* ===== verification/Listener.thy ===== *)
theory Listener
  imports Listener_Queue Bus_Producer
begin

text \<open>
  The consuming side of the message bus: \<^verbatim>\<open>listener.go\<close>, \<^verbatim>\<open>buslistener.go\<close> and
  \<^verbatim>\<open>metadata.go\<close> of \<^verbatim>\<open>pkg/message\<close>.

  Handlers act on a world of which the application part is arbitrary.  The metadata of the message
  in work is reached through the context by pointer, so its \<^verbatim>\<open>Panic\<close> field is part of the world.  The
  processing of one message is a step relation: handler attempts of a group interleave freely, the
  context may be cancelled at any moment, and \<^verbatim>\<open>backoff.Retry\<close> is in it as documented - after an
  error the operation is tried again or given up, after a permanent error or a cancelled context it is
  given up.
\<close>

section \<open>Handlers and their middlewares\<close>

record handler_metadata =
  hm_MessageID :: uuid
  hm_MessageTopic :: topic
  hm_MessageMetadata :: metadata

text \<open>The context of a handler: \<open>hc_meta\<close> is what is stored under \<^verbatim>\<open>handlerMetaContextKey\<close>.\<close>

record handler_ctx =
  hc_base :: sql_ctx
  hc_meta :: "handler_metadata option"

record 'w handler_world =
  hw_app :: 'w
  hw_panic :: bool
  hw_obs :: "obs list"
  hw_uuids :: "nat \<Rightarrow> uuid"
  hw_used :: nat

type_synonym 'w handler = "handler_ctx \<Rightarrow> structured_message \<Rightarrow> 'w handler_world \<Rightarrow> err outcome \<times> 'w handler_world"

type_synonym 'w handler_middleware = "'w handler \<Rightarrow> 'w handler"

definition withHandlerMetadata :: "handler_ctx \<Rightarrow> message \<Rightarrow> metadata \<Rightarrow> handler_ctx" where
  "withHandlerMetadata ctx m data =
     ctx\<lparr>hc_meta := Some \<lparr>hm_MessageID = msg_ID m, hm_MessageTopic = msg_Topic m, hm_MessageMetadata = data\<rparr>\<rparr>"

definition GetHandlerMetadata :: "handler_ctx \<Rightarrow> handler_metadata" where
  "GetHandlerMetadata ctx =
     (case hc_meta ctx of
        Some meta \<Rightarrow> meta
      | None \<Rightarrow> \<lparr>hm_MessageID = uuid_nil, hm_MessageTopic = [], hm_MessageMetadata = []\<rparr>)"

text \<open>A panic is recorded in the metadata of the context; without one the record is a fresh object
  nobody sees.\<close>

definition wrapWithPanicHandler :: "'w handler_middleware" where
  "wrapWithPanicHandler handler ctx msg w =
     (case handler ctx msg w of
        (Returns e, w') \<Rightarrow> (Returns e, w')
      | (Panics, w') \<Rightarrow>
          (Returns (Some (errors_new ''message handled with panic'')),
           if hc_meta ctx = None then w' else w'\<lparr>hw_panic := True\<rparr>))"

definition wrap_handler :: "'w handler_middleware list \<Rightarrow> 'w handler \<Rightarrow> 'w handler" where
  "wrap_handler mws handler = foldr (\<lambda>mw h. mw h) mws (wrapWithPanicHandler handler)"

definition WithHandlerErrorMapping :: "(err \<Rightarrow> err) \<Rightarrow> 'w handler_middleware" where
  "WithHandlerErrorMapping fn handler ctx msg w =
     (case handler ctx msg w of
        (Returns e, w') \<Rightarrow> (Returns (fn e), w')
      | (Panics, w') \<Rightarrow> (Panics, w'))"

definition WithHandlerIdempotencyKeyErrorIgnoring :: "'w handler_middleware" where
  "WithHandlerIdempotencyKeyErrorIgnoring =
     WithHandlerErrorMapping (\<lambda>e. if errors_is e (Some ErrAlreadyInserted) then None else e)"

definition fresh_uuid :: "'w handler_world \<Rightarrow> uuid \<times> 'w handler_world" where
  "fresh_uuid w = (hw_uuids w (hw_used w), w\<lparr>hw_used := Suc (hw_used w)\<rparr>)"

definition observe :: "obs list \<Rightarrow> 'w handler_world \<Rightarrow> 'w handler_world" where
  "observe os w = w\<lparr>hw_obs := hw_obs w @ os\<rparr>"

definition handled_fields :: "handler_metadata \<Rightarrow> structured_message \<Rightarrow> fields" where
  "handled_fields meta msg =
     [(''handledMessage'', FFields [(''id'', FUuid (hm_MessageID meta)), (''type'', FStr (sm_Type msg)),
        (''topic'', FStr (hm_MessageTopic meta))])]"

definition WithHandlerLogging_mw :: "logger \<Rightarrow> level \<Rightarrow> level \<Rightarrow> 'w handler_middleware" where
  "WithHandlerLogging_mw l infoLevel errorLevel handler ctx msg w =
     (let meta = GetHandlerMetadata ctx;
          (u, w0) = fresh_uuid w;
          base = (hc_base ctx)\<lparr>cx_log := log_WithContext l (cx_log (hc_base ctx)) [(''handlerCorrelation'', FUuid u)]\<rparr>;
          ctx' = ctx\<lparr>hc_base := base\<rparr>
      in case handler ctx' msg w0 of
           (Panics, w1) \<Rightarrow> (Panics, w1)
         | (Returns e, w1) \<Rightarrow>
             (let l' = log_With l (handled_fields meta msg);
                  os = (if hc_meta ctx \<noteq> None \<and> hw_panic w1
                        then log_Error (log_WithField l' ''panic'' (FFields [])) (Some (cx_log base)) ''message handled with panic''
                        else if e \<noteq> None
                        then log_Log (log_WithError l' e) (Some (cx_log base)) errorLevel ''message handled with error''
                        else log_Log l' (Some (cx_log base)) infoLevel ''message handled'')
              in (Returns e, observe (written os) w1)))"

definition WithHandlerMetrics :: "metrics \<Rightarrow> 'w handler_middleware" where
  "WithHandlerMetrics m handler ctx msg w =
     (case handler ctx msg w of
        (Panics, w1) \<Rightarrow> (Panics, w1)
      | (Returns e, w1) \<Rightarrow>
          (let meta = GetHandlerMetadata ctx;
               labels = [(''topic'', FStr (hm_MessageTopic meta)), (''type'', FStr (sm_Type msg))];
               panics = (if hc_meta ctx \<noteq> None \<and> hw_panic w1
                         then met_Increment (met_With m labels) ''msg_handle_panics_total'' else [])
           in (Returns e, observe (panics @
                 met_Duration (met_With m (labels @ [(''success'', FBool (e = None))])) ''msg_handle_duration_seconds'') w1)))"

definition WithHandlerObservability :: "observer \<Rightarrow> string list \<Rightarrow> 'w handler_middleware" where
  "WithHandlerObservability ob fs handler ctx msg w =
     (let md = hm_MessageMetadata (GetHandlerMetadata ctx);
          base = fold (\<lambda>field c. case map_of md (observabilityMetaKeyPrefix @ field) of
                     Some v \<Rightarrow> if v \<noteq> [] then observer_WithField ob c field v else c
                   | None \<Rightarrow> c) fs (hc_base ctx)
      in handler (ctx\<lparr>hc_base := base\<rparr>) msg w)"

section \<open>Processing one message\<close>

text \<open>What \<^verbatim>\<open>processMessage\<close> works with: deserializer, handlers per message type, and the queue's
  \<^verbatim>\<open>AcknowledgeResult\<close>.\<close>

record ('w, 'q) listener =
  ln_Deserialize :: "string \<Rightarrow> go_error + structured_message \<times> metadata"
  ln_handlers :: "string \<rightharpoonup> 'w handler list"
  ln_ack :: "consumer_message \<Rightarrow> err \<Rightarrow> 'q \<Rightarrow> (err \<times> 'q) option"

text \<open>\<^verbatim>\<open>NewListener\<close> wraps every handler: the panic handler inside, the first middleware outermost.\<close>

definition NewListener ::
    "(string \<Rightarrow> go_error + structured_message \<times> metadata) \<Rightarrow> (string \<rightharpoonup> 'w handler list)
      \<Rightarrow> (consumer_message \<Rightarrow> err \<Rightarrow> 'q \<Rightarrow> (err \<times> 'q) option) \<Rightarrow> 'w handler_middleware list \<Rightarrow> ('w, 'q) listener" where
  "NewListener deserialize handlers ack mws =
     \<lparr>ln_Deserialize = deserialize,
      ln_handlers = (\<lambda>ty. map_option (map (wrap_handler mws)) (handlers ty)),
      ln_ack = ack\<rparr>"

datatype phase =
    PStart
  | PSkip
  | PLoop
  | PGroup structured_message metadata "err option list" err
  | PAck bool err
  | PDone

text \<open>Handler \<open>i\<close> was called and returned; an acknowledgement of a result was attempted.\<close>

datatype levent = LHandled nat err | LAck err err

record ('w, 'q) processing =
  pr_phase :: phase
  pr_world :: "'w handler_world"
  pr_queue :: 'q
  pr_cancelled :: bool
  pr_trace :: "levent list"

abbreviation ctx_err :: "('w, 'q) processing \<Rightarrow> sentinel option" where
  "ctx_err s \<equiv> if pr_cancelled s then Some ContextCanceled else None"

abbreviation log_event :: "levent \<Rightarrow> ('w, 'q) processing \<Rightarrow> ('w, 'q) processing" where
  "log_event ev s \<equiv> s\<lparr>pr_trace := pr_trace s @ [ev]\<rparr>"

text \<open>
  \<open>m\<close> is the message in work and \<open>c\<close> its context after the \<^verbatim>\<open>OnBeforeHandleMessage\<close> hooks.  An attempt to
  acknowledge returns at once, without asking the queue, when the result is the cancellation.  The retry of a handler that
  failed may be given up while it waits for its next attempt, when the context ends.
\<close>

inductive process_step ::
    "('w, 'q) listener \<Rightarrow> consumer_message \<Rightarrow> handler_ctx \<Rightarrow> ('w, 'q) processing \<Rightarrow> ('w, 'q) processing \<Rightarrow> bool"
  for L m c where
  cancel: "process_step L m c s (s\<lparr>pr_cancelled := True\<rparr>)"
| start_unknown: "pr_phase s = PStart \<Longrightarrow> ln_Deserialize L (msg_Payload (cm_Message m)) = Inl e \<Longrightarrow>
    process_step L m c s (s\<lparr>pr_phase := PSkip\<rparr>)"
| start_no_handler: "pr_phase s = PStart \<Longrightarrow>
    ln_Deserialize L (msg_Payload (cm_Message m)) = Inr (msg, meta) \<Longrightarrow>
    ln_handlers L (sm_Type msg) = None \<Longrightarrow>
    process_step L m c s (s\<lparr>pr_phase := PSkip\<rparr>)"
| start_handle: "pr_phase s = PStart \<Longrightarrow>
    ln_Deserialize L (msg_Payload (cm_Message m)) = Inr (msg, meta) \<Longrightarrow>
    ln_handlers L (sm_Type msg) = Some hs \<Longrightarrow>
    process_step L m c s (s\<lparr>pr_phase := PLoop\<rparr>)"
| skip_cancelled: "pr_phase s = PSkip \<Longrightarrow> pr_cancelled s \<Longrightarrow> process_step L m c s (s\<lparr>pr_phase := PDone\<rparr>)"
| skip_ack: "pr_phase s = PSkip \<Longrightarrow> \<not> pr_cancelled s \<Longrightarrow> process_step L m c s (s\<lparr>pr_phase := PAck False None\<rparr>)"
| loop_cancelled: "pr_phase s = PLoop \<Longrightarrow> pr_cancelled s \<Longrightarrow> process_step L m c s (s\<lparr>pr_phase := PDone\<rparr>)"
| loop_group: "pr_phase s = PLoop \<Longrightarrow> \<not> pr_cancelled s \<Longrightarrow>
    ln_Deserialize L (msg_Payload (cm_Message m)) = Inr (msg, meta) \<Longrightarrow>
    ln_handlers L (sm_Type msg) = Some hs \<Longrightarrow>
    process_step L m c s (s\<lparr>pr_phase := PGroup msg meta (replicate (length hs) None) None\<rparr>)"
| handler_ok: "pr_phase s = PGroup msg meta sts ge \<Longrightarrow> ln_handlers L (sm_Type msg) = Some hs \<Longrightarrow>
    i < length sts \<Longrightarrow> sts ! i = None \<Longrightarrow>
    (hs ! i) (withHandlerMetadata c (cm_Message m) meta) msg (pr_world s) = (Returns None, w) \<Longrightarrow>
    process_step L m c s
      (log_event (LHandled i None) (s\<lparr>pr_phase := PGroup msg meta (sts[i := Some None]) ge, pr_world := w\<rparr>))"
| handler_retry: "pr_phase s = PGroup msg meta sts ge \<Longrightarrow> ln_handlers L (sm_Type msg) = Some hs \<Longrightarrow>
    i < length sts \<Longrightarrow> sts ! i = None \<Longrightarrow>
    (hs ! i) (withHandlerMetadata c (cm_Message m) meta) msg (pr_world s) = (Returns (Some e), w) \<Longrightarrow>
    process_step L m c s (log_event (LHandled i (Some e)) (s\<lparr>pr_world := w\<rparr>))"
| handler_failed: "pr_phase s = PGroup msg meta sts ge \<Longrightarrow> ln_handlers L (sm_Type msg) = Some hs \<Longrightarrow>
    i < length sts \<Longrightarrow> sts ! i = None \<Longrightarrow>
    (hs ! i) (withHandlerMetadata c (cm_Message m) meta) msg (pr_world s) = (Returns (Some e), w) \<Longrightarrow>
    e' = e \<or> pr_cancelled s \<and> e' = Sentinel ContextCanceled \<Longrightarrow>
    process_step L m c s
      (log_event (LHandled i (Some e))
        (s\<lparr>pr_phase := PGroup msg meta (sts[i := Some (Some e')]) (if ge = None then Some e' else ge), pr_world := w\<rparr>))"
| handler_abandoned: "pr_phase s = PGroup msg meta sts ge \<Longrightarrow> i < length sts \<Longrightarrow> sts ! i = None \<Longrightarrow>
    LHandled i (Some e) \<in> set (pr_trace s) \<Longrightarrow> pr_cancelled s \<Longrightarrow> e' = Sentinel ContextCanceled \<Longrightarrow>
    process_step L m c s
      (s\<lparr>pr_phase := PGroup msg meta (sts[i := Some (Some e')]) (if ge = None then Some e' else ge)\<rparr>)"
| group_wait: "pr_phase s = PGroup msg meta sts ge \<Longrightarrow> None \<notin> set sts \<Longrightarrow>
    process_step L m c s (s\<lparr>pr_phase := PAck True ge\<rparr>)"
| ack_cancelled: "pr_phase s = PAck b r \<Longrightarrow> r \<noteq> None \<Longrightarrow> errors_is r (ctx_err s) \<Longrightarrow>
    process_step L m c s (s\<lparr>pr_phase := if b then PLoop else PSkip\<rparr>)"
| ack_ok: "pr_phase s = PAck b r \<Longrightarrow> \<not> (r \<noteq> None \<and> errors_is r (ctx_err s)) \<Longrightarrow>
    ln_ack L m r (pr_queue s) = Some (None, q) \<Longrightarrow>
    process_step L m c s (log_event (LAck r None) (s\<lparr>pr_phase := PDone, pr_queue := q\<rparr>))"
| ack_retry: "pr_phase s = PAck b r \<Longrightarrow> \<not> (r \<noteq> None \<and> errors_is r (ctx_err s)) \<Longrightarrow>
    ln_ack L m r (pr_queue s) = Some (Some e, q) \<Longrightarrow> \<not> error_is e ErrNegativeAckNotSupported \<Longrightarrow>
    process_step L m c s (log_event (LAck r (Some e)) (s\<lparr>pr_queue := q\<rparr>))"
| ack_failed: "pr_phase s = PAck b r \<Longrightarrow> \<not> (r \<noteq> None \<and> errors_is r (ctx_err s)) \<Longrightarrow>
    ln_ack L m r (pr_queue s) = Some (Some e, q) \<Longrightarrow>
    process_step L m c s (log_event (LAck r (Some e)) (s\<lparr>pr_phase := if b then PLoop else PSkip, pr_queue := q\<rparr>))"

definition processing_start :: "'w handler_world \<Rightarrow> 'q \<Rightarrow> ('w, 'q) processing" where
  "processing_start w q = \<lparr>pr_phase = PStart, pr_world = w, pr_queue = q, pr_cancelled = False, pr_trace = []\<rparr>"

section \<open>When a message is acknowledged\<close>

text \<open>All \<open>n\<close> handlers have succeeded in the trace.\<close>

definition all_handled :: "nat \<Rightarrow> levent list \<Rightarrow> bool" where
  "all_handled n tr \<longleftrightarrow> (\<forall>i < n. LHandled i None \<in> set tr)"

text \<open>A positive acknowledgement only after all handlers have succeeded.\<close>

definition acks_justified :: "nat \<Rightarrow> levent list \<Rightarrow> bool" where
  "acks_justified n tr \<longleftrightarrow> (\<forall>pre e post. tr = pre @ LAck None e # post \<longrightarrow> all_handled n pre)"

lemma all_handled_snoc: "all_handled n tr \<Longrightarrow> all_handled n (tr @ evs)"
  by (auto simp: all_handled_def)

lemma acks_justified_snoc:
  "acks_justified n tr \<Longrightarrow> (\<And>e. ev = LAck None e \<Longrightarrow> all_handled n tr) \<Longrightarrow> acks_justified n (tr @ [ev])"
  unfolding acks_justified_def
  by (metis append_eq_append_conv2 append_is_Nil_conv butlast.simps(2) butlast_append butlast_snoc
      last_ConsL last_appendR last_snoc list.distinct(1))

fun phase_ok :: "nat \<Rightarrow> levent list \<Rightarrow> phase \<Rightarrow> bool" where
  "phase_ok n tr (PGroup msg meta sts ge) \<longleftrightarrow>
     length sts = n \<and> (\<forall>i < n. sts ! i = Some None \<longrightarrow> LHandled i None \<in> set tr)
     \<and> (ge = None \<longrightarrow> (\<forall>i < n. \<forall>e. sts ! i \<noteq> Some (Some e)))"
| "phase_ok n tr (PAck b r) \<longleftrightarrow> b \<and> (r = None \<longrightarrow> all_handled n tr)"
| "phase_ok n tr PSkip \<longleftrightarrow> False"
| "phase_ok n tr PStart \<longleftrightarrow> tr = []"
| "phase_ok n tr PLoop \<longleftrightarrow> True"
| "phase_ok n tr PDone \<longleftrightarrow> True"

definition done_ok :: "('w, 'q) processing \<Rightarrow> bool" where
  "done_ok s \<longleftrightarrow>
     (if \<exists>r. LAck r None \<in> set (pr_trace s)
      then pr_phase s = PDone \<and> (\<exists>tr r. pr_trace s = tr @ [LAck r None] \<and> (\<forall>r'. LAck r' None \<notin> set tr))
      else pr_phase s = PDone \<longrightarrow> pr_cancelled s)"

lemma done_ok_steps:
  assumes "process_step L m c s s'" and "done_ok s"
  shows "done_ok s'"
  using assms(1) by cases (use assms(2) in \<open>auto simp: done_ok_def split: if_splits\<close>)

lemma process_step_inv:
  assumes step: "process_step L m c s s'"
    and d: "ln_Deserialize L (msg_Payload (cm_Message m)) = Inr (msg, meta)"
    and h: "ln_handlers L (sm_Type msg) = Some hs"
    and p: "phase_ok (length hs) (pr_trace s) (pr_phase s)"
    and a: "acks_justified (length hs) (pr_trace s)"
  shows "phase_ok (length hs) (pr_trace s') (pr_phase s') \<and> acks_justified (length hs) (pr_trace s')"
  using step
proof cases
  case (handler_ok msg' meta' sts ge hs' i w)
  with p a show ?thesis by (auto simp: nth_list_update intro!: acks_justified_snoc)
next
  case (handler_failed msg' meta' sts ge hs' i e w e')
  with p a show ?thesis by (auto simp: nth_list_update intro!: acks_justified_snoc)
next
  case (handler_abandoned msg' meta' sts ge i e e')
  with p a show ?thesis by (auto simp: nth_list_update)
next
  case (group_wait msg' meta' sts ge)
  have "all_handled (length hs) (pr_trace s)" if "ge = None"
    unfolding all_handled_def
  proof (intro allI impI)
    fix i assume i: "i < length hs"
    with p group_wait have "sts ! i \<in> set sts" by auto
    with group_wait have "sts ! i \<noteq> None" by metis
    with p group_wait i that show "LHandled i None \<in> set (pr_trace s)" by auto
  qed
  with group_wait a show ?thesis by simp
qed (use p a d h in \<open>auto intro!: acks_justified_snoc all_handled_snoc split: if_splits\<close>)

abbreviation processes :: "('w, 'q) listener \<Rightarrow> consumer_message \<Rightarrow> handler_ctx \<Rightarrow> 'w handler_world \<Rightarrow> 'q
    \<Rightarrow> ('w, 'q) processing \<Rightarrow> bool" where
  "processes L m c w q s \<equiv> (process_step L m c)\<^sup>*\<^sup>* (processing_start w q) s"

lemma processes_done_ok: "processes L m c w q s \<Longrightarrow> done_ok s"
  by (induction rule: rtranclp_induct) (auto simp: processing_start_def done_ok_def [of "processing_start w q"]
      done_ok_def [of "\<lparr>pr_phase = PStart, pr_world = w, pr_queue = q, pr_cancelled = False, pr_trace = []\<rparr>"]
      intro: done_ok_steps)

lemma processes_handled:
  assumes "processes L m c w q s" and "ln_Deserialize L (msg_Payload (cm_Message m)) = Inr (msg, meta)"
    and "ln_handlers L (sm_Type msg) = Some hs"
  shows "phase_ok (length hs) (pr_trace s) (pr_phase s) \<and> acks_justified (length hs) (pr_trace s)"
  using assms(1)
proof (induction rule: rtranclp_induct)
  case base
  then show ?case by (simp add: processing_start_def acks_justified_def)
next
  case (step s s')
  with process_step_inv [OF step(2) assms(2,3)] show ?case by blast
qed

text \<open>A message nobody handles is only acknowledged, never handled.\<close>

fun skip_phase :: "phase \<Rightarrow> bool" where
  "skip_phase (PGroup msg meta sts ge) \<longleftrightarrow> False"
| "skip_phase PLoop \<longleftrightarrow> False"
| "skip_phase (PAck b r) \<longleftrightarrow> \<not> b \<and> r = None"
| "skip_phase ph \<longleftrightarrow> True"

definition unhandled :: "('w, 'q) listener \<Rightarrow> consumer_message \<Rightarrow> bool" where
  "unhandled L m \<longleftrightarrow>
     (case ln_Deserialize L (msg_Payload (cm_Message m)) of
        Inl _ \<Rightarrow> True
      | Inr (msg, meta) \<Rightarrow> ln_handlers L (sm_Type msg) = None)"

lemma processes_unhandled:
  assumes "processes L m c w q s" and "unhandled L m"
  shows "skip_phase (pr_phase s) \<and> pr_world s = w \<and> (\<forall>ev \<in> set (pr_trace s). \<exists>e. ev = LAck None e)"
  using assms(1)
proof (induction rule: rtranclp_induct)
  case base
  then show ?case by (simp add: processing_start_def)
next
  case (step s s')
  from step(2) show ?case
    by cases (use step.IH assms(2) in \<open>auto simp: unhandled_def\<close>)
qed

text \<open>
  The listener acknowledges a message positively only after every handler registered for its type
  has succeeded, under any interleaving of handlers, retries and cancellation; a message it cannot
  deserialize or has no handler for is skipped without touching the application; the queue accepts at
  most one acknowledgement, which ends the processing, and without one the processing only ends
  when the context is cancelled.
\<close>

theorem listener_acknowledges_after_handling:
  assumes "(process_step L m c)\<^sup>*\<^sup>* (processing_start w q) s"
  shows "(case ln_Deserialize L (msg_Payload (cm_Message m)) of
        Inl _ \<Rightarrow> pr_world s = w \<and> (\<forall>ev \<in> set (pr_trace s). \<exists>e. ev = LAck None e)
      | Inr (msg, meta) \<Rightarrow>
          (case ln_handlers L (sm_Type msg) of
             None \<Rightarrow> pr_world s = w \<and> (\<forall>ev \<in> set (pr_trace s). \<exists>e. ev = LAck None e)
           | Some hs \<Rightarrow> \<forall>pre e post. pr_trace s = pre @ LAck None e # post \<longrightarrow>
               (\<forall>i < length hs. LHandled i None \<in> set pre)))
    \<and> (if \<exists>r. LAck r None \<in> set (pr_trace s)
       then pr_phase s = PDone \<and> (\<exists>tr r. pr_trace s = tr @ [LAck r None] \<and> (\<forall>r'. LAck r' None \<notin> set tr))
       else pr_phase s = PDone \<longrightarrow> pr_cancelled s)"
proof (rule conjI)
  show "case ln_Deserialize L (msg_Payload (cm_Message m)) of
        Inl _ \<Rightarrow> pr_world s = w \<and> (\<forall>ev \<in> set (pr_trace s). \<exists>e. ev = LAck None e)
      | Inr (msg, meta) \<Rightarrow>
          (case ln_handlers L (sm_Type msg) of
             None \<Rightarrow> pr_world s = w \<and> (\<forall>ev \<in> set (pr_trace s). \<exists>e. ev = LAck None e)
           | Some hs \<Rightarrow> \<forall>pre e post. pr_trace s = pre @ LAck None e # post \<longrightarrow>
               (\<forall>i < length hs. LHandled i None \<in> set pre))"
    using processes_unhandled [OF assms] processes_handled [OF assms]
    by (auto simp: unhandled_def acks_justified_def all_handled_def split: sum.split option.split)
  show "if \<exists>r. LAck r None \<in> set (pr_trace s)
       then pr_phase s = PDone \<and> (\<exists>tr r. pr_trace s = tr @ [LAck r None] \<and> (\<forall>r'. LAck r' None \<notin> set tr))
       else pr_phase s = PDone \<longrightarrow> pr_cancelled s"
    using processes_done_ok [OF assms] unfolding done_ok_def .
qed

definition example_consumer_message :: consumer_message where
  "example_consumer_message = \<lparr>cm_ptr = 0,
     cm_Message = \<lparr>msg_ID = 1, msg_Topic = ''t'', msg_Key = [], msg_Payload = ''p''\<rparr>\<rparr>"

definition example_handler_world :: "nat handler_world" where
  "example_handler_world = \<lparr>hw_app = 0, hw_panic = False, hw_obs = [], hw_uuids = (\<lambda>_. 0), hw_used = 0\<rparr>"

definition example_listener :: "(consumer_message \<Rightarrow> err \<Rightarrow> 'q \<Rightarrow> (err \<times> 'q) option) \<Rightarrow> (nat, 'q) listener" where
  "example_listener ack = NewListener (\<lambda>_. Inr (example_event 2, []))
     [''user_deleted'' \<mapsto> [\<lambda>_ _ w. (Returns None, w\<lparr>hw_app := Suc (hw_app w)\<rparr>)]] ack []"

definition background_handler :: handler_ctx where
  "background_handler = \<lparr>hc_base = background, hc_meta = None\<rparr>"

text \<open>A message with one handler, which succeeds.\<close>

lemma single_handler_processing:
  assumes ds: "ln_Deserialize L (msg_Payload (cm_Message m)) = Inr (msg, meta)" and hs: "ln_handlers L (sm_Type msg) = Some [handler]"
    and run: "handler (withHandlerMetadata c (cm_Message m) meta) msg w = (Returns None, w')" and ack: "ln_ack L m None q = Some (None, q')"
  shows "(process_step L m c)\<^sup>*\<^sup>* (processing_start w q)
    \<lparr>pr_phase = PDone, pr_world = w', pr_queue = q', pr_cancelled = False, pr_trace = [LHandled 0 None, LAck None None]\<rparr>"
proof -
  let ?step = "process_step L m c"
  let ?s0 = "processing_start w q"
  let ?s1 = "?s0\<lparr>pr_phase := PLoop\<rparr>"
  let ?s2 = "?s1\<lparr>pr_phase := PGroup msg meta (replicate (length [handler]) None) None\<rparr>"
  let ?s3 = "log_event (LHandled 0 None) (?s2\<lparr>pr_phase := PGroup msg meta [Some None] None, pr_world := w'\<rparr>)"
  let ?s4 = "?s3\<lparr>pr_phase := PAck True None\<rparr>"
  let ?s5 = "log_event (LAck None None) (?s4\<lparr>pr_phase := PDone, pr_queue := q'\<rparr>)"
  have "?step ?s0 ?s1" by (rule start_handle [OF _ ds hs]) (simp add: processing_start_def)
  moreover have "?step ?s1 ?s2" by (rule loop_group [OF _ _ ds hs]) (simp_all add: processing_start_def)
  moreover have "?step ?s2 ?s3"
    using handler_ok [OF _ hs, of ?s2 meta "[None]" None 0 c m w'] run by (simp add: processing_start_def)
  moreover have "?step ?s3 ?s4" by (rule group_wait) auto
  moreover have "?step ?s4 ?s5" by (rule ack_ok) (auto simp: processing_start_def ack)
  ultimately have "?step\<^sup>*\<^sup>* ?s0 ?s5" by (meson rtranclp.rtrancl_refl rtranclp.rtrancl_into_rtrancl)
  then show ?thesis by (simp add: processing_start_def)
qed

lemma example_processing:
  assumes "ack example_consumer_message None q = Some (None, q')"
  shows "(process_step (example_listener ack) example_consumer_message h)\<^sup>*\<^sup>* (processing_start example_handler_world q)
    \<lparr>pr_phase = PDone, pr_world = example_handler_world\<lparr>hw_app := 1\<rparr>, pr_queue = q', pr_cancelled = False, pr_trace = [LHandled 0 None, LAck None None]\<rparr>"
  by (rule single_handler_processing [where msg = "example_event 2" and meta = "[]"
        and handler = "wrap_handler [] (\<lambda>_ _ w. (Returns None, w\<lparr>hw_app := Suc (hw_app w)\<rparr>))"])
    (simp_all add: example_listener_def NewListener_def example_event_def wrap_handler_def wrapWithPanicHandler_def example_handler_world_def assms)

theorem listener_acknowledges_after_handling_witness:
  "\<exists>s. (process_step (example_listener (\<lambda>_ _ q. Some (None, q))) example_consumer_message background_handler)\<^sup>*\<^sup>*
      (processing_start example_handler_world ()) s
    \<and> pr_trace s = [LHandled 0 None, LAck None None] \<and> hw_app (pr_world s) = 1 \<and> pr_phase s = PDone"
proof -
  let ?s = "\<lparr>pr_phase = PDone, pr_world = example_handler_world\<lparr>hw_app := 1\<rparr>, pr_queue = (), pr_cancelled = False,
    pr_trace = [LHandled 0 None, LAck None None]\<rparr>"
  have run: "(process_step (example_listener (\<lambda>_ _ q. Some (None, q))) example_consumer_message background_handler)\<^sup>*\<^sup>*
      (processing_start example_handler_world ()) ?s"
    by (rule example_processing) simp
  moreover from listener_acknowledges_after_handling [OF run] have "pr_phase ?s = PDone" by simp
  ultimately show ?thesis by (intro exI [of _ ?s]) simp
qed

section \<open>What the middlewares guarantee\<close>

definition no_panic :: "'w handler \<Rightarrow> bool" where
  "no_panic h \<longleftrightarrow> (\<forall>ctx msg w. fst (h ctx msg w) \<noteq> Panics)"

text \<open>The middlewares the package offers.\<close>

inductive library_middleware :: "'w handler_middleware \<Rightarrow> bool" where
  "library_middleware (WithHandlerErrorMapping fn)"
| "library_middleware (WithHandlerLogging_mw l il el)"
| "library_middleware (WithHandlerMetrics m)"
| "library_middleware (WithHandlerObservability ob fs)"

lemma no_panic_wrap: "no_panic (wrapWithPanicHandler h)"
  by (auto simp: no_panic_def wrapWithPanicHandler_def split: prod.splits outcome.splits)

lemma no_panicE:
  assumes "no_panic h"
  obtains e w' where "h ctx msg w = (Returns e, w')"
proof (cases "h ctx msg w")
  case (Pair r w')
  with assms have "r \<noteq> Panics" unfolding no_panic_def by (metis fst_conv)
  with Pair that show ?thesis by (cases r) auto
qed

lemma no_panic_middleware:
  assumes "library_middleware mw" and "no_panic h"
  shows "no_panic (mw h)"
  unfolding no_panic_def
proof (intro allI)
  fix ctx msg and w :: "'a handler_world"
  show "fst (mw h ctx msg w) \<noteq> Panics"
    using assms(1)
  proof cases
    case (1 fn)
    show ?thesis by (rule no_panicE [OF assms(2), of ctx msg w]) (simp add: 1 WithHandlerErrorMapping_def)
  next
    case (2 l il el)
    obtain u w0 where u: "fresh_uuid w = (u, w0)" by force
    show ?thesis
      by (rule no_panicE [OF assms(2), of "ctx\<lparr>hc_base := (hc_base ctx)\<lparr>cx_log :=
            log_WithContext l (cx_log (hc_base ctx)) [(''handlerCorrelation'', FUuid u)]\<rparr>\<rparr>" msg w0])
         (simp add: 2 u WithHandlerLogging_mw_def Let_def)
  next
    case (3 m)
    show ?thesis by (rule no_panicE [OF assms(2), of ctx msg w]) (simp add: 3 WithHandlerMetrics_def Let_def)
  next
    case (4 ob fs)
    then show ?thesis using assms(2) by (simp add: WithHandlerObservability_def no_panic_def Let_def)
  qed
qed

lemma no_panic_wrap_handler: "\<forall>mw \<in> set mws. library_middleware mw \<Longrightarrow> no_panic (wrap_handler mws h)"
  unfolding wrap_handler_def by (induction mws) (auto simp: no_panic_wrap no_panic_middleware)

text \<open>
  Whatever middlewares of the package are installed, a wrapped handler never panics; with the
  idempotency middleware outermost, a handler that reports a key already inserted counts as success,
  and every other error is passed on.
\<close>

theorem wrapped_handlers_return:
  assumes "\<forall>mw \<in> set mws. library_middleware mw"
  shows "\<exists>e w'. wrap_handler mws h ctx msg w = (Returns e, w')
    \<and> wrap_handler (WithHandlerIdempotencyKeyErrorIgnoring # mws) h ctx msg w
      = (Returns (if errors_is e (Some ErrAlreadyInserted) then None else e), w')"
proof -
  obtain r w' where r: "wrap_handler mws h ctx msg w = (r, w')" by force
  with no_panic_wrap_handler [OF assms, of h] have "r \<noteq> Panics"
    unfolding no_panic_def by (metis fst_conv)
  then obtain e where "r = Returns e" by (cases r) auto
  with r show ?thesis
    by (auto simp: wrap_handler_def WithHandlerIdempotencyKeyErrorIgnoring_def WithHandlerErrorMapping_def)
qed

theorem wrapped_handlers_return_witness:
  "wrap_handler [WithHandlerIdempotencyKeyErrorIgnoring, WithHandlerMetrics []]
      (\<lambda>_ _ w. (Returns (Some (errorf ''insert'' (Sentinel ErrAlreadyInserted))), w))
      background_handler (example_event 2) example_handler_world
    = (Returns None, example_handler_world\<lparr>hw_obs := [ObsDuration ''msg_handle_duration_seconds''
        [(''topic'', FStr []), (''type'', FStr ''user_deleted''), (''success'', FBool False)]]\<rparr>)"
proof -
  have "\<forall>mw \<in> set [WithHandlerMetrics []]. library_middleware mw" by (simp add: library_middleware.intros)
  from wrapped_handlers_return [OF this, of "\<lambda>_ _ w. (Returns (Some (errorf ''insert'' (Sentinel ErrAlreadyInserted))), w)"
      background_handler "example_event 2" example_handler_world]
  show ?thesis
    by (simp add: wrap_handler_def wrapWithPanicHandler_def WithHandlerMetrics_def GetHandlerMetadata_def
        background_handler_def observe_def met_Duration_def met_With_def example_handler_world_def example_event_def)
qed

text \<open>
  The panic record of a message is never cleared: once a handler has panicked, each later attempt
  that succeeds is still logged as a panic and counted as one.
\<close>

theorem panic_record_is_sticky:
  assumes "hc_meta ctx = Some meta" and "hw_panic w"
    and "\<forall>c. handler c msg = (\<lambda>w. (Returns None, w))"
    and "lvl \<noteq> LevelDisabled"
  shows "(\<exists>fs. hw_obs (snd (wrap_handler [WithHandlerLogging_mw (log_New lvl) il el] handler ctx msg w))
      = hw_obs w @ [ObsLog LevelError ''message handled with panic'' fs])
    \<and> hw_obs (snd (wrap_handler [WithHandlerMetrics m] handler ctx msg w))
      = hw_obs w @ met_Increment (met_With m [(''topic'', FStr (hm_MessageTopic meta)), (''type'', FStr (sm_Type msg))])
          ''msg_handle_panics_total''
        @ met_Duration (met_With m [(''topic'', FStr (hm_MessageTopic meta)), (''type'', FStr (sm_Type msg)),
            (''success'', FBool True)]) ''msg_handle_duration_seconds''"
  using assms
  by (cases lvl; simp add: wrap_handler_def wrapWithPanicHandler_def WithHandlerLogging_mw_def fresh_uuid_def
      log_New_def log_Error_def written_def observe_def handled_fields_def GetHandlerMetadata_def
      WithHandlerMetrics_def)

theorem panic_record_is_sticky_witness:
  "\<exists>fs. hw_obs (snd (wrap_handler [WithHandlerLogging_mw (log_New LevelInfo) LevelInfo LevelError]
      (\<lambda>_ _ w. (Returns None, w))
      (withHandlerMetadata background_handler (cm_Message example_consumer_message) []) (example_event 2)
      (example_handler_world\<lparr>hw_panic := True\<rparr>)))
    = [ObsLog LevelError ''message handled with panic'' fs]"
  using panic_record_is_sticky [of "withHandlerMetadata background_handler (cm_Message example_consumer_message) []" _
      "example_handler_world\<lparr>hw_panic := True\<rparr>" "\<lambda>_ _ w. (Returns None, w)" "example_event 2" LevelInfo LevelInfo LevelError]
  by (simp add: withHandlerMetadata_def example_handler_world_def)

section \<open>Bus listener\<close>

text \<open>
  \<^verbatim>\<open>buslistener.go\<close>.  What a \<^verbatim>\<open>RegisterHandlersFunc\<close> returns is a blank message, its payload
  deserializer and its handlers; the consumer provider is an argument.
\<close>

type_synonym 'w register_handlers = "structured_message \<times> payload_deserializer \<times> 'w handler list"

record ('w, 'k) listener_data =
  ld_Consumer :: 'k
  ld_Deserializer :: JSONSerializer
  ld_Handlers :: "string \<rightharpoonup> 'w handler list"
  ld_ExtraOpts :: "'w handler_middleware list"

type_synonym ('w, 'k) bus_listener = "string \<times> topic \<rightharpoonup> ('w, 'k) listener_data"

fun register_types ::
    "'w register_handlers list \<Rightarrow> JSONSerializer \<times> (string \<rightharpoonup> 'w handler list) \<times> string set
      \<Rightarrow> go_error + JSONSerializer \<times> (string \<rightharpoonup> 'w handler list)" where
  "register_types [] (ds, hs, types) = Inr (ds, hs)"
| "register_types ((schema, msgDeserializer, msgHandlers) # funcs) (ds, hs, types) =
     (let msgType = sm_Type schema in
      if msgType = [] then Inl (errors_new ''blank message must return message type const value'')
      else if msgType \<in> types then Inl (errors_new ''message type already registered'')
      else case RegisterDeserializer msgType msgDeserializer ds of
             (Some e, _) \<Rightarrow> Inl (errorf ''register deserializer'' e)
           | (None, ds') \<Rightarrow> register_types funcs (ds', hs(msgType \<mapsto> msgHandlers), insert msgType types))"

definition registerTopicHandlers ::
    "(topic \<Rightarrow> string \<Rightarrow> go_error + 'k) \<Rightarrow> JSONSerializer \<Rightarrow> string \<Rightarrow> topic \<Rightarrow> 'w register_handlers list
      \<Rightarrow> 'w handler_middleware list \<Rightarrow> ('w, 'k) bus_listener \<Rightarrow> err \<times> ('w, 'k) bus_listener" where
  "registerTopicHandlers consumers deserializer subscriber tp funcs opts b =
     (if b (subscriber, tp) \<noteq> None then (Some (errors_new ''handlers already registered''), b)
      else case register_types funcs (deserializer, Map.empty, {}) of
             Inl e \<Rightarrow> (Some e, b)
           | Inr (ds, hs) \<Rightarrow>
               (case consumers tp subscriber of
                  Inl e \<Rightarrow> (Some (errorf ''get consumer'' e), b)
                | Inr k \<Rightarrow> (None, b((subscriber, tp) \<mapsto>
                    \<lparr>ld_Consumer = k, ld_Deserializer = ds, ld_Handlers = hs, ld_ExtraOpts = opts\<rparr>))))"

fun RegisterHandlers ::
    "(topic \<Rightarrow> string \<Rightarrow> go_error + 'k) \<Rightarrow> JSONSerializer \<Rightarrow> string \<Rightarrow> (topic \<times> 'w register_handlers list) list
      \<Rightarrow> 'w handler_middleware list \<Rightarrow> ('w, 'k) bus_listener \<Rightarrow> err \<times> ('w, 'k) bus_listener" where
  "RegisterHandlers consumers deserializer subscriber [] opts b = (None, b)"
| "RegisterHandlers consumers deserializer subscriber ((tp, funcs) # handlers) opts b =
     (case registerTopicHandlers consumers deserializer subscriber tp funcs opts b of
        (Some e, b') \<Rightarrow> (Some (errorf ''register handler'' e), b')
      | (None, b') \<Rightarrow> RegisterHandlers consumers deserializer subscriber handlers opts b')"

text \<open>\<^verbatim>\<open>Workers\<close>: the listener built for one registration, the options of the bus before those of the
  registration.\<close>

definition listener_of ::
    "json_codec \<Rightarrow> (consumer_message \<Rightarrow> err \<Rightarrow> 'q \<Rightarrow> (err \<times> 'q) option) \<Rightarrow> 'w handler_middleware list
      \<Rightarrow> ('w, 'k) listener_data \<Rightarrow> ('w, 'q) listener" where
  "listener_of j ack opts d =
     NewListener (Deserialize j (ld_Deserializer d)) (ld_Handlers d) ack (opts @ ld_ExtraOpts d)"

text \<open>The calls of \<^verbatim>\<open>RegisterHandlers\<close> made on a bus one after the other; a failed call keeps what it registered before its error.\<close>

definition RegisterHandlers_each ::
    "(topic \<Rightarrow> string \<Rightarrow> go_error + 'k) \<Rightarrow> (string \<times> (topic \<times> 'w register_handlers list) list \<times> 'w handler_middleware list) list
      \<Rightarrow> ('w, 'k) bus_listener \<Rightarrow> ('w, 'k) bus_listener" where
  "RegisterHandlers_each consumers calls b =
     fold (\<lambda>(subscriber, handlers, opts) b. snd (RegisterHandlers consumers NewJSONSerializer subscriber handlers opts b)) calls b"

text \<open>
  A listener serves the registrations \<open>funcs\<close>: it has handlers for their message types and no other, for
  each type the registered ones in order, wrapped by \<open>mws\<close>, and it reads a text as a message exactly when
  the deserializer registered for the type of its envelope does.
\<close>

definition serves ::
    "json_codec \<Rightarrow> 'w handler_middleware list \<Rightarrow> 'w register_handlers list \<Rightarrow> ('w, 'q) listener \<Rightarrow> bool" where
  "serves j mws funcs L \<longleftrightarrow>
     dom (ln_handlers L) = sm_Type ` fst ` set funcs \<and> [] \<notin> dom (ln_handlers L)
     \<and> (\<forall>(schema, de, hs) \<in> set funcs. ln_handlers L (sm_Type schema) = Some (map (wrap_handler mws) hs))
     \<and> (\<forall>data msg meta. ln_Deserialize L data = Inr (msg, meta) \<longleftrightarrow>
          (\<exists>(schema, de, hs) \<in> set funcs. \<exists>payload.
             unmarshal_envelope j data = Inr \<lparr>jm_Type = sm_Type schema, jm_Payload = payload, jm_Meta = meta\<rparr> \<and> de payload = Inr msg))"

lemma register_types_tables:
  assumes "register_types funcs (ds, hs, types) = Inr (ds', hs')"
  shows "distinct (map (sm_Type \<circ> fst) funcs) \<and> [] \<notin> sm_Type ` fst ` set funcs \<and> types \<inter> sm_Type ` fst ` set funcs = {}
    \<and> ds' = ds ++ map_of (map (\<lambda>(schema, de, h). (sm_Type schema, de)) funcs)
    \<and> hs' = hs ++ map_of (map (\<lambda>(schema, de, h). (sm_Type schema, h)) funcs)"
  using assms
proof (induction funcs arbitrary: ds hs types)
  case Nil
  then show ?case by simp
next
  case (Cons f funcs)
  obtain schema de h where f: "f = (schema, de, h)" by (cases f)
  let ?ty = "sm_Type schema" and ?fst = "\<lambda>k. map_of (map (\<lambda>(schema, de, h). (sm_Type schema, k de h)) funcs)"
  from Cons.prems f obtain ds1 where ne: "?ty \<noteq> []" "?ty \<notin> types"
    and r: "RegisterDeserializer ?ty de ds = (None, ds1)"
    and rest: "register_types funcs (ds1, hs(?ty \<mapsto> h), insert ?ty types) = Inr (ds', hs')"
    by (auto simp: Let_def split: if_splits prod.splits option.splits)
  from r have ds1: "ds1 = ds(?ty \<mapsto> de)" by (auto simp: RegisterDeserializer_def split: if_splits)
  note IH = Cons.IH [OF rest]
  then have new: "?ty \<notin> sm_Type ` fst ` set funcs" by auto
  have "map_of (map (\<lambda>(schema, de, h). (sm_Type schema, k de h)) funcs) ?ty = None" for k :: "payload_deserializer \<Rightarrow> 'a handler list \<Rightarrow> 'z"
    using new by (force simp: map_of_eq_None_iff image_iff)
  from this [of "\<lambda>de h. de"] this [of "\<lambda>de h. h"] IH ne new f ds1 show ?case
    by (auto simp: fun_eq_iff map_add_def split: option.splits)
qed

lemma serves_built:
  assumes "register_types funcs (NewJSONSerializer, Map.empty, {}) = Inr (ld_Deserializer d, ld_Handlers d)" and "ld_ExtraOpts d = extra"
  shows "serves j (opts @ extra) funcs (listener_of j ack opts d)"
proof -
  let ?ds = "map (\<lambda>(schema, de, h). (sm_Type schema, de)) funcs" and ?hs = "map (\<lambda>(schema, de, h). (sm_Type schema, h)) funcs"
  have r: "distinct (map (sm_Type \<circ> fst) funcs)" "[] \<notin> sm_Type ` fst ` set funcs" "ld_Deserializer d = map_of ?ds" "ld_Handlers d = map_of ?hs"
    using register_types_tables [OF assms(1)] by (simp_all add: NewJSONSerializer_def)
  have "map fst ?ds = map (sm_Type \<circ> fst) funcs" "map fst ?hs = map (sm_Type \<circ> fst) funcs" by auto
  with r(1) have d: "distinct (map fst ?ds)" "distinct (map fst ?hs)" by metis+
  have hs: "ld_Handlers d (sm_Type schema) = Some h" if "(schema, de, h) \<in> set funcs" for schema de h
    using d(2) that unfolding r(4) by (intro map_of_is_SomeI) force+
  have ds: "ld_Deserializer d ty = Some de \<longleftrightarrow> (\<exists>schema h. (schema, de, h) \<in> set funcs \<and> sm_Type schema = ty)" for ty de
    unfolding r(3) map_of_eq_Some_iff [OF d(1)] by force
  have dom: "dom (ld_Handlers d) = sm_Type ` fst ` set funcs" unfolding r(4) dom_map_of_conv_image_fst by force
  have "ln_handlers (listener_of j ack opts d) ty = map_option (map (wrap_handler (opts @ extra))) (ld_Handlers d ty)" for ty
    using assms(2) by (simp add: listener_of_def NewListener_def)
  moreover have "ln_Deserialize (listener_of j ack opts d) data = Inr (msg, meta) \<longleftrightarrow> (\<exists>(schema, de, hs) \<in> set funcs. \<exists>payload.
      unmarshal_envelope j data = Inr \<lparr>jm_Type = sm_Type schema, jm_Payload = payload, jm_Meta = meta\<rparr> \<and> de payload = Inr msg)" for data msg meta
  proof -
    have "ln_Deserialize (listener_of j ack opts d) data = Inr (msg, meta) \<longleftrightarrow>
        (\<exists>ty payload de. unmarshal_envelope j data = Inr \<lparr>jm_Type = ty, jm_Payload = payload, jm_Meta = meta\<rparr>
           \<and> ld_Deserializer d ty = Some de \<and> de payload = Inr msg)"
      by (auto simp: listener_of_def NewListener_def Deserialize_def split: sum.splits option.splits)
        (metis json_message.surjective unit.exhaust)
    then show ?thesis unfolding ds by fastforce
  qed
  ultimately show ?thesis using hs dom r(2) by (auto simp: serves_def dom_def)
qed

text \<open>The listener data a registration leaves behind.\<close>

definition built ::
    "(topic \<Rightarrow> string \<Rightarrow> go_error + 'k) \<Rightarrow> string \<Rightarrow> topic \<Rightarrow> 'w register_handlers list \<Rightarrow> 'w handler_middleware list
      \<Rightarrow> ('w, 'k) listener_data \<Rightarrow> bool" where
  "built consumers subscriber tp funcs extra d \<longleftrightarrow> consumers tp subscriber = Inr (ld_Consumer d) \<and> ld_ExtraOpts d = extra
     \<and> register_types funcs (NewJSONSerializer, Map.empty, {}) = Inr (ld_Deserializer d, ld_Handlers d)"

lemma registerTopicHandlers_adds:
  assumes "registerTopicHandlers consumers NewJSONSerializer subscriber tp funcs opts b = (e, b')"
  shows "e \<noteq> None \<and> b' = b
    \<or> e = None \<and> b (subscriber, tp) = None \<and> (\<exists>d. b' = b((subscriber, tp) \<mapsto> d) \<and> built consumers subscriber tp funcs opts d)"
  using assms by (force simp: registerTopicHandlers_def built_def split: if_splits sum.splits)

lemma RegisterHandlers_adds:
  assumes "RegisterHandlers consumers NewJSONSerializer subscriber handlers opts b = (e, b')"
  shows "b \<subseteq>\<^sub>m b' \<and> (e = None \<longrightarrow> (\<forall>(tp, funcs) \<in> set handlers. \<exists>d. b' (subscriber, tp) = Some d \<and> built consumers subscriber tp funcs opts d))
    \<and> (\<forall>key d. b' key = Some d \<longrightarrow> b key = Some d
         \<or> fst key = subscriber \<and> (\<exists>funcs. (snd key, funcs) \<in> set handlers \<and> built consumers subscriber (snd key) funcs opts d))"
  using assms
proof (induction handlers arbitrary: b)
  case Nil
  then show ?case by simp
next
  case (Cons h handlers)
  obtain tp funcs where h: "h = (tp, funcs)" by (cases h)
  obtain e1 b1 where r: "registerTopicHandlers consumers NewJSONSerializer subscriber tp funcs opts b = (e1, b1)" by force
  show ?case
  proof (cases e1)
    case (Some f)
    with r registerTopicHandlers_adds [OF r] have "b' = b" "e \<noteq> None" using Cons.prems h by auto
    then show ?thesis by auto
  next
    case None
    with registerTopicHandlers_adds [OF r] obtain d where d: "b (subscriber, tp) = None" "b1 = b((subscriber, tp) \<mapsto> d)"
      "built consumers subscriber tp funcs opts d" by auto
    have "RegisterHandlers consumers NewJSONSerializer subscriber handlers opts b1 = (e, b')"
      using Cons.prems r None h by simp
    note all = Cons.IH [OF this]
    have IH: "b1 \<subseteq>\<^sub>m b'"
      "e = None \<longrightarrow> (\<forall>(tp, funcs) \<in> set handlers. \<exists>d. b' (subscriber, tp) = Some d \<and> built consumers subscriber tp funcs opts d)"
      "\<And>key d. b' key = Some d \<Longrightarrow> b1 key = Some d
         \<or> fst key = subscriber \<and> (\<exists>funcs. (snd key, funcs) \<in> set handlers \<and> built consumers subscriber (snd key) funcs opts d)"
      using all by blast+
    have "b \<subseteq>\<^sub>m b1" using d by (auto simp: map_le_def)
    from map_le_trans [OF this IH(1)] have le: "b \<subseteq>\<^sub>m b'" .
    have "b1 (subscriber, tp) = Some d" using d by simp
    with IH(1) have "b' (subscriber, tp) = Some d" by (metis domI map_le_def)
    with IH(2) d(3) h have ok: "e = None \<longrightarrow> (\<forall>(tp, funcs) \<in> set (h # handlers). \<exists>d. b' (subscriber, tp) = Some d \<and> built consumers subscriber tp funcs opts d)"
      by auto
    have "b key = Some d' \<or> fst key = subscriber \<and> (\<exists>funcs. (snd key, funcs) \<in> set (h # handlers) \<and> built consumers subscriber (snd key) funcs opts d')"
      if "b' key = Some d'" for key d'
      using IH(3) [OF that] d(2,3) h by (auto split: if_splits)
    with le ok show ?thesis by blast
  qed
qed

lemma RegisterHandlers_each_adds:
  "b \<subseteq>\<^sub>m RegisterHandlers_each consumers calls b
   \<and> (\<forall>key d. RegisterHandlers_each consumers calls b key = Some d \<longrightarrow> b key = Some d
        \<or> (\<exists>(subscriber, handlers, extra) \<in> set calls. \<exists>funcs. fst key = subscriber \<and> (snd key, funcs) \<in> set handlers
             \<and> built consumers subscriber (snd key) funcs extra d))"
proof (induction calls arbitrary: b)
  case Nil
  then show ?case by (simp add: RegisterHandlers_each_def)
next
  case (Cons c calls)
  obtain sub hs extra where c: "c = (sub, hs, extra)" by (cases c)
  obtain e b1 where r: "RegisterHandlers consumers NewJSONSerializer sub hs extra b = (e, b1)" by force
  have "RegisterHandlers_each consumers (c # calls) b = RegisterHandlers_each consumers calls b1"
    by (simp add: RegisterHandlers_each_def c r)
  moreover have "b \<subseteq>\<^sub>m RegisterHandlers_each consumers calls b1"
    using Cons.IH [of b1] RegisterHandlers_adds [OF r] by (blast intro: map_le_trans)
  moreover have "b key = Some d \<or> (\<exists>(subscriber, handlers, extra) \<in> set (c # calls). \<exists>funcs. fst key = subscriber \<and> (snd key, funcs) \<in> set handlers
      \<and> built consumers subscriber (snd key) funcs extra d)" if "RegisterHandlers_each consumers calls b1 key = Some d" for key d
  proof -
    from Cons.IH [of b1] that consider "b1 key = Some d" | "\<exists>(subscriber, handlers, extra) \<in> set calls. \<exists>funcs. fst key = subscriber
        \<and> (snd key, funcs) \<in> set handlers \<and> built consumers subscriber (snd key) funcs extra d" by blast
    then show ?thesis
    proof cases
      case 1
      with RegisterHandlers_adds [OF r] have "b key = Some d \<or> fst key = sub \<and> (\<exists>funcs. (snd key, funcs) \<in> set hs
          \<and> built consumers sub (snd key) funcs extra d)" by blast
      then show ?thesis unfolding c by auto
    qed auto
  qed
  ultimately show ?case by presburger
qed

text \<open>
  C19. After any sequence of \<^verbatim>\<open>RegisterHandlers\<close> calls on a bus, failed ones included: a call that returned no error has, for each
  of its topics, a listener on the consumer the provider gave, and later calls leave it alone; that listener
  serves exactly what was registered - for every message type the registered handlers, all of them in order,
  under the options of the bus and then of the call, the deserializer registered with them, and nothing for
  any other type.  Every listener of the bus is one some call registered and serves it so.
\<close>

theorem bus_listener_finds_handlers:
  assumes "RegisterHandlers consumers NewJSONSerializer subscriber handlers extra (RegisterHandlers_each consumers before Map.empty) = (e, b1)"
    and "b = RegisterHandlers_each consumers after b1"
  shows "(e = None \<longrightarrow> (\<forall>(tp, funcs) \<in> set handlers. \<exists>d. b (subscriber, tp) = Some d
            \<and> consumers tp subscriber = Inr (ld_Consumer d) \<and> serves j (opts @ extra) funcs (listener_of j ack opts d)))
    \<and> (\<forall>sub tp d. b (sub, tp) = Some d \<longrightarrow>
         (\<exists>(sub', handlers', extra') \<in> set (before @ [(subscriber, handlers, extra)] @ after). \<exists>funcs. sub' = sub \<and> (tp, funcs) \<in> set handlers'
            \<and> consumers tp sub = Inr (ld_Consumer d) \<and> serves j (opts @ extra') funcs (listener_of j ack opts d)))"
proof (intro conjI impI ballI allI)
  have built: "consumers tp sub = Inr (ld_Consumer d) \<and> serves j (opts @ x) funcs (listener_of j ack opts d)"
    if "built consumers sub tp funcs x d" for sub tp funcs x d
    using that serves_built [of funcs d x] by (simp add: built_def)
  note reg = RegisterHandlers_adds [OF assms(1)]
  {
    fix h assume "e = None" and "h \<in> set handlers"
    with reg obtain d where d: "b1 (subscriber, fst h) = Some d" "built consumers subscriber (fst h) (snd h) extra d" by fastforce
    have "b1 \<subseteq>\<^sub>m b" using RegisterHandlers_each_adds assms(2) by blast
    with d(1) have "b (subscriber, fst h) = Some d" by (metis domI map_le_def)
    with built [OF d(2)] show "case h of (tp, funcs) \<Rightarrow> \<exists>d. b (subscriber, tp) = Some d
        \<and> consumers tp subscriber = Inr (ld_Consumer d) \<and> serves j (opts @ extra) funcs (listener_of j ack opts d)"
      by (auto simp: case_prod_unfold)
  }
  fix sub tp d assume "b (sub, tp) = Some d"
  then have "b1 (sub, tp) = Some d \<or> (\<exists>(sub', hs, x) \<in> set after. \<exists>funcs. sub' = sub \<and> (tp, funcs) \<in> set hs \<and> built consumers sub tp funcs x d)"
    using RegisterHandlers_each_adds [of b1 consumers after] assms(2) by fastforce
  moreover have "b1 (sub, tp) = Some d \<Longrightarrow> RegisterHandlers_each consumers before Map.empty (sub, tp) = Some d
      \<or> sub = subscriber \<and> (\<exists>funcs. (tp, funcs) \<in> set handlers \<and> built consumers sub tp funcs extra d)"
    using reg by fastforce
  moreover have "RegisterHandlers_each consumers before Map.empty (sub, tp) = Some d \<Longrightarrow>
      \<exists>(sub', hs, x) \<in> set before. \<exists>funcs. sub' = sub \<and> (tp, funcs) \<in> set hs \<and> built consumers sub tp funcs x d"
    using RegisterHandlers_each_adds [of Map.empty consumers before] by fastforce
  ultimately show "\<exists>(sub', handlers', extra') \<in> set (before @ [(subscriber, handlers, extra)] @ after). \<exists>funcs. sub' = sub \<and> (tp, funcs) \<in> set handlers'
      \<and> consumers tp sub = Inr (ld_Consumer d) \<and> serves j (opts @ extra') funcs (listener_of j ack opts d)"
    using built by fastforce
qed

definition example_registrations :: "(topic \<times> nat register_handlers list) list" where
  "example_registrations =
     [(''t'', [(example_event 0, \<lambda>_. Inr (example_event 2), [\<lambda>_ _ w. (Returns None, w)])])]"

definition example_bus_listener :: "err \<times> (nat, unit) bus_listener" where
  "example_bus_listener =
     RegisterHandlers (\<lambda>_ _. Inr ()) NewJSONSerializer ''s'' example_registrations [] Map.empty"

definition accept_ack :: "consumer_message \<Rightarrow> err \<Rightarrow> unit \<Rightarrow> (err \<times> unit) option" where
  "accept_ack m r q = Some (None, q)"

text \<open>After a refused second registration the listener still runs the one handler of the first, and only for its type.\<close>

theorem bus_listener_finds_handlers_witness:
  "fst example_bus_listener = None
   \<and> fst (RegisterHandlers (\<lambda>_ _. Inr ()) NewJSONSerializer ''s'' [(''t'', [])] [] (snd example_bus_listener)) \<noteq> None
   \<and> (\<exists>d. RegisterHandlers_each (\<lambda>_ _. Inr ()) [(''s'', [(''t'', [])], [])] (snd example_bus_listener) (''s'', ''t'') = Some d
      \<and> ln_handlers (listener_of example_codec accept_ack [] d) ''user_deleted'' = Some [wrap_handler [] (\<lambda>_ _ w. (Returns None, w))]
      \<and> ln_handlers (listener_of example_codec accept_ack [] d) ''other'' = None
      \<and> ln_Deserialize (listener_of example_codec accept_ack [] d) ''x'' = Inr (example_event 2, []))"
proof -
  let ?call = "(''s'', [(''t'', [])], [])" and ?funcs = "snd (hd example_registrations)"
  obtain b1 where reg: "example_bus_listener = (None, b1)" and b1: "b1 (''s'', ''t'') \<noteq> None"
    by (simp add: example_bus_listener_def example_registrations_def registerTopicHandlers_def Let_def
        example_event_def RegisterDeserializer_def NewJSONSerializer_def)
  have "RegisterHandlers (\<lambda>_ _. Inr ()) NewJSONSerializer ''s'' example_registrations []
      (RegisterHandlers_each (\<lambda>_ _. Inr ()) [] Map.empty) = (None, b1)"
    using reg by (simp add: example_bus_listener_def RegisterHandlers_each_def)
  from bus_listener_finds_handlers [OF this refl, of "[?call]" example_codec "[]" accept_ack]
  obtain d where d: "RegisterHandlers_each (\<lambda>_ _. Inr ()) [?call] b1 (''s'', ''t'') = Some d"
    and s: "serves example_codec [] ?funcs (listener_of example_codec accept_ack [] d)"
    by (auto simp: example_registrations_def)
  let ?L = "listener_of example_codec accept_ack [] d"
  have ty: "sm_Type (example_event 0) = ''user_deleted''" by (simp add: example_event_def)
  have f: "?funcs = [(example_event 0, \<lambda>_. Inr (example_event 2), [\<lambda>_ _ w. (Returns None, w)])]" by (simp add: example_registrations_def)
  have "ln_handlers ?L ''user_deleted'' = Some [wrap_handler [] (\<lambda>_ _ w. (Returns None, w))]" "''other'' \<notin> dom (ln_handlers ?L)"
    using s unfolding serves_def f by (simp_all add: ty)
  moreover have "ln_Deserialize ?L ''x'' = Inr (example_event 2, [])"
    using s unfolding serves_def f by (simp add: ty example_codec_def)
  ultimately show ?thesis using d b1 by (auto simp: reg registerTopicHandlers_def)
qed

end
