(* ===== verification/Listener_Worker.thy ===== *)
theory Listener_Worker
  imports Listener
begin

text \<open>
  The worker of a listener as a whole: \<^verbatim>\<open>consumerWorker\<close> of \<^verbatim>\<open>pkg/message/listener.go\<close> with the goroutines it starts.

  The loop and the goroutines share the processing queue, with the broker behind it, and the world of the handlers; every goroutine keeps the
  metadata of its own message.  Each step of a goroutine is a step of the processing of its message on the shared state.  A pointer names an object,
  so a received message has a pointer that no earlier one had.
\<close>

section \<open>The loop and its goroutines\<close>

datatype worker_loop =
    WToken
  | WMessage
  | WWait err
  | WReturned err

text \<open>\<open>lr_token\<close>: a token was taken for which no message has been received.  A goroutine that has ended stays in \<open>lr_procs\<close>.\<close>

record ('w, 'q) listener_run =
  lr_loop :: worker_loop
  lr_token :: bool
  lr_queue :: 'q
  lr_world :: "'w handler_world"
  lr_cancelled :: bool
  lr_procs :: "(consumer_message \<times> handler_ctx \<times> ('w, 'q) processing) list"

abbreviation lr_received :: "('w, 'q) listener_run \<Rightarrow> consumer_message list" where
  "lr_received s \<equiv> map fst (lr_procs s)"

definition worker_start :: "'q \<Rightarrow> 'w handler_world \<Rightarrow> ('w, 'q) listener_run" where
  "worker_start q w = \<lparr>lr_loop = WToken, lr_token = False, lr_queue = q, lr_world = w, lr_cancelled = False, lr_procs = []\<rparr>"

text \<open>A goroutine sees the shared queue and world, and its own record of a panic.\<close>

definition resume :: "'q \<Rightarrow> 'w handler_world \<Rightarrow> ('w, 'q) processing \<Rightarrow> ('w, 'q) processing" where
  "resume q w p = p\<lparr>pr_queue := q, pr_world := w\<lparr>hw_panic := hw_panic (pr_world p)\<rparr>\<rparr>"

inductive consumerWorker_step ::
    "('q \<Rightarrow> 'q option) \<Rightarrow> (consumer_message \<Rightarrow> 'q \<Rightarrow> err \<times> 'q) \<Rightarrow> ('q \<Rightarrow> nat set) \<Rightarrow> ('w, 'q) listener
      \<Rightarrow> ('w, 'q) listener_run \<Rightarrow> ('w, 'q) listener_run \<Rightarrow> bool"
  for take_token add_processing refs L where
  cancelled: "consumerWorker_step take_token add_processing refs L s (s\<lparr>lr_cancelled := True\<rparr>)"
| token: "lr_loop s = WToken \<Longrightarrow> take_token (lr_queue s) = Some q \<Longrightarrow>
    consumerWorker_step take_token add_processing refs L s (s\<lparr>lr_loop := WMessage, lr_token := True, lr_queue := q\<rparr>)"
| close: "lr_loop s = WToken \<or> lr_loop s = WMessage \<Longrightarrow> lr_cancelled s \<Longrightarrow>
    consumerWorker_step take_token add_processing refs L s (s\<lparr>lr_loop := WWait closeErr\<rparr>)"
| channel_closed: "lr_loop s = WMessage \<Longrightarrow>
    consumerWorker_step take_token add_processing refs L s
      (s\<lparr>lr_loop := WWait (Some (errors_new ''consumer closed messages channel''))\<rparr>)"
| receive: "lr_loop s = WMessage \<Longrightarrow> cm_ptr m \<notin> cm_ptr ` set (lr_received s) \<union> refs (lr_queue s) \<Longrightarrow>
    add_processing m (lr_queue s) = (None, q) \<Longrightarrow>
    consumerWorker_step take_token add_processing refs L s
      (s\<lparr>lr_loop := WToken, lr_token := False, lr_queue := q,
         lr_procs := lr_procs s @ [(m, c, processing_start ((lr_world s)\<lparr>hw_panic := False\<rparr>) q)]\<rparr>)"
| refused: "lr_loop s = WMessage \<Longrightarrow> cm_ptr m \<notin> cm_ptr ` set (lr_received s) \<union> refs (lr_queue s) \<Longrightarrow>
    add_processing m (lr_queue s) = (Some e, q) \<Longrightarrow>
    consumerWorker_step take_token add_processing refs L s
      (s\<lparr>lr_loop := WWait (Some (errorf ''add to processing internal error'' e)), lr_queue := q\<rparr>)"
| goroutine: "i < length (lr_procs s) \<Longrightarrow> lr_procs s ! i = (m, c, p) \<Longrightarrow>
    process_step L m c (resume (lr_queue s) (lr_world s) p) p' \<Longrightarrow> (pr_cancelled p' \<longrightarrow> lr_cancelled s) \<Longrightarrow>
    consumerWorker_step take_token add_processing refs L s
      (s\<lparr>lr_queue := pr_queue p', lr_world := pr_world p', lr_procs := (lr_procs s)[i := (m, c, p')]\<rparr>)"
| wait: "lr_loop s = WWait e \<Longrightarrow> (\<forall>(m, c, p) \<in> set (lr_procs s). pr_phase p = PDone) \<Longrightarrow>
    consumerWorker_step take_token add_processing refs L s
      (s\<lparr>lr_loop := WReturned (map_option (errorf ''message listener'') e)\<rparr>)"

abbreviation worker_runs ::
    "('q \<Rightarrow> 'q option) \<Rightarrow> (consumer_message \<Rightarrow> 'q \<Rightarrow> err \<times> 'q) \<Rightarrow> ('q \<Rightarrow> nat set) \<Rightarrow> ('w, 'q) listener \<Rightarrow> 'q \<Rightarrow> 'w handler_world
      \<Rightarrow> ('w, 'q) listener_run \<Rightarrow> bool" where
  "worker_runs take_token add_processing refs L q w s \<equiv>
     (consumerWorker_step take_token add_processing refs L)\<^sup>*\<^sup>* (worker_start q w) s"

section \<open>Every goroutine keeps the promises of a single processing\<close>

text \<open>Whether all handlers of the message have succeeded, or it is one that has none.\<close>

definition taken_care_of :: "('w, 'q) listener \<Rightarrow> consumer_message \<Rightarrow> levent list \<Rightarrow> bool" where
  "taken_care_of L m tr \<longleftrightarrow>
     (case ln_Deserialize L (msg_Payload (cm_Message m)) of
        Inl _ \<Rightarrow> True
      | Inr (msg, meta) \<Rightarrow> (case ln_handlers L (sm_Type msg) of None \<Rightarrow> True | Some hs \<Rightarrow> all_handled (length hs) tr))"

definition proc_ok :: "('w, 'q) listener \<Rightarrow> consumer_message \<Rightarrow> ('w, 'q) processing \<Rightarrow> bool" where
  "proc_ok L m p \<longleftrightarrow> done_ok p
     \<and> (\<forall>msg meta hs. ln_Deserialize L (msg_Payload (cm_Message m)) = Inr (msg, meta) \<longrightarrow> ln_handlers L (sm_Type msg) = Some hs \<longrightarrow>
          phase_ok (length hs) (pr_trace p) (pr_phase p) \<and> acks_justified (length hs) (pr_trace p))"

lemma resume_simps [simp]:
  "pr_phase (resume q w p) = pr_phase p" "pr_trace (resume q w p) = pr_trace p"
  "pr_cancelled (resume q w p) = pr_cancelled p" "pr_queue (resume q w p) = q"
  by (simp_all add: resume_def)

lemma done_ok_resume [simp]: "done_ok (resume q w p) = done_ok p"
  by (simp add: done_ok_def)

lemma proc_ok_resume [simp]: "proc_ok L m (resume q w p) = proc_ok L m p"
  by (simp add: proc_ok_def)

lemma processing_start_simps [simp]:
  "pr_phase (processing_start w q) = PStart" "pr_trace (processing_start w q) = []" "pr_cancelled (processing_start w q) = False"
  by (simp_all add: processing_start_def)

lemma proc_ok_start [simp]: "proc_ok L m (processing_start w q)"
  by (simp add: proc_ok_def processing_start_def done_ok_def acks_justified_def)

lemma proc_ok_step: "process_step L m c p p' \<Longrightarrow> proc_ok L m p \<Longrightarrow> proc_ok L m p'"
  unfolding proc_ok_def using done_ok_steps process_step_inv by blast

lemma trace_grows: "process_step L m c p p' \<Longrightarrow> \<exists>evs. pr_trace p' = pr_trace p @ evs"
  by (cases rule: process_step.cases) auto

lemma taken_care_of_grows: "taken_care_of L m tr \<Longrightarrow> taken_care_of L m (tr @ evs)"
  by (auto simp: taken_care_of_def all_handled_snoc split: sum.splits option.splits)

text \<open>A step of a goroutine leaves the queue alone, or it is one acknowledgement, positive only for a message that has been taken care of.\<close>

lemma step_acknowledges:
  assumes "process_step L m c p p'" and "proc_ok L m p"
  shows "pr_queue p' = pr_queue p \<and> (\<forall>r. LAck r None \<in> set (pr_trace p') \<longleftrightarrow> LAck r None \<in> set (pr_trace p))
    \<or> (\<exists>r e. ln_ack L m r (pr_queue p) = Some (e, pr_queue p') \<and> (r = None \<longrightarrow> taken_care_of L m (pr_trace p))
        \<and> pr_trace p' = pr_trace p @ [LAck r e] \<and> (\<forall>r'. LAck r' None \<notin> set (pr_trace p)))"
proof -
  have care: "taken_care_of L m (pr_trace p) \<and> (\<forall>r'. LAck r' None \<notin> set (pr_trace p))" if "pr_phase p = PAck b None" for b
    using assms(2) that
    by (auto simp: proc_ok_def done_ok_def taken_care_of_def split: sum.splits option.splits if_splits)
  have open_phase: "\<forall>r'. LAck r' None \<notin> set (pr_trace p)" if "pr_phase p = PAck b r" for b r
    using assms(2) that by (auto simp: proc_ok_def done_ok_def split: if_splits)
  from assms(1) show ?thesis
  proof cases
    case (ack_ok b r q)
    then show ?thesis using care [of b] open_phase [of b r] by (intro disjI2 exI [of _ r] exI [of _ None]) auto
  next
    case (ack_retry b r e q)
    then show ?thesis using care [of b] open_phase [of b r] by (intro disjI2 exI [of _ r] exI [of _ "Some e"]) auto
  next
    case (ack_failed b r e q)
    then show ?thesis using care [of b] open_phase [of b r] by (intro disjI2 exI [of _ r] exI [of _ "Some e"]) auto
  qed auto
qed

section \<open>The run refines the protocol of the queue\<close>

text \<open>The operations of a queue on the pair of broker and queue.\<close>

definition broker_take :: "('q \<Rightarrow> 'q option) \<Rightarrow> 'b \<times> 'q \<Rightarrow> ('b \<times> 'q) option" where
  "broker_take take_token bq = map_option (Pair (fst bq)) (take_token (snd bq))"

definition broker_add :: "(consumer_message \<Rightarrow> 'q \<Rightarrow> err \<times> 'q) \<Rightarrow> consumer_message \<Rightarrow> 'b \<times> 'q \<Rightarrow> err \<times> 'b \<times> 'q" where
  "broker_add add_processing m bq = (case add_processing m (snd bq) of (e, q) \<Rightarrow> (e, fst bq, q))"

definition broker_ack ::
    "(consumer_message \<Rightarrow> err \<Rightarrow> 'b \<Rightarrow> 'q \<Rightarrow> (err \<times> 'b \<times> 'q) option) \<Rightarrow> consumer_message \<Rightarrow> err \<Rightarrow> 'b \<times> 'q \<Rightarrow> (err \<times> 'b \<times> 'q) option" where
  "broker_ack ack m r bq = ack m r (fst bq) (snd bq)"

definition unacknowledged :: "consumer_message \<times> handler_ctx \<times> ('w, 'q) processing \<Rightarrow> bool" where
  "unacknowledged g \<longleftrightarrow> (\<forall>r. LAck r None \<notin> set (pr_trace (snd (snd g))))"

definition abs_worker :: "('w, 'b \<times> 'q) listener_run \<Rightarrow> ('q, 'b) worker_state" where
  "abs_worker s = \<lparr>ws_queue = snd (lr_queue s), ws_broker = fst (lr_queue s), ws_token = lr_token s,
     ws_active = map fst (filter unacknowledged (lr_procs s))\<rparr>"

definition run_ok :: "('w, 'q) listener \<Rightarrow> ('w, 'q) listener_run \<Rightarrow> bool" where
  "run_ok L s \<longleftrightarrow> distinct (map cm_ptr (lr_received s))
     \<and> (\<forall>(m, c, p) \<in> set (lr_procs s). proc_ok L m p \<and> (pr_cancelled p \<longrightarrow> lr_cancelled s))
     \<and> (lr_loop s = WToken \<longrightarrow> \<not> lr_token s) \<and> (lr_loop s = WMessage \<longrightarrow> lr_token s)
     \<and> (\<forall>e. lr_loop s = WReturned e \<longrightarrow> (\<forall>(m, c, p) \<in> set (lr_procs s). pr_phase p = PDone))"

lemma run_ok_start [simp]: "run_ok L (worker_start q w)"
  by (simp add: run_ok_def worker_start_def)

lemma run_ok_returned:
  assumes "run_ok L s"
  shows "\<forall>e. lr_loop s = WReturned e \<longrightarrow> (\<forall>(m, c, p) \<in> set (lr_procs s).
      pr_phase p = PDone \<and> ((\<exists>r. LAck r None \<in> set (pr_trace p)) \<or> lr_cancelled s))"
  using assms by (fastforce simp: run_ok_def proc_ok_def done_ok_def split: if_splits)

lemma received_update:
  "i < length gs \<Longrightarrow> gs ! i = (m, c, p) \<Longrightarrow> map fst (gs[i := (m, c, p')]) = map fst gs"
  by (simp add: map_update list_update_same_conv)

lemma process_done_stays: "process_step L m c p p' \<Longrightarrow> pr_phase p = PDone \<Longrightarrow> pr_phase p' = PDone"
  by (cases rule: process_step.cases) auto

lemma run_ok_step:
  assumes "consumerWorker_step take_token add_processing refs L s s'" and ok: "run_ok L s"
  shows "run_ok L s'"
  using assms(1)
proof cases
  case (goroutine i m c p p')
  have mem: "(m, c, p) \<in> set (lr_procs s)" using nth_mem [OF goroutine(2)] goroutine(3) by simp
  have p: "proc_ok L m p" using ok mem by (auto simp: run_ok_def)
  have p': "proc_ok L m p'" using proc_ok_step [OF goroutine(4)] p by simp
  have phase: "pr_phase p' = PDone" if "pr_phase p = PDone" using process_done_stays [OF goroutine(4)] that by simp
  have sub: "set ((lr_procs s)[i := (m, c, p')]) \<subseteq> insert (m, c, p') (set (lr_procs s))" by (rule set_update_subset_insert)
  show ?thesis unfolding run_ok_def
  proof (intro conjI)
    show "distinct (map cm_ptr (lr_received s'))" using ok received_update [OF goroutine(2,3)] goroutine(1) by (simp add: run_ok_def)
    show "\<forall>(m, c, p) \<in> set (lr_procs s'). proc_ok L m p \<and> (pr_cancelled p \<longrightarrow> lr_cancelled s')"
      using ok sub p' goroutine(1,5) by (fastforce simp: run_ok_def)
    show "\<forall>e. lr_loop s' = WReturned e \<longrightarrow> (\<forall>(m, c, p) \<in> set (lr_procs s'). pr_phase p = PDone)"
      using ok sub phase mem goroutine(1) by (fastforce simp: run_ok_def)
  qed (use ok goroutine(1) in \<open>auto simp: run_ok_def\<close>)
qed (use ok in \<open>auto simp: run_ok_def split: prod.splits\<close>)


lemma active_same:
  assumes "i < length gs" and "gs ! i = (m, c, p)" and "unacknowledged (m, c, p') = unacknowledged (m, c, p)"
  shows "map fst (filter unacknowledged (gs[i := (m, c, p')])) = map fst (filter unacknowledged gs)"
proof -
  let ?a = "take i gs" and ?b = "drop (Suc i) gs"
  have gs: "gs = ?a @ (m, c, p) # ?b" "gs[i := (m, c, p')] = ?a @ (m, c, p') # ?b"
    using id_take_nth_drop [OF assms(1)] assms(2) upd_conv_take_nth_drop [OF assms(1)] by simp_all
  have "map fst (filter unacknowledged (?a @ (m, c, p') # ?b)) = map fst (filter unacknowledged (?a @ (m, c, p) # ?b))"
    using assms(3) by simp
  then show ?thesis using gs by simp
qed

lemma active_acknowledged:
  assumes "i < length gs" and "gs ! i = (m, c, p)" and "distinct (map cm_ptr (map fst gs))"
    and "unacknowledged (m, c, p)" and "\<not> unacknowledged (m, c, p')"
  shows "map fst (filter unacknowledged (gs[i := (m, c, p')])) = filter (\<lambda>x. cm_ptr x \<noteq> cm_ptr m) (map fst (filter unacknowledged gs))"
proof -
  let ?a = "take i gs" and ?b = "drop (Suc i) gs"
  have gs: "gs = ?a @ (m, c, p) # ?b" "gs[i := (m, c, p')] = ?a @ (m, c, p') # ?b"
    using id_take_nth_drop [OF assms(1)] assms(2) upd_conv_take_nth_drop [OF assms(1)] by simp_all
  have "distinct (map cm_ptr (map fst (?a @ (m, c, p) # ?b)))" using assms(3) gs(1) by simp
  then have "\<forall>g \<in> set ?a \<union> set ?b. cm_ptr (fst g) \<noteq> cm_ptr m" by force
  then have other: "filter (\<lambda>x. cm_ptr x \<noteq> cm_ptr m) (map fst (filter unacknowledged ?a)) = map fst (filter unacknowledged ?a)"
    "filter (\<lambda>x. cm_ptr x \<noteq> cm_ptr m) (map fst (filter unacknowledged ?b)) = map fst (filter unacknowledged ?b)"
    by (auto simp: filter_id_conv)
  have "filter (\<lambda>x. cm_ptr x \<noteq> cm_ptr m) (map fst (filter unacknowledged (?a @ (m, c, p) # ?b)))
      = map fst (filter unacknowledged (?a @ (m, c, p') # ?b))"
    using assms(4,5) other by simp
  then show ?thesis using gs by simp
qed

context processing_queue
begin

lemma worker_step_refines:
  assumes "consumerWorker_step (broker_take take_token) (broker_add add_processing) (refs \<circ> snd) L s s'"
    and L: "ln_ack L = broker_ack ack" and ok: "run_ok L s" and inv: "worker_inv n (abs_worker s)"
  shows "abs_worker s' = abs_worker s \<or> worker_step take_token add_processing ack refs (abs_worker s) (abs_worker s')"
  using assms(1)
proof cases
  case (token q)
  then show ?thesis using ok worker_step.take_token [of "abs_worker s" take_token "snd q"]
    by (auto simp: abs_worker_def broker_take_def run_ok_def)
next
  case (receive m q c)
  have "cm_ptr m \<notin> cm_ptr ` set (ws_active (abs_worker s)) \<union> refs (ws_queue (abs_worker s))"
    using receive(3) by (auto simp: abs_worker_def)
  then show ?thesis using receive ok worker_step.receive [of "abs_worker s" m refs add_processing "snd q"]
    by (auto simp: abs_worker_def broker_add_def run_ok_def unacknowledged_def split: prod.splits)
next
  case (refused m e q)
  then have "ws_token (abs_worker s)" "cm_ptr m \<notin> refs (ws_queue (abs_worker s))" using ok by (auto simp: abs_worker_def run_ok_def)
  from inv_add_succeeds [OF inv this] refused show ?thesis by (auto simp: abs_worker_def broker_add_def split: prod.splits)
next
  case (goroutine i m c p p')
  have mem: "(m, c, p) \<in> set (lr_procs s)" using nth_mem [OF goroutine(2)] goroutine(3) by simp
  then have p: "proc_ok L m (resume (lr_queue s) (lr_world s) p)" using ok by (auto simp: run_ok_def)
  from step_acknowledges [OF goroutine(4) p] show ?thesis
  proof (elim disjE conjE exE)
    assume "pr_queue p' = pr_queue (resume (lr_queue s) (lr_world s) p)"
      and "\<forall>r. (LAck r None \<in> set (pr_trace p')) = (LAck r None \<in> set (pr_trace (resume (lr_queue s) (lr_world s) p)))"
    then show ?thesis using goroutine(1) active_same [OF goroutine(2,3), of p'] by (simp add: abs_worker_def unacknowledged_def)
  next
    fix r e
    assume a: "ln_ack L m r (pr_queue (resume (lr_queue s) (lr_world s) p)) = Some (e, pr_queue p')"
      "pr_trace p' = pr_trace (resume (lr_queue s) (lr_world s) p) @ [LAck r e]"
      "\<forall>r'. LAck r' None \<notin> set (pr_trace (resume (lr_queue s) (lr_world s) p))"
    have un: "unacknowledged (m, c, p)" "unacknowledged (m, c, p') \<longleftrightarrow> e \<noteq> None" using a(2,3) by (cases e; force simp: unacknowledged_def)+
    have act: "m \<in> set (ws_active (abs_worker s))" using mem un(1) by (force simp: abs_worker_def)
    have call: "ack m r (ws_broker (abs_worker s)) (ws_queue (abs_worker s)) = Some (e, fst (pr_queue p'), snd (pr_queue p'))"
      using a(1) L by (simp add: broker_ack_def abs_worker_def)
    have dist: "distinct (map cm_ptr (lr_received s))" using ok by (simp add: run_ok_def)
    show ?thesis
    proof (cases e)
      case None
      then have "abs_worker s' = (abs_worker s)\<lparr>ws_queue := snd (pr_queue p'), ws_broker := fst (pr_queue p'),
          ws_active := filter (\<lambda>x. cm_ptr x \<noteq> cm_ptr m) (ws_active (abs_worker s))\<rparr>"
        using goroutine(1) active_acknowledged [OF goroutine(2,3) dist un(1), of p'] un(2) by (simp add: abs_worker_def)
      then show ?thesis using worker_step.acknowledged [where ack = ack and r = r, OF act call [unfolded None]] by simp
    next
      case (Some e')
      then have "abs_worker s' = (abs_worker s)\<lparr>ws_queue := snd (pr_queue p'), ws_broker := fst (pr_queue p')\<rparr>"
        using goroutine(1) active_same [OF goroutine(2,3), of p'] un by (simp add: abs_worker_def)
      then show ?thesis using worker_step.ack_failed [where ack = ack and r = r, OF act call [unfolded Some]] by simp
    qed
  qed
qed (auto simp: abs_worker_def)

lemma worker_run_refines:
  assumes "worker_runs (broker_take take_token) (broker_add add_processing) (refs \<circ> snd) L (b0, q0) w s"
    and "ln_ack L = broker_ack ack" and "wf q0" and "capacity q0 = n" and "used q0 + tokens q0 = n"
  shows "run_ok L s \<and> worker_reachable take_token add_processing ack refs q0 b0 (abs_worker s)"
  using assms(1)
proof (induction rule: rtranclp_induct)
  case base
  then show ?case using worker_reachable.init [of take_token add_processing ack refs q0 b0] by (simp add: abs_worker_def) (simp add: worker_start_def)
next
  case (step s s')
  have inv: "worker_inv n (abs_worker s)" using reachable_inv step.IH assms(3-5) by blast
  from worker_step_refines [OF step(2) assms(2) _ inv] run_ok_step [OF step(2)] step.IH show ?case
    by (metis worker_reachable.step)
qed

end


section \<open>Offsets are committed after handling\<close>

text \<open>A strategy that records its calls.\<close>

definition recording :: "'b commit_strategy \<Rightarrow> ('b \<times> consumer_message list) commit_strategy" where
  "recording commitOffset m bl = (case commitOffset m (fst bl) of (e, b) \<Rightarrow> (e, b, snd bl @ [m]))"

text \<open>
  The queue holds the messages received last, everything before them and every entry marked as processed has been taken care of, and so has,
  for every commit that was called, the message committed and all received before it.
\<close>

definition offsets_inv :: "(nat \<Rightarrow> bool) \<Rightarrow> consumer_message list \<Rightarrow> consumer_message list \<Rightarrow> commit_offset_queue \<Rightarrow> bool" where
  "offsets_inv care received commits q \<longleftrightarrow>
     (\<exists>k \<le> length received. map lm_Message (coq_queue q) = drop k received \<and> (\<forall>j < k. care j)
        \<and> (\<forall>j < length (coq_queue q). lm_Processed (coq_queue q ! j) \<longrightarrow> care (k + j)))
     \<and> (\<forall>m \<in> set commits. \<exists>x < length received. received ! x = m \<and> (\<forall>j \<le> x. care j))"

lemma offsets_inv_mono:
  assumes "offsets_inv care received commits q" and "\<forall>j < length received. care j \<longrightarrow> care' j"
  shows "offsets_inv care' received commits q"
proof -
  from assms(1) obtain k where k: "k \<le> length received" "map lm_Message (coq_queue q) = drop k received" "\<forall>j < k. care j"
    "\<forall>j < length (coq_queue q). lm_Processed (coq_queue q ! j) \<longrightarrow> care (k + j)"
    and c: "\<forall>m \<in> set commits. \<exists>x < length received. received ! x = m \<and> (\<forall>j \<le> x. care j)"
    unfolding offsets_inv_def by blast
  have "length (coq_queue q) = length received - k" using k(2) by (metis length_drop length_map)
  then have "\<forall>j < length (coq_queue q). lm_Processed (coq_queue q ! j) \<longrightarrow> care' (k + j)" using k(4) assms(2) by auto
  moreover have "\<forall>j < k. care' j" using k(1,3) assms(2) by auto
  moreover have "\<forall>m \<in> set commits. \<exists>x < length received. received ! x = m \<and> (\<forall>j \<le> x. care' j)"
    using c assms(2) by (meson le_less_trans)
  ultimately show ?thesis using k(1,2) unfolding offsets_inv_def by blast
qed

lemma offsets_inv_receive:
  assumes "offsets_inv care received commits q" and "coq_AddProcessing m q = (None, q')"
  shows "offsets_inv care (received @ [m]) commits q'"
proof -
  from assms(1) obtain k where k: "k \<le> length received" "map lm_Message (coq_queue q) = drop k received" "\<forall>j < k. care j"
    "\<forall>j < length (coq_queue q). lm_Processed (coq_queue q ! j) \<longrightarrow> care (k + j)"
    and c: "\<forall>m \<in> set commits. \<exists>x < length received. received ! x = m \<and> (\<forall>j \<le> x. care j)"
    unfolding offsets_inv_def by blast
  have q': "coq_queue q' = coq_queue q @ [\<lparr>lm_Message = m, lm_Processed = False\<rparr>]"
    using assms(2) by (auto simp: coq_AddProcessing_def split: if_splits)
  have "\<exists>x < length (received @ [m]). (received @ [m]) ! x = m' \<and> (\<forall>j \<le> x. care j)" if "m' \<in> set commits" for m'
    using c that by (metis length_append_singleton less_Suc_eq nth_append)
  then show ?thesis unfolding offsets_inv_def
    using k q' by (intro conjI exI [of _ k]) (auto simp: nth_append less_Suc_eq)
qed

lemma coq_ack_recorded:
  assumes "coq_AcknowledgeResult (recording commitOffset) m None bl q = Some (e, bl', q')"
  defines "ms \<equiv> mark_processed m (coq_queue q)"
  defines "K \<equiv> length (takeWhile lm_Processed ms)"
  shows "\<exists>k \<le> K. coq_queue q' = drop k ms \<and> (snd bl' = snd bl \<or> 0 < K \<and> snd bl' = snd bl @ [lm_Message (ms ! (K - 1))])"
proof (cases "K = 0")
  case True
  then show ?thesis using assms(1) by (auto simp: coq_AcknowledgeResult_nil Let_def ms_def K_def)
next
  case False
  then have K: "0 < K" by simp
  obtain f b' where co: "commitOffset (lm_Message (ms ! (K - 1))) (fst bl) = (f, b')" by force
  then have rec: "recording commitOffset (lm_Message (ms ! (K - 1))) bl = (f, b', snd bl @ [lm_Message (ms ! (K - 1))])"
    by (simp add: recording_def)
  have "coq_queue q' = drop (if f = None then K else 0) ms \<and> snd bl' = snd bl @ [lm_Message (ms ! (K - 1))]"
    using assms(1) False rec unfolding coq_AcknowledgeResult_nil Let_def ms_def [symmetric] K_def [symmetric]
    by (cases f) (auto split: if_splits)
  then show ?thesis using K by (intro exI [of _ "if f = None then K else 0"]) auto
qed

lemma offsets_inv_ack:
  assumes inv: "offsets_inv care received commits q" and "distinct (map cm_ptr received)" and "i < length received" and "received ! i = m" and "care i"
    and ack: "coq_AcknowledgeResult (recording commitOffset) m None (b, commits) q = Some (e, bl', q')"
  shows "offsets_inv care received (snd bl') q'"
proof -
  let ?ms = "mark_processed m (coq_queue q)"
  from inv obtain k where k: "k \<le> length received" "map lm_Message (coq_queue q) = drop k received" "\<forall>j < k. care j"
    "\<forall>j < length (coq_queue q). lm_Processed (coq_queue q ! j) \<longrightarrow> care (k + j)"
    and c: "\<forall>m \<in> set commits. \<exists>x < length received. received ! x = m \<and> (\<forall>j \<le> x. care j)"
    unfolding offsets_inv_def by blast
  have len: "length ?ms = length received - k" using k(2) by (metis length_drop length_map length_mark_processed)
  have msgs: "map lm_Message ?ms = drop k received" 
    unfolding k(2) [symmetric] by (simp add: mark_processed_def o_def if_distrib cong: if_cong)
  have msg: "lm_Message (?ms ! j) = received ! (k + j)" if "j < length ?ms" for j
    using msgs that k(1) by (metis nth_drop nth_map)
  have marked: "care (k + j)" if j: "j < length ?ms" "lm_Processed (?ms ! j)" for j
  proof (cases "lm_Processed (coq_queue q ! j)")
    case True
    then show ?thesis using k(4) j(1) by simp
  next
    case False
    then have "cm_ptr (lm_Message (coq_queue q ! j)) = cm_ptr m"
      using j by (auto simp: mark_processed_def split: if_splits)
    then have "cm_ptr (received ! (k + j)) = cm_ptr (received ! i)"
      using msg [OF j(1)] j(1) assms(4) by (auto simp: mark_processed_def split: if_splits)
    then have "k + j = i" using assms(2,3) j(1) len k(1) by (simp add: distinct_conv_nth) (metis less_diff_conv add.commute)
    then show ?thesis using assms(5) by simp
  qed
  define K where "K = length (takeWhile lm_Processed ?ms)"
  have K: "K \<le> length ?ms" unfolding K_def by (rule length_takeWhile_le)
  have front: "care j" if "j < k + K" for j
  proof (cases "j < k")
    case False
    then have "j - k < K" using that by simp
    moreover from this have "lm_Processed (?ms ! (j - k))" unfolding K_def by (metis nth_mem set_takeWhileD takeWhile_nth)
    ultimately show ?thesis using marked [of "j - k"] K False by simp
  qed (use k(3) in simp)
  from coq_ack_recorded [OF ack] obtain k' where k': "k' \<le> K" "coq_queue q' = drop k' ?ms"
    and log: "snd bl' = commits \<or> 0 < K \<and> snd bl' = commits @ [lm_Message (?ms ! (K - 1))]"
    unfolding K_def by auto
  have "\<exists>x < length received. received ! x = lm_Message (?ms ! (K - 1)) \<and> (\<forall>j \<le> x. care j)" if "0 < K"
    using that K len k(1) msg [of "K - 1"] front by (intro exI [of _ "k + (K - 1)"]) auto
  then have "\<forall>m \<in> set (snd bl'). \<exists>x < length received. received ! x = m \<and> (\<forall>j \<le> x. care j)" using c log by auto
  moreover have "map lm_Message (coq_queue q') = drop (k + k') received" using k'(2) msgs by (metis drop_drop drop_map add.commute)
  moreover have "\<forall>j < length (coq_queue q'). lm_Processed (coq_queue q' ! j) \<longrightarrow> care (k + k' + j)"
    using k' K marked [of "k' + _"] by (auto simp: add.assoc)
  ultimately show ?thesis unfolding offsets_inv_def using k'(1) K len k(1) front by (intro conjI exI [of _ "k + k'"]) auto
qed


text \<open>The care taken of the message received as number \<open>j\<close>.\<close>

definition cared :: "('w, 'q) listener \<Rightarrow> ('w, 'q) listener_run \<Rightarrow> nat \<Rightarrow> bool" where
  "cared L s j \<longleftrightarrow> (case lr_procs s ! j of (m, c, p) \<Rightarrow> taken_care_of L m (pr_trace p))"

abbreviation run_commits :: "('w, ('b \<times> consumer_message list) \<times> 'q) listener_run \<Rightarrow> consumer_message list" where
  "run_commits s \<equiv> snd (fst (lr_queue s))"

lemma cared_update:
  assumes "i < length (lr_procs s)" and "lr_procs s ! i = (m, c, p)" and "pr_trace p' = pr_trace p @ evs" and "cared L s j"
  shows "cared L (s\<lparr>lr_queue := q, lr_world := w, lr_procs := (lr_procs s)[i := (m, c, p')]\<rparr>) j"
  using assms by (cases "i = j") (auto simp: cared_def taken_care_of_grows)

lemma commits_step:
  assumes "consumerWorker_step (broker_take coq_take_token) (broker_add coq_AddProcessing) (coq_refs \<circ> snd) L s s'"
    and L: "ln_ack L = broker_ack (coq_AcknowledgeResult (recording commitOffset))" and ok: "run_ok L s"
    and inv: "offsets_inv (cared L s) (lr_received s) (run_commits s) (snd (lr_queue s))"
  shows "offsets_inv (cared L s') (lr_received s') (run_commits s') (snd (lr_queue s'))"
  using assms(1)
proof cases
  case (token q)
  then show ?thesis using inv
    by (auto simp: broker_take_def coq_take_token_def offsets_inv_def cared_def split: if_splits)
next
  case (receive m q c)
  obtain q1 where add: "coq_AddProcessing m (snd (lr_queue s)) = (None, q1)" and q: "q = (fst (lr_queue s), q1)"
    using receive(4) by (auto simp: broker_add_def split: prod.splits)
  have same: "cared L s' j \<longleftrightarrow> cared L s j" if "j < length (lr_procs s)" for j
    using that receive(1) by (simp add: cared_def nth_append)
  have "offsets_inv (cared L s') (lr_received s) (run_commits s) (snd (lr_queue s))"
    using offsets_inv_mono [OF inv, of "cared L s'"] same by simp
  from offsets_inv_receive [OF this add] show ?thesis using receive(1) q by simp
next
  case (refused m e q)
  have "q = lr_queue s" using refused(4) by (auto simp: broker_add_def coq_AddProcessing_def split: prod.splits if_splits)
  then have "lr_queue s' = lr_queue s" "lr_procs s' = lr_procs s" "cared L s' = cared L s" using refused(1) by (simp_all add: cared_def fun_eq_iff)
  then show ?thesis using inv by simp
next
  case (goroutine i m c p p')
  have "(m, c, p) \<in> set (lr_procs s)" using nth_mem [OF goroutine(2)] goroutine(3) by simp
  then have p: "proc_ok L m (resume (lr_queue s) (lr_world s) p)" using ok by (auto simp: run_ok_def)
  obtain evs where "pr_trace p' = pr_trace p @ evs" using trace_grows [OF goroutine(4)] by auto
  from cared_update [OF goroutine(2,3) this] have mono: "cared L s j \<Longrightarrow> cared L s' j" for j using goroutine(1) by simp
  have rec: "lr_received s' = lr_received s" using received_update [OF goroutine(2,3)] goroutine(1) by simp
  have inv': "offsets_inv (cared L s') (lr_received s) (run_commits s) (snd (lr_queue s))"
    using offsets_inv_mono [OF inv] mono by blast
  from step_acknowledges [OF goroutine(4) p] show ?thesis
  proof (elim disjE conjE exE)
    assume "pr_queue p' = pr_queue (resume (lr_queue s) (lr_world s) p)"
    then show ?thesis using inv' rec goroutine(1) by simp
  next
    fix r e
    assume a: "ln_ack L m r (pr_queue (resume (lr_queue s) (lr_world s) p)) = Some (e, pr_queue p')"
      and care: "r = None \<longrightarrow> taken_care_of L m (pr_trace (resume (lr_queue s) (lr_world s) p))"
    show ?thesis
    proof (cases r)
      case (Some f)
      then have "pr_queue p' = lr_queue s" using a L by (auto simp: broker_ack_def coq_AcknowledgeResult_def)
      then show ?thesis using inv' rec goroutine(1) by simp
    next
      case None
      have care': "cared L s' i" using care None goroutine(3) mono by (simp add: cared_def)
      have call: "coq_AcknowledgeResult (recording commitOffset) m None (fst (fst (lr_queue s)), run_commits s) (snd (lr_queue s))
          = Some (e, fst (pr_queue p'), snd (pr_queue p'))"
        using a L None by (simp add: broker_ack_def)
      have "distinct (map cm_ptr (lr_received s))" "i < length (lr_received s)" "lr_received s ! i = m"
        using ok goroutine(2,3) by (simp_all add: run_ok_def)
      from offsets_inv_ack [OF inv' this care' call] show ?thesis using goroutine(1) rec by simp
    qed
  qed
qed (use inv in \<open>auto simp: offsets_inv_def cared_def\<close>)

text \<open>
  C3. The listener over the commit-offset queue as a whole, under every interleaving of its loop, its goroutines, their handlers and retries, cancellation
  and failures of the broker: \<^verbatim>\<open>CommitOffset\<close> is only ever called with a message that was received, and only when that message and every message received
  before it has been handled successfully by all handlers of its type (or cannot be deserialized or has no handler).  The worker never stops because
  its queue is full, at most the configured number of messages is unacknowledged at a time, and when it returns every goroutine has ended, each with its message
  acknowledged unless the context is cancelled.
\<close>

theorem offsets_committed_after_handling:
  assumes "L = NewListener deserialize handlers (broker_ack (coq_AcknowledgeResult (recording commitOffset))) mws"
    and "worker_runs (broker_take coq_take_token) (broker_add coq_AddProcessing) (coq_refs \<circ> snd) L
      ((b0, []), NewCommitOffsetQueue maxSize) w s"
  shows "(\<forall>m \<in> set (run_commits s). \<exists>k < length (lr_procs s). lr_received s ! k = m \<and> (\<forall>j \<le> k. cared L s j))
    \<and> (lr_loop s = WMessage \<and> cm_ptr m \<notin> coq_refs (snd (lr_queue s)) \<longrightarrow> fst (coq_AddProcessing m (snd (lr_queue s))) = None)
    \<and> length (coq_queue (snd (lr_queue s))) \<le> nat (max 1 maxSize)
    \<and> (\<forall>e. lr_loop s = WReturned e \<longrightarrow> (\<forall>(m, c, p) \<in> set (lr_procs s).
         pr_phase p = PDone \<and> ((\<exists>r. LAck r None \<in> set (pr_trace p)) \<or> lr_cancelled s)))"
proof -
  have L: "ln_ack L = broker_ack (coq_AcknowledgeResult (recording commitOffset))" using assms(1) by (simp add: NewListener_def)
  have ok: "run_ok L s" and reach: "worker_reachable coq_take_token coq_AddProcessing (coq_AcknowledgeResult (recording commitOffset)) coq_refs
      (NewCommitOffsetQueue maxSize) (b0, []) (abs_worker s)"
    if "worker_runs (broker_take coq_take_token) (broker_add coq_AddProcessing) (coq_refs \<circ> snd) L ((b0, []), NewCommitOffsetQueue maxSize) w s" for s
    using coq.worker_run_refines [OF that L, of "nat (max 1 maxSize)"] by (simp_all add: new_commit_units)
  from assms(2) have "offsets_inv (cared L s) (lr_received s) (run_commits s) (snd (lr_queue s))"
  proof (induction rule: rtranclp_induct)
    case base
    show ?case by (simp add: offsets_inv_def worker_start_def NewCommitOffsetQueue_def Let_def)
  next
    case (step s s')
    then show ?case using commits_step [OF step(2) L ok] by blast
  qed
  then have commits: "\<forall>m \<in> set (run_commits s). \<exists>k < length (lr_procs s). lr_received s ! k = m \<and> (\<forall>j \<le> k. cared L s j)"
    by (simp add: offsets_inv_def)
  have inv: "coq.worker_inv (nat (max 1 maxSize)) (abs_worker s)"
    using reach [OF assms(2)] by (rule coq.reachable_inv) (simp_all add: new_commit_units)
  have "ws_token (abs_worker s)" if "lr_loop s = WMessage" using ok [OF assms(2)] that by (simp add: run_ok_def abs_worker_def)
  then have "lr_loop s = WMessage \<and> cm_ptr m \<notin> coq_refs (snd (lr_queue s)) \<longrightarrow> fst (coq_AddProcessing m (snd (lr_queue s))) = None"
    using coq.inv_add_succeeds [OF inv, of m] by (simp add: abs_worker_def)
  moreover have "length (coq_queue (snd (lr_queue s))) \<le> nat (max 1 maxSize)" using coq.inv_bounded [OF inv] by (simp add: abs_worker_def)
  moreover have "\<forall>e. lr_loop s = WReturned e \<longrightarrow> (\<forall>(m, c, p) \<in> set (lr_procs s).
      pr_phase p = PDone \<and> ((\<exists>r. LAck r None \<in> set (pr_trace p)) \<or> lr_cancelled s))"
    using run_ok_returned [OF ok [OF assms(2)]] .
  ultimately show ?thesis using commits by blast
qed


text \<open>A listener with one goroutine runs it to its end.\<close>

lemma single_goroutine:
  assumes "(process_step L m c)\<^sup>*\<^sup>* p p'" and "lr_procs s = [(m, c, p)]" and "lr_queue s = pr_queue p" and "lr_world s = pr_world p"
    and "\<not> pr_cancelled p'"
  shows "(consumerWorker_step take_token add_processing refs L)\<^sup>*\<^sup>* s
    (s\<lparr>lr_queue := pr_queue p', lr_world := pr_world p', lr_procs := [(m, c, p')]\<rparr>)"
  using assms(1,5)
proof (induction rule: rtranclp_induct)
  case base
  have "s\<lparr>lr_queue := pr_queue p, lr_world := pr_world p, lr_procs := [(m, c, p)]\<rparr> = s" using assms(2-4) by simp
  then show ?case by simp
next
  case (step p1 p2)
  let ?s1 = "s\<lparr>lr_queue := pr_queue p1, lr_world := pr_world p1, lr_procs := [(m, c, p1)]\<rparr>"
  from step(2,4) have "\<not> pr_cancelled p1" by (cases rule: process_step.cases) auto
  moreover have "resume (lr_queue ?s1) (lr_world ?s1) p1 = p1" by (simp add: resume_def)
  then have "consumerWorker_step take_token add_processing refs L ?s1
      (?s1\<lparr>lr_queue := pr_queue p2, lr_world := pr_world p2, lr_procs := (lr_procs ?s1)[0 := (m, c, p2)]\<rparr>)"
    by (intro consumerWorker_step.goroutine [where p = p1]) (use step(2,4) in auto)
  ultimately show ?case using step.IH by (simp add: rtranclp.rtrancl_into_rtrancl)
qed

abbreviation example_commit :: "(unit \<times> consumer_message list) commit_strategy" where
  "example_commit \<equiv> recording (\<lambda>_ b. (None, b))"

theorem offsets_committed_after_handling_witness:
  "\<exists>s. worker_runs (broker_take coq_take_token) (broker_add coq_AddProcessing) (coq_refs \<circ> snd)
        (example_listener (broker_ack (coq_AcknowledgeResult example_commit)))
        (((), []), NewCommitOffsetQueue 1) example_handler_world s
      \<and> run_commits s = [example_consumer_message] \<and> cared (example_listener (broker_ack (coq_AcknowledgeResult example_commit))) s 0
      \<and> hw_app (lr_world s) = 1"
proof -
  let ?ack = "broker_ack (coq_AcknowledgeResult example_commit)"
  let ?L = "example_listener ?ack"
  let ?step = "consumerWorker_step (broker_take coq_take_token) (broker_add coq_AddProcessing) (coq_refs \<circ> snd) ?L"
  let ?b0 = "((), []) :: unit \<times> consumer_message list"
  let ?q0 = "\<lparr>coq_cap = 1, coq_tokens = 0, coq_queue = []\<rparr>"
  let ?q1 = "\<lparr>coq_cap = 1, coq_tokens = 0, coq_queue = [\<lparr>lm_Message = example_consumer_message, lm_Processed = False\<rparr>]\<rparr>"
  let ?q2 = "\<lparr>coq_cap = 1, coq_tokens = 1, coq_queue = []\<rparr>"
  let ?s0 = "worker_start (?b0, NewCommitOffsetQueue 1) example_handler_world"
  let ?s1 = "?s0\<lparr>lr_loop := WMessage, lr_token := True, lr_queue := (?b0, ?q0)\<rparr>"
  let ?p = "processing_start ((lr_world ?s1)\<lparr>hw_panic := False\<rparr>) (?b0, ?q1)"
  let ?s2 = "?s1\<lparr>lr_loop := WToken, lr_token := False, lr_queue := (?b0, ?q1),
      lr_procs := lr_procs ?s1 @ [(example_consumer_message, background_handler, ?p)]\<rparr>"
  have "?step ?s0 ?s1"
    by (rule consumerWorker_step.token) (simp_all add: worker_start_def broker_take_def coq_take_token_def NewCommitOffsetQueue_def)
  moreover have "?step ?s1 ?s2"
    by (rule consumerWorker_step.receive) (simp_all add: worker_start_def broker_add_def coq_AddProcessing_def coq_refs_def)
  moreover have "?ack example_consumer_message None (?b0, ?q1) = Some (None, ((), [example_consumer_message]), ?q2)"
    by (simp add: broker_ack_def coq_AcknowledgeResult_nil recording_def mark_processed_def)
  note run = example_processing [where ack = ?ack, OF this]
  let ?p' = "\<lparr>pr_phase = PDone, pr_world = example_handler_world\<lparr>hw_app := 1\<rparr>, pr_queue = (((), [example_consumer_message]), ?q2),
      pr_cancelled = False, pr_trace = [LHandled 0 None, LAck None None]\<rparr>"
  let ?s3 = "?s2\<lparr>lr_queue := pr_queue ?p', lr_world := pr_world ?p', lr_procs := [(example_consumer_message, background_handler, ?p')]\<rparr>"
  have "?step\<^sup>*\<^sup>* ?s2 ?s3"
    by (rule single_goroutine [OF run]) (simp_all add: worker_start_def processing_start_def example_handler_world_def)
  ultimately have runs: "?step\<^sup>*\<^sup>* ?s0 ?s3" by (meson converse_rtranclp_into_rtranclp)
  have "run_commits ?s3 = [example_consumer_message]" "hw_app (lr_world ?s3) = 1" by simp_all
  moreover have "cared ?L ?s3 0"
    using offsets_committed_after_handling [where commitOffset = "\<lambda>_ b. (None, b)", OF example_listener_def [of ?ack] runs] by auto
  ultimately show ?thesis using runs by blast
qed


section \<open>Messages are acknowledged after handling\<close>

lemma cared_step:
  assumes "consumerWorker_step take_token add_processing refs L s s'" and "j < length (lr_procs s)" and "cared L s j"
  shows "j < length (lr_procs s') \<and> lr_received s' ! j = lr_received s ! j \<and> cared L s' j"
  using assms(1)
proof cases
  case (goroutine i m c p p')
  obtain evs where "pr_trace p' = pr_trace p @ evs" using trace_grows [OF goroutine(4)] by auto
  from cared_update [OF goroutine(2,3) this assms(3)] have "cared L s' j" using goroutine(1) by simp
  moreover have "lr_received s' = lr_received s" using goroutine(1) received_update [OF goroutine(2,3)] by simp
  ultimately show ?thesis using assms(2) by (metis length_map)
qed (use assms(2,3) in \<open>auto simp: cared_def nth_append\<close>)

lemma ack_calls:
  assumes "ackq_AcknowledgeResult (recording ack) m r bl q = Some (e, bl', q')"
  shows "snd bl' = snd bl \<or> r = None \<and> snd bl' = snd bl @ [m]"
  using assms by (auto simp: queue_simps recording_def split: option.splits prod.splits if_splits)

lemma acks_step:
  assumes step: "consumerWorker_step (broker_take anq_take_token) (broker_add anq_AddProcessing) (anq_queue \<circ> snd) L s s'"
    and L: "ln_ack L = broker_ack (ackq_AcknowledgeResult (recording ack))" and ok: "run_ok L s"
  shows "run_commits s' = run_commits s \<or> (\<exists>i < length (lr_procs s). cared L s i \<and> run_commits s' = run_commits s @ [lr_received s ! i])"
  using step
proof cases
  case (goroutine i m c p p')
  have "(m, c, p) \<in> set (lr_procs s)" using nth_mem [OF goroutine(2)] goroutine(3) by simp
  then have p: "proc_ok L m (resume (lr_queue s) (lr_world s) p)" using ok by (auto simp: run_ok_def)
  from step_acknowledges [OF goroutine(4) p] show ?thesis
  proof (elim disjE conjE exE)
    fix r e
    assume a: "ln_ack L m r (pr_queue (resume (lr_queue s) (lr_world s) p)) = Some (e, pr_queue p')"
      and care: "r = None \<longrightarrow> taken_care_of L m (pr_trace (resume (lr_queue s) (lr_world s) p))"
    have "ackq_AcknowledgeResult (recording ack) m r (fst (lr_queue s)) (snd (lr_queue s)) = Some (e, fst (pr_queue p'), snd (pr_queue p'))"
      using a L by (simp add: broker_ack_def)
    from ack_calls [OF this] show ?thesis using care goroutine(1-3) by (auto simp: cared_def)
  qed (use goroutine(1) in simp)
qed (auto simp: broker_take_def broker_add_def split: prod.splits)

text \<open>
  C7. The listener the services are built with, over the ack queue, as a whole and under every interleaving of its loop, goroutines, handlers, retries, cancellation and failures
  of the broker: \<^verbatim>\<open>Ack\<close> is only ever called with a received message that has been handled successfully by all handlers of its type (or cannot
  be deserialized or has no handler); at most the configured number of messages is received and not acknowledged; the worker never stops
  because its queue refuses a message; and when it returns every goroutine has ended, each with its message acknowledged unless the context is cancelled.
\<close>

theorem messages_acknowledged_after_handling:
  assumes "L = NewListener deserialize handlers (broker_ack (ackq_AcknowledgeResult (recording ack))) mws"
    and "worker_runs (broker_take anq_take_token) (broker_add anq_AddProcessing) (anq_queue \<circ> snd) L
      ((b0, []), NewAckNackQueue maxSize) w s"
  shows "(\<forall>m \<in> set (run_commits s). \<exists>k < length (lr_procs s). lr_received s ! k = m \<and> cared L s k)
    \<and> length (filter unacknowledged (lr_procs s)) \<le> nat (max 1 maxSize)
    \<and> (lr_loop s = WMessage \<and> cm_ptr m \<notin> anq_queue (snd (lr_queue s)) \<longrightarrow> fst (anq_AddProcessing m (snd (lr_queue s))) = None)
    \<and> (\<forall>e. lr_loop s = WReturned e \<longrightarrow> (\<forall>(m, c, p) \<in> set (lr_procs s).
         pr_phase p = PDone \<and> ((\<exists>r. LAck r None \<in> set (pr_trace p)) \<or> lr_cancelled s)))"
proof -
  have L: "ln_ack L = broker_ack (ackq_AcknowledgeResult (recording ack))" using assms(1) by (simp add: NewListener_def)
  have ok: "run_ok L s" and reach: "worker_reachable anq_take_token anq_AddProcessing (ackq_AcknowledgeResult (recording ack)) anq_queue
      (NewAckNackQueue maxSize) (b0, []) (abs_worker s)"
    if "worker_runs (broker_take anq_take_token) (broker_add anq_AddProcessing) (anq_queue \<circ> snd) L ((b0, []), NewAckNackQueue maxSize) w s" for s
    using ackq.worker_run_refines [OF that L, of "nat (max 1 maxSize)"] by (simp_all add: new_ack_units)
  from assms(2) have calls: "\<forall>m \<in> set (run_commits s). \<exists>k < length (lr_procs s). lr_received s ! k = m \<and> cared L s k"
  proof (induction rule: rtranclp_induct)
    case base
    show ?case by (simp add: worker_start_def)
  next
    case (step s s')
    have mono: "\<forall>m \<in> set (run_commits s). \<exists>k < length (lr_procs s'). lr_received s' ! k = m \<and> cared L s' k"
    proof
      fix m assume "m \<in> set (run_commits s)"
      with step.IH obtain k where "k < length (lr_procs s)" "lr_received s ! k = m" "cared L s k" by blast
      with cared_step [OF step(2)] show "\<exists>k < length (lr_procs s'). lr_received s' ! k = m \<and> cared L s' k" by metis
    qed
    from acks_step [OF step(2) L ok [OF step(1)]] show ?case
    proof (elim disjE exE conjE)
      fix i assume i: "i < length (lr_procs s)" "cared L s i" "run_commits s' = run_commits s @ [lr_received s ! i]"
      from cared_step [OF step(2) i(1,2)] mono show ?case unfolding i(3) by auto
    qed (use mono in simp)
  qed
  have inv: "ackq.worker_inv (nat (max 1 maxSize)) (abs_worker s)"
    using reach [OF assms(2)] by (rule ackq.reachable_inv) (simp_all add: new_ack_units)
  have "card (anq_queue (ws_queue (abs_worker s))) = length (ws_active (abs_worker s))"
    using ack_active_reachable [OF reach [OF assms(2)]] by (metis distinct_card length_map set_map)
  then have "length (filter unacknowledged (lr_procs s)) \<le> nat (max 1 maxSize)"
    using ackq.inv_bounded [OF inv] by (simp add: abs_worker_def)
  moreover have "ws_token (abs_worker s)" if "lr_loop s = WMessage" using ok [OF assms(2)] that by (simp add: run_ok_def abs_worker_def)
  then have "lr_loop s = WMessage \<and> cm_ptr m \<notin> anq_queue (snd (lr_queue s)) \<longrightarrow> fst (anq_AddProcessing m (snd (lr_queue s))) = None"
    using ackq.inv_add_succeeds [OF inv, of m] by (simp add: abs_worker_def)
  moreover have "\<forall>e. lr_loop s = WReturned e \<longrightarrow> (\<forall>(m, c, p) \<in> set (lr_procs s).
      pr_phase p = PDone \<and> ((\<exists>r. LAck r None \<in> set (pr_trace p)) \<or> lr_cancelled s))"
    using run_ok_returned [OF ok [OF assms(2)]] .
  ultimately show ?thesis using calls by blast
qed

abbreviation example_ack :: "consumer_message \<Rightarrow> err \<Rightarrow> (unit \<times> consumer_message list) \<times> ack_nack_queue
    \<Rightarrow> (err \<times> (unit \<times> consumer_message list) \<times> ack_nack_queue) option" where
  "example_ack \<equiv> broker_ack (ackq_AcknowledgeResult example_commit)"

theorem messages_acknowledged_after_handling_witness:
  "\<exists>s. worker_runs (broker_take anq_take_token) (broker_add anq_AddProcessing) (anq_queue \<circ> snd) (example_listener example_ack)
        (((), []), NewAckNackQueue 1) example_handler_world s
      \<and> run_commits s = [example_consumer_message] \<and> cared (example_listener example_ack) s 0 \<and> hw_app (lr_world s) = 1"
proof -
  let ?L = "example_listener example_ack"
  let ?step = "consumerWorker_step (broker_take anq_take_token) (broker_add anq_AddProcessing) (anq_queue \<circ> snd) ?L"
  let ?b0 = "((), []) :: unit \<times> consumer_message list"
  let ?q0 = "\<lparr>anq_maxSize = 1, anq_tokens = 0, anq_queue = {}\<rparr>"
  let ?q1 = "\<lparr>anq_maxSize = 1, anq_tokens = 0, anq_queue = {0}\<rparr>"
  let ?q2 = "\<lparr>anq_maxSize = 1, anq_tokens = 1, anq_queue = {}\<rparr>"
  let ?s0 = "worker_start (?b0, NewAckNackQueue 1) example_handler_world"
  let ?s1 = "?s0\<lparr>lr_loop := WMessage, lr_token := True, lr_queue := (?b0, ?q0)\<rparr>"
  let ?p = "processing_start ((lr_world ?s1)\<lparr>hw_panic := False\<rparr>) (?b0, ?q1)"
  let ?s2 = "?s1\<lparr>lr_loop := WToken, lr_token := False, lr_queue := (?b0, ?q1),
      lr_procs := lr_procs ?s1 @ [(example_consumer_message, background_handler, ?p)]\<rparr>"
  have "?step ?s0 ?s1"
    by (rule consumerWorker_step.token) (simp_all add: worker_start_def broker_take_def anq_take_token_def NewAckNackQueue_def)
  moreover have "?step ?s1 ?s2"
    by (rule consumerWorker_step.receive)
      (simp_all add: worker_start_def broker_add_def anq_AddProcessing_def example_consumer_message_def)
  moreover have "example_ack example_consumer_message None (?b0, ?q1) = Some (None, ((), [example_consumer_message]), ?q2)"
    by (simp add: broker_ack_def queue_simps recording_def example_consumer_message_def)
  note run = example_processing [where ack = example_ack, OF this]
  let ?p' = "\<lparr>pr_phase = PDone, pr_world = example_handler_world\<lparr>hw_app := 1\<rparr>, pr_queue = (((), [example_consumer_message]), ?q2),
      pr_cancelled = False, pr_trace = [LHandled 0 None, LAck None None]\<rparr>"
  let ?s3 = "?s2\<lparr>lr_queue := pr_queue ?p', lr_world := pr_world ?p', lr_procs := [(example_consumer_message, background_handler, ?p')]\<rparr>"
  have "?step\<^sup>*\<^sup>* ?s2 ?s3"
    by (rule single_goroutine [OF run]) (simp_all add: worker_start_def processing_start_def example_handler_world_def)
  ultimately have runs: "?step\<^sup>*\<^sup>* ?s0 ?s3" by (meson converse_rtranclp_into_rtranclp)
  have "run_commits ?s3 = [example_consumer_message]" "hw_app (lr_world ?s3) = 1" by simp_all
  moreover have "cared ?L ?s3 0"
    using messages_acknowledged_after_handling [where ack = "\<lambda>_ b. (None, b)", OF example_listener_def [of example_ack] runs] by auto
  ultimately show ?thesis using runs by blast
qed

end
