(* ===== verification/Storage_Consumer.thy ===== *)
theory Storage_Consumer
  imports Message_Storage
begin

text \<open>
  \<^verbatim>\<open>pkg/message/storageconsumer.go\<close>: a consumer that reads its messages from the storage.  The worker
  locks the topic, finds due messages that are not in work, hands them one by one to the listener over an
  unbuffered channel, and waits until all of them are acknowledged.

  Worker and acknowledgements run concurrently, so the consumer is a step relation.  A send on the channel
  and the registration of the message as processing are two steps of the worker, as are the deletion and
  the removal in \<^verbatim>\<open>Ack\<close>.  The wait on the condition variable is taken as a wait for its condition: the
  worker goes on when the count is zero.
\<close>

section \<open>Provider\<close>

text \<open>A hook also sees \<^verbatim>\<open>ctx.Err()\<close> of the context it gets, where it asks for it.\<close>

record StorageConsumerProviderImpl =
  ConsumingBatchSize :: int
  OnMessageProcessing :: "(sql_ctx \<Rightarrow> topic \<Rightarrow> message \<Rightarrow> obs list outcome) list"
  OnAcknowledge :: "(sql_ctx \<Rightarrow> sentinel option \<Rightarrow> topic \<Rightarrow> message \<Rightarrow> err \<Rightarrow> obs list outcome) list"
  OnMessageBatchProcessed :: "(sql_ctx \<Rightarrow> sentinel option \<Rightarrow> topic \<Rightarrow> int \<Rightarrow> err \<Rightarrow> obs list outcome) list"
  scp_consumers :: "topic \<rightharpoonup> bool"

definition defaultStorageConsumerBatchSize :: int where
  "defaultStorageConsumerBatchSize = 100"

definition NewStorageConsumerProvider ::
    "(StorageConsumerProviderImpl \<Rightarrow> StorageConsumerProviderImpl) list \<Rightarrow> StorageConsumerProviderImpl" where
  "NewStorageConsumerProvider opts = fold (\<lambda>opt p. opt p) opts
     \<lparr>ConsumingBatchSize = defaultStorageConsumerBatchSize, OnMessageProcessing = [], OnAcknowledge = [], OnMessageBatchProcessed = [],
      scp_consumers = Map.empty\<rparr>"

definition WithStorageConsumerBatchSize :: "int \<Rightarrow> StorageConsumerProviderImpl \<Rightarrow> StorageConsumerProviderImpl" where
  "WithStorageConsumerBatchSize n p = p\<lparr>ConsumingBatchSize := n\<rparr>"

text \<open>A consumer is represented here by its signal slot, empty at first.\<close>

definition provider_Consumer ::
    "topic \<Rightarrow> StorageConsumerProviderImpl \<Rightarrow> err \<times> StorageConsumerProviderImpl" where
  "provider_Consumer tp p =
     (if scp_consumers p tp \<noteq> None then (Some (errors_new ''consumer already exists''), p)
      else (None, p\<lparr>scp_consumers := (scp_consumers p)(tp \<mapsto> False)\<rparr>))"

definition provider_Process :: "StorageConsumerProviderImpl \<Rightarrow> StorageConsumerProviderImpl" where
  "provider_Process p = p\<lparr>scp_consumers := (\<lambda>tp. map_option (\<lambda>_. True) (scp_consumers p tp))\<rparr>"

text \<open>The topics whose consumer's \<^verbatim>\<open>Worker\<close> is among the \<^verbatim>\<open>Workers\<close>.\<close>

definition provider_Workers :: "StorageConsumerProviderImpl \<Rightarrow> topic set" where
  "provider_Workers p = dom (scp_consumers p)"

section \<open>The consumer\<close>

datatype 'l sc_phase =
    SIdle
  | SBegin
  | SFind sql_ctx 'l
  | SSend sql_ctx 'l "message list" nat
  | SSent sql_ctx 'l message "message list" nat
  | SAwait sql_ctx 'l nat
  | SRelease 'l bool err
  | SRetry
  | SLeft

record ('l, 's) storage_consumer =
  sc_phase :: "'l sc_phase"
  sc_store :: 's
  sc_processing :: "uuid set"
  sc_processedCount :: nat
  sc_inflight :: "message list"
  sc_deleted :: "message list"
  sc_signal :: bool
  sc_cancelled :: bool

definition newStorageConsumer :: "'s \<Rightarrow> ('l, 's) storage_consumer" where
  "newStorageConsumer s = \<lparr>sc_phase = SIdle, sc_store = s, sc_processing = {}, sc_processedCount = 0,
     sc_inflight = [], sc_deleted = [], sc_signal = False, sc_cancelled = False\<rparr>"

definition consumer_Process :: "('l, 's) storage_consumer \<Rightarrow> ('l, 's) storage_consumer" where
  "consumer_Process c = c\<lparr>sc_signal := True\<rparr>"

definition addToProcessing :: "uuid \<Rightarrow> ('l, 's) storage_consumer \<Rightarrow> ('l, 's) storage_consumer" where
  "addToProcessing i c =
     (let ids = insert i (sc_processing c) in c\<lparr>sc_processing := ids, sc_processedCount := card ids\<rparr>)"

definition removeFromProcessing :: "uuid \<Rightarrow> ('l, 's) storage_consumer \<Rightarrow> ('l, 's) storage_consumer" where
  "removeFromProcessing i c =
     (let ids = sc_processing c - {i} in c\<lparr>sc_processing := ids, sc_processedCount := card ids\<rparr>)"

text \<open>
  The specification of \<^verbatim>\<open>consumeStorageMessagesBatch\<close>'s query; \<open>ids\<close> lists the messages in work in the
  order Go ranges over them.
\<close>

definition batch_spec :: "topic \<Rightarrow> int \<Rightarrow> time \<Rightarrow> uuid list \<Rightarrow> storage_specification" where
  "batch_spec tp batchSize now ids =
     \<lparr>spec_IDsExcluded = ids, spec_Topics = [tp], spec_ScheduledAtBefore = now, spec_Limit = batchSize\<rparr>"

text \<open>
  \<open>ctx\<close> is the context of the worker, \<open>actx\<close> the one of the listener's acknowledgements.  The error of
  the deferred release replaces a nil result only; the wrapped value is the nil error, the error is still
  an error.
\<close>

inductive consumer_step ::
    "('l, 's) storage_ops \<Rightarrow> topic \<Rightarrow> int \<Rightarrow> sql_ctx \<Rightarrow> sql_ctx
      \<Rightarrow> ('l, 's) storage_consumer \<Rightarrow> ('l, 's) storage_consumer \<Rightarrow> bool"
  for S tp batchSize ctx actx where
  signal: "consumer_step S tp batchSize ctx actx c (consumer_Process c)"
| cancel: "consumer_step S tp batchSize ctx actx c (c\<lparr>sc_cancelled := True\<rparr>)"
| wake: "sc_phase c = SIdle \<Longrightarrow> sc_signal c \<Longrightarrow>
    consumer_step S tp batchSize ctx actx c (c\<lparr>sc_phase := SBegin, sc_signal := False\<rparr>)"
| leave: "sc_phase c = SIdle \<Longrightarrow> sc_cancelled c \<Longrightarrow>
    consumer_step S tp batchSize ctx actx c (c\<lparr>sc_phase := SLeft\<rparr>)"
| lock_ok: "sc_phase c = SBegin \<Longrightarrow> so_Lock S ctx [''topic'', tp] (sc_store c) = (Inr (ctx', l), s) \<Longrightarrow>
    consumer_step S tp batchSize ctx actx c (c\<lparr>sc_phase := SFind ctx' l, sc_store := s\<rparr>)"
| lock_error: "sc_phase c = SBegin \<Longrightarrow> so_Lock S ctx [''topic'', tp] (sc_store c) = (Inl e, s) \<Longrightarrow>
    consumer_step S tp batchSize ctx actx c (c\<lparr>sc_phase := SRetry, sc_store := s\<rparr>)"
| find_error: "sc_phase c = SFind ctx' l \<Longrightarrow> set ids = sc_processing c \<Longrightarrow>
    so_Find S ctx' (batch_spec tp batchSize now ids) (sc_store c) = (Inl e, s) \<Longrightarrow>
    consumer_step S tp batchSize ctx actx c (c\<lparr>sc_phase := SRelease l False (Some e), sc_store := s\<rparr>)"
| find_none: "sc_phase c = SFind ctx' l \<Longrightarrow> set ids = sc_processing c \<Longrightarrow>
    so_Find S ctx' (batch_spec tp batchSize now ids) (sc_store c) = (Inr [], s) \<Longrightarrow>
    consumer_step S tp batchSize ctx actx c (c\<lparr>sc_phase := SRelease l True None, sc_store := s\<rparr>)"
| find_some: "sc_phase c = SFind ctx' l \<Longrightarrow> set ids = sc_processing c \<Longrightarrow>
    so_Find S ctx' (batch_spec tp batchSize now ids) (sc_store c) = (Inr msgs, s) \<Longrightarrow> msgs \<noteq> [] \<Longrightarrow>
    consumer_step S tp batchSize ctx actx c (c\<lparr>sc_phase := SSend ctx' l msgs (length msgs), sc_store := s\<rparr>)"
| send: "sc_phase c = SSend ctx' l (m # msgs) n \<Longrightarrow>
    consumer_step S tp batchSize ctx actx c
      (c\<lparr>sc_phase := SSent ctx' l m msgs n, sc_inflight := sc_inflight c @ [m]\<rparr>)"
| send_cancelled: "sc_phase c = SSend ctx' l (m # msgs) n \<Longrightarrow> sc_cancelled c \<Longrightarrow>
    consumer_step S tp batchSize ctx actx c
      (c\<lparr>sc_phase := SRelease l True (Some (Sentinel ContextCanceled))\<rparr>)"
| added: "sc_phase c = SSent ctx' l m msgs n \<Longrightarrow>
    consumer_step S tp batchSize ctx actx c
      (addToProcessing (msg_ID m) (c\<lparr>sc_phase := SSend ctx' l msgs n\<rparr>))"
| all_sent: "sc_phase c = SSend ctx' l [] n \<Longrightarrow>
    consumer_step S tp batchSize ctx actx c (c\<lparr>sc_phase := SAwait ctx' l n\<rparr>)"
| all_processed: "sc_phase c = SAwait ctx' l n \<Longrightarrow> sc_processedCount c = 0 \<Longrightarrow>
    consumer_step S tp batchSize ctx actx c (c\<lparr>sc_phase := SRelease l (int n < batchSize) None\<rparr>)"
| release_ok: "sc_phase c = SRelease l allProcessed None \<Longrightarrow> so_release S l (sc_store c) = (None, s) \<Longrightarrow>
    consumer_step S tp batchSize ctx actx c
      (c\<lparr>sc_phase := if allProcessed then SIdle else SBegin, sc_store := s\<rparr>)"
| release_error: "sc_phase c = SRelease l allProcessed e \<Longrightarrow> so_release S l (sc_store c) = (e', s) \<Longrightarrow>
    e \<noteq> None \<or> e' \<noteq> None \<Longrightarrow>
    consumer_step S tp batchSize ctx actx c (c\<lparr>sc_phase := SRetry, sc_store := s\<rparr>)"
| retry: "sc_phase c = SRetry \<Longrightarrow> consumer_step S tp batchSize ctx actx c (c\<lparr>sc_phase := SBegin\<rparr>)"
| give_up: "sc_phase c = SRetry \<Longrightarrow> consumer_step S tp batchSize ctx actx c (c\<lparr>sc_phase := SIdle\<rparr>)"
| ack_delete: "m \<in> set (sc_inflight c) \<Longrightarrow>
    so_Delete S actx (msg_Topic m) [msg_ID m] (sc_store c) = (None, s) \<Longrightarrow>
    consumer_step S tp batchSize ctx actx c
      (c\<lparr>sc_store := s, sc_inflight := remove1 m (sc_inflight c), sc_deleted := sc_deleted c @ [m]\<rparr>)"
| ack_error: "m \<in> set (sc_inflight c) \<Longrightarrow>
    so_Delete S actx (msg_Topic m) [msg_ID m] (sc_store c) = (Some e, s) \<Longrightarrow>
    consumer_step S tp batchSize ctx actx c (c\<lparr>sc_store := s\<rparr>)"
| ack_remove: "m \<in> set (sc_deleted c) \<Longrightarrow>
    consumer_step S tp batchSize ctx actx c
      (removeFromProcessing (msg_ID m) (c\<lparr>sc_deleted := remove1 m (sc_deleted c)\<rparr>))"
| stored: "so_Store S sctx at ms (sc_store c) = (e, s) \<Longrightarrow> cx_tx sctx = None \<Longrightarrow>
    consumer_step S tp batchSize ctx actx c (c\<lparr>sc_store := s\<rparr>)"

definition consumer_start :: "'s \<Rightarrow> ('l, 's) storage_consumer" where
  "consumer_start s = consumer_Process (newStorageConsumer s)"

section \<open>Invariant\<close>

text \<open>The messages still to be sent in the batch: of the topic, each once, none of them in work.\<close>

fun to_send :: "'l sc_phase \<Rightarrow> message list" where
  "to_send (SSend ctx l ms n) = ms"
| "to_send (SSent ctx l m ms n) = m # ms"
| "to_send ph = []"

fun phase_ctx :: "'l sc_phase \<Rightarrow> sql_ctx option" where
  "phase_ctx (SFind ctx l) = Some ctx"
| "phase_ctx (SSend ctx l ms n) = Some ctx"
| "phase_ctx (SSent ctx l m ms n) = Some ctx"
| "phase_ctx ph = None"

definition consumer_inv :: "topic \<Rightarrow> ('l, 's) storage_consumer \<Rightarrow> bool" where
  "consumer_inv tp c \<longleftrightarrow>
     finite (sc_processing c) \<and> sc_processedCount c = card (sc_processing c)
     \<and> (\<forall>m \<in> set (to_send (sc_phase c)). msg_Topic m = tp)
     \<and> distinct (map msg_ID (to_send (sc_phase c)))
     \<and> msg_ID ` set (to_send (sc_phase c)) \<inter> sc_processing c = {}"

lemma found_batch:
  assumes "found_ok (batch_spec tp batchSize now ids) P ens"
  shows "(\<forall>m \<in> set (map fst ens). msg_Topic m = tp) \<and> distinct (map msg_ID (map fst ens))
    \<and> msg_ID ` set (map fst ens) \<inter> set ids = {}"
proof -
  from assms have sub: "\<forall>en \<in> set ens. msg_Topic (fst en) = tp \<and> msg_ID (fst en) \<notin> set ids"
    and keys: "distinct (map entry_key ens)"
    by (auto simp: found_ok_def spec_matches_def batch_spec_def)
  have "inj_on (\<lambda>en. msg_ID (fst en)) (set ens)"
    using keys sub by (auto simp: distinct_map inj_on_def entry_key_def)
  then have "distinct (map msg_ID (map fst ens))"
    using keys by (auto simp: distinct_map comp_def inj_on_def)
  with sub show ?thesis by auto
qed

context message_storage
begin

lemma consumer_step_inv:
  assumes step: "consumer_step S tp batchSize ctx actx c c'"
    and i: "inv (sc_store c)" and ci: "consumer_inv tp c"
    and okc: "ok ctx" "ok actx" "\<And>x. cx_tx x = None \<Longrightarrow> ok x"
    and okp: "\<forall>x. phase_ctx (sc_phase c) = Some x \<longrightarrow> ok x"
  shows "inv (sc_store c') \<and> consumer_inv tp c' \<and> (\<forall>x. phase_ctx (sc_phase c') = Some x \<longrightarrow> ok x)"
  using step
proof cases
  case (lock_ok ctx' l s)
  then show ?thesis using lock_keeps [OF lock_ok(3) i] message_storage.lock_ok [OF message_storage_axioms lock_ok(3) okc(1)] ci
    by (simp add: consumer_inv_def)
next
  case (lock_error e s)
  then show ?thesis using lock_keeps [OF lock_error(3) i] ci by (simp add: consumer_inv_def)
next
  case (find_error ctx' l ids now e s)
  then show ?thesis using find_keeps [OF find_error(4) i] ci by (simp add: consumer_inv_def)
next
  case (find_none ctx' l ids now s)
  then show ?thesis using find_keeps [OF find_none(4) i] ci by (simp add: consumer_inv_def)
next
  case (find_some ctx' l ids now msgs s)
  then have o: "ok ctx'" using okp by simp
  from find_found [OF find_some(4) this i] obtain ens where "msgs = map fst ens"
    "found_ok (batch_spec tp batchSize now ids) (pend (sc_store c)) ens" by blast
  with found_batch [of tp batchSize now ids] find_some(3)
  have "(\<forall>m \<in> set msgs. msg_Topic m = tp) \<and> distinct (map msg_ID msgs) \<and> msg_ID ` set msgs \<inter> sc_processing c = {}"
    by metis
  then show ?thesis using find_some find_keeps [OF find_some(4) i] ci o by (simp add: consumer_inv_def)
next
  case (release_ok l b s)
  then show ?thesis using release_keeps [OF release_ok(3) i] ci by (simp add: consumer_inv_def)
next
  case (release_error l b e e' s)
  then show ?thesis using release_keeps [OF release_error(3) i] ci by (simp add: consumer_inv_def)
next
  case (ack_delete m s)
  then show ?thesis using delete_removes [OF ack_delete(3) okc(2) i] ci okp by (simp add: consumer_inv_def)
next
  case (ack_error m e s)
  then show ?thesis using delete_error [OF ack_error(3) okc(2) i] ci okp by (simp add: consumer_inv_def)
next
  case (stored sctx at ms e s)
  then show ?thesis using store_inv [OF stored(2) okc(3) i] ci okp by (simp add: consumer_inv_def)
qed (use i ci okp in \<open>auto simp: consumer_inv_def consumer_Process_def addToProcessing_def
    removeFromProcessing_def Let_def\<close>)

lemma consumer_reachable_inv:
  assumes "(consumer_step S tp batchSize ctx actx)\<^sup>*\<^sup>* (consumer_start s) c"
    and "inv s" "ok ctx" "ok actx" "\<And>x. cx_tx x = None \<Longrightarrow> ok x"
  shows "inv (sc_store c) \<and> consumer_inv tp c \<and> (\<forall>x. phase_ctx (sc_phase c) = Some x \<longrightarrow> ok x)"
  using assms(1)
proof (induction rule: rtranclp_induct)
  case base
  then show ?case using assms(2)
    by (simp add: consumer_start_def consumer_Process_def newStorageConsumer_def consumer_inv_def)
next
  case (step c c')
  with consumer_step_inv [OF step(2)] assms show ?case by blast
qed

text \<open>Entries leave the storage only through the acknowledgement of a message handed out.\<close>

lemma consumer_step_keeps:
  assumes step: "consumer_step S tp batchSize ctx actx c c'" and i: "inv (sc_store c)"
    and okc: "ok actx" "\<And>x. cx_tx x = None \<Longrightarrow> ok x" and en: "en \<in> pend (sc_store c)"
  shows "en \<in> pend (sc_store c') \<or> (\<exists>m \<in> set (sc_inflight c). entry_key en = (msg_ID m, msg_Topic m))"
  using step
proof cases
  case (lock_ok ctx' l s)
  then show ?thesis using lock_keeps [OF lock_ok(3) i] en by simp
next
  case (lock_error e s)
  then show ?thesis using lock_keeps [OF lock_error(3) i] en by simp
next
  case (find_error ctx' l ids now e s)
  then show ?thesis using find_keeps [OF find_error(4) i] en by simp
next
  case (find_none ctx' l ids now s)
  then show ?thesis using find_keeps [OF find_none(4) i] en by simp
next
  case (find_some ctx' l ids now msgs s)
  then show ?thesis using find_keeps [OF find_some(4) i] en by simp
next
  case (release_ok l b s)
  then show ?thesis using release_keeps [OF release_ok(3) i] en by simp
next
  case (release_error l b e e' s)
  then show ?thesis using release_keeps [OF release_error(3) i] en by simp
next
  case (ack_delete m s)
  then show ?thesis using delete_removes [OF ack_delete(3) okc(1) i] en by (auto simp: entry_key_def)
next
  case (ack_error m e s)
  then show ?thesis using delete_error [OF ack_error(3) okc(1) i] en by (auto simp: entry_key_def)
next
  case (stored sctx at ms e s)
  then show ?thesis using store_inv [OF stored(2) okc(2) i] en by auto
qed (use en in \<open>auto simp: consumer_Process_def addToProcessing_def removeFromProcessing_def Let_def\<close>)

end

section \<open>Properties\<close>

text \<open>A step hands out \<open>m\<close>.\<close>

lemma send_step:
  assumes "consumer_step S tp batchSize ctx actx c c'" and "sc_inflight c' = sc_inflight c @ [m]"
  shows "\<exists>ctx' l ms n. sc_phase c = SSend ctx' l (m # ms) n"
  using assms(1)
proof cases
  case (ack_delete m' s)
  then have "length (sc_inflight c') < length (sc_inflight c)"
    using length_remove1 [of m' "sc_inflight c"] by (cases "sc_inflight c") auto
  with assms(2) show ?thesis by simp
qed (use assms(2) in \<open>auto simp: consumer_Process_def addToProcessing_def removeFromProcessing_def Let_def\<close>)

definition example_entry_row :: msg_row where
  "example_entry_row = \<lparr>mr_id = 1, mr_topic = ''t'', mr_key = [], mr_payload = ''p'', mr_scheduled_at = 5\<rparr>"

definition example_store :: dbms where
  "example_store = calm_db (empty_tables\<lparr>t_message_storage := [example_entry_row]\<rparr>)"

text \<open>
  C6. In every run of the storage consumer, with any faults, cancellations and interleavings of worker and
  acknowledgements: a message leaves the storage only by the acknowledgement of a message that was
  handed out and not yet acknowledged; only messages of the consumer's topic are handed out, and none
  that is registered as in work.
\<close>

theorem storage_consumer_safe:
  assumes "orders_by_scheduled_at order" and "storage_inv s" and "cx_tx ctx = None" and "cx_tx actx = None"
    and "(consumer_step (NewMessageStorage order) tp batchSize ctx actx)\<^sup>*\<^sup>* (consumer_start s) c"
    and "consumer_step (NewMessageStorage order) tp batchSize ctx actx c c'"
  shows "(\<forall>en \<in> pending (sc_store c). en \<in> pending (sc_store c')
           \<or> (\<exists>m \<in> set (sc_inflight c). msg_ID m = msg_ID (fst en) \<and> msg_Topic m = msg_Topic (fst en)))
    \<and> (\<forall>m. sc_inflight c' = sc_inflight c @ [m] \<longrightarrow> msg_Topic m = tp \<and> msg_ID m \<notin> sc_processing c)
    \<and> storage_inv (sc_store c') \<and> sc_processedCount c' = card (sc_processing c')"
proof -
  note sql = sql_message_storage [OF assms(1)]
  have ok: "no_tx ctx" "no_tx actx" "\<And>x. cx_tx x = None \<Longrightarrow> no_tx x" using assms(3,4) by (auto simp: no_tx_def)
  from message_storage.consumer_reachable_inv [OF sql assms(5,2) ok]
  have c: "storage_inv (sc_store c)" "consumer_inv tp c" "\<forall>x. phase_ctx (sc_phase c) = Some x \<longrightarrow> no_tx x" by auto
  from message_storage.consumer_step_inv [OF sql assms(6) c(1,2) ok c(3)]
  have c': "storage_inv (sc_store c')" "consumer_inv tp c'" by auto
  have "msg_Topic m = tp \<and> msg_ID m \<notin> sc_processing c" if "sc_inflight c' = sc_inflight c @ [m]" for m
    using send_step [OF assms(6) that] c(2) by (auto simp: consumer_inv_def)
  moreover have "en \<in> pending (sc_store c') \<or>
      (\<exists>m \<in> set (sc_inflight c). msg_ID m = msg_ID (fst en) \<and> msg_Topic m = msg_Topic (fst en))"
    if "en \<in> pending (sc_store c)" for en
    using message_storage.consumer_step_keeps [OF sql assms(6) c(1) ok(2,3) that] by (auto simp: entry_key_def)
  ultimately show ?thesis using c' unfolding consumer_inv_def by blast
qed

text \<open>Waiting for messages that will never be removed.\<close>

definition stuck :: "('l, 's) storage_consumer \<Rightarrow> bool" where
  "stuck c \<longleftrightarrow> (\<exists>ctx l n. sc_phase c = SAwait ctx l n) \<and> sc_processedCount c \<noteq> 0
     \<and> sc_inflight c = [] \<and> sc_deleted c = []"

lemma stuck_step: "consumer_step S tp batchSize ctx actx c c' \<Longrightarrow> stuck c \<Longrightarrow> stuck c'"
  by (induction rule: consumer_step.induct) (auto simp: stuck_def consumer_Process_def)

lemma stuck_forever: "(consumer_step S tp batchSize ctx actx)\<^sup>*\<^sup>* c c' \<Longrightarrow> stuck c \<Longrightarrow> stuck c'"
  by (induction rule: rtranclp_induct) (auto intro: stuck_step)

context reliable_storage
begin

lemma finds_one:
  assumes "healthy s" and i: "inv s" and okc: "ok ctx" and p: "pend s = {(m, t)}" and "msg_Topic m = tp" "t \<le> now"
  shows "\<exists>s'. so_Find S ctx (batch_spec tp batchSize now []) s = (Inr [m], s') \<and> healthy s' \<and> pend s' = {(m, t)} \<and> inv s'"
proof -
  obtain ms s' where f: "so_Find S ctx (batch_spec tp batchSize now []) s = (Inr ms, s')" "healthy s'"
    using find_succeeds [OF assms(1-3)] by blast
  obtain ens where ens: "ms = map fst ens" "found_ok (batch_spec tp batchSize now []) {(m, t)} ens"
    using find_found [OF f(1) okc i] p by auto
  have "spec_matches (batch_spec tp batchSize now []) (m, t)"
    using assms(5,6) by (simp add: spec_matches_def batch_spec_def)
  with ens(2) have "ens = [(m, t)]"
    unfolding found_ok_def by (cases ens; cases "tl ens") (auto simp: batch_spec_def split: if_splits)
  then show ?thesis using f ens(1) find_keeps [OF f(1) i] i p by auto
qed

text \<open>The only message is found, handed out and acknowledged before the worker registers it as in work.\<close>

lemma consumer_delivers:
  assumes h: "healthy s" and i: "inv s" and okc: "ok ctx" "ok actx"
    and p: "pend s = {(m, t)}" and tp: "msg_Topic m = tp" and t: "t \<le> now"
  shows "\<exists>c3 c4 c5 ctx' l. (consumer_step S tp batchSize ctx actx)\<^sup>*\<^sup>* (consumer_start s) c3
    \<and> consumer_step S tp batchSize ctx actx c3 c4 \<and> consumer_step S tp batchSize ctx actx c4 c5
    \<and> sc_inflight c3 = [] \<and> sc_inflight c4 = [m] \<and> pend (sc_store c4) = {(m, t)}
    \<and> sc_phase c5 = SSent ctx' l m [] 1 \<and> sc_inflight c5 = [] \<and> sc_deleted c5 = [m] \<and> sc_processing c5 = {}
    \<and> pend (sc_store c5) = {}"
proof -
  let ?step = "consumer_step S tp batchSize ctx actx"
  obtain ctx' l s1 where l: "so_Lock S ctx [''topic'', tp] s = (Inr (ctx', l), s1)" "healthy s1"
    using lock_succeeds [OF h i okc(1)] by blast
  have s1: "pend s1 = {(m, t)}" "inv s1" "ok ctx'" using lock_keeps [OF l(1) i] lock_ok [OF l(1) okc(1)] p by auto
  obtain s2 where f: "so_Find S ctx' (batch_spec tp batchSize now []) s1 = (Inr [m], s2)" "healthy s2"
    and s2: "pend s2 = {(m, t)}" "inv s2"
    using finds_one [OF l(2) s1(2,3,1) tp t] by blast
  obtain s3 where d: "so_Delete S actx (msg_Topic m) [msg_ID m] s2 = (None, s3)"
    using delete_succeeds [OF f(2) s2(2) okc(2)] by blast
  have s3: "pend s3 = {}" using delete_removes [OF d okc(2) s2(2)] s2 by auto
  define c0 :: "('a, 'b) storage_consumer" where "c0 = consumer_start s"
  define c1 where "c1 = c0\<lparr>sc_phase := SBegin, sc_signal := False\<rparr>"
  define c2 where "c2 = c1\<lparr>sc_phase := SFind ctx' l, sc_store := s1\<rparr>"
  define c3 where "c3 = c2\<lparr>sc_phase := SSend ctx' l [m] 1, sc_store := s2\<rparr>"
  define c4 where "c4 = c3\<lparr>sc_phase := SSent ctx' l m [] 1, sc_inflight := [m]\<rparr>"
  define c5 where "c5 = c4\<lparr>sc_store := s3, sc_inflight := [], sc_deleted := [m]\<rparr>"
  note cs = c0_def c1_def c2_def c3_def c4_def c5_def consumer_start_def consumer_Process_def newStorageConsumer_def
  have "?step c0 c1" unfolding c1_def by (rule wake) (simp_all add: cs)
  moreover have "?step c1 c2" unfolding c2_def by (rule consumer_step.lock_ok) (use l in \<open>simp_all add: cs\<close>)
  moreover have "?step c2 c3"
    using find_some [of c2 ctx' l "[]" S tp batchSize now "[m]" s2 ctx actx] f(1) by (simp add: cs)
  ultimately have "?step\<^sup>*\<^sup>* (consumer_start s) c3"
    unfolding c0_def by (meson rtranclp.rtrancl_refl rtranclp.rtrancl_into_rtrancl)
  moreover have "?step c3 c4" using send [of c3 ctx' l m "[]" 1] by (simp add: cs)
  moreover have "?step c4 c5" using ack_delete [of m c4 S actx s3] d by (simp add: cs)
  moreover have "sc_inflight c3 = []" "sc_inflight c4 = [m]" "sc_store c4 = s2" "sc_phase c5 = SSent ctx' l m [] 1"
    "sc_inflight c5 = []" "sc_deleted c5 = [m]" "sc_processing c5 = {}" "sc_store c5 = s3" by (simp_all add: cs)
  ultimately show ?thesis using s2(1) s3 by metis
qed

lemma consumer_can_hang:
  assumes "healthy s" and "inv s" and "ok ctx" "ok actx" and "pend s = {(m, t)}" and "msg_Topic m = tp" and "t \<le> now"
  shows "\<exists>c. (consumer_step S tp batchSize ctx actx)\<^sup>*\<^sup>* (consumer_start s) c \<and> stuck c
    \<and> pend (sc_store c) = {}"
proof -
  let ?step = "consumer_step S tp batchSize ctx actx"
  obtain c3 c4 c5 ctx' l where r: "?step\<^sup>*\<^sup>* (consumer_start s) c3" "?step c3 c4" "?step c4 c5"
    and c5: "sc_phase c5 = SSent ctx' l m [] 1" "sc_inflight c5 = []" "sc_deleted c5 = [m]" "sc_processing c5 = {}"
      "pend (sc_store c5) = {}"
    using consumer_delivers [OF assms, of batchSize] by blast
  define c6 where "c6 = removeFromProcessing (msg_ID m) (c5\<lparr>sc_deleted := []\<rparr>)"
  define c7 where "c7 = addToProcessing (msg_ID m) (c6\<lparr>sc_phase := SSend ctx' l [] 1\<rparr>)"
  define c8 where "c8 = c7\<lparr>sc_phase := SAwait ctx' l 1\<rparr>"
  note cs = c6_def c7_def c8_def addToProcessing_def removeFromProcessing_def Let_def
  have "?step c5 c6" using ack_remove [of m c5 S tp batchSize ctx actx] c5 by (simp add: cs)
  moreover have "?step c6 c7" using added [of c6 ctx' l m "[]" 1] c5 by (simp add: cs)
  moreover have "?step c7 c8" unfolding c8_def by (rule all_sent) (simp add: cs)
  ultimately have "?step\<^sup>*\<^sup>* (consumer_start s) c8" using r by (meson rtranclp.rtrancl_into_rtrancl)
  moreover have "stuck c8 \<and> pend (sc_store c8) = {}" using c5 by (simp add: cs stuck_def)
  ultimately show ?thesis by blast
qed

end

text \<open>
  C38. The storage consumer can hang for ever without any fault: when the acknowledgement of the last
  message overtakes the worker between its send and its \<^verbatim>\<open>addToProcessing\<close>, the message, already deleted
  from the storage, stays registered as in work, and in every continuation the worker waits for it
  with the topic locked.
\<close>

theorem storage_consumer_can_hang:
  assumes "orders_by_scheduled_at order" and "db_healthy s" and "storage_inv s"
    and "cx_tx ctx = None" and "cx_tx actx = None"
    and "pending s = {(m, t)}" and "msg_Topic m = tp"
  shows "\<exists>c. (consumer_step (NewMessageStorage order) tp batchSize ctx actx)\<^sup>*\<^sup>* (consumer_start s) c
    \<and> pending (sc_store c) = {}
    \<and> (\<forall>c'. (consumer_step (NewMessageStorage order) tp batchSize ctx actx)\<^sup>*\<^sup>* c c' \<longrightarrow>
         (\<exists>ctx' l n. sc_phase c' = SAwait ctx' l n) \<and> sc_processedCount c' \<noteq> 0)"
proof -
  have "no_tx ctx" "no_tx actx" using assms by (simp_all add: no_tx_def)
  from reliable_storage.consumer_can_hang [OF sql_reliable_storage [OF assms(1)] assms(2,3) this assms(6,7) order.refl]
  obtain c where "(consumer_step (NewMessageStorage order) tp batchSize ctx actx)\<^sup>*\<^sup>* (consumer_start s) c"
    "stuck c" "pending (sc_store c) = {}" by blast
  then show ?thesis by (meson stuck_def stuck_forever)
qed

lemma example_store_ok:
  "orders_by_scheduled_at (sort_key mr_scheduled_at)" "db_healthy example_store" "storage_inv example_store"
  "cx_tx background = None" "pending example_store = {(message_of example_entry_row, 5)}"
  "msg_Topic (message_of example_entry_row) = ''t''"
  by (simp_all add: orders_by_scheduled_at_def db_healthy_def example_store_def calm_db_def empty_tables_def
      storage_inv_def table_ok_def background_def pending_def example_entry_row_def message_of_def)

theorem storage_consumer_can_hang_witness:
  "\<exists>c. (consumer_step (NewMessageStorage (sort_key mr_scheduled_at)) ''t'' 100 background background)\<^sup>*\<^sup>*
      (consumer_start example_store) c \<and> sc_processedCount c \<noteq> 0 \<and> pending (sc_store c) = {}"
  using storage_consumer_can_hang [OF example_store_ok(1-4,4-6)] by blast

text \<open>
  The stored message is handed out by one step and leaves the storage with the next one, the acknowledgement.
\<close>

abbreviation example_step :: "(session_lock, dbms) storage_consumer \<Rightarrow> (session_lock, dbms) storage_consumer \<Rightarrow> bool" where
  "example_step \<equiv> consumer_step (NewMessageStorage (sort_key mr_scheduled_at)) ''t'' 100 background background"

theorem storage_consumer_safe_witness:
  "\<exists>c c' c''. example_step\<^sup>*\<^sup>* (consumer_start example_store) c \<and> example_step c c' \<and> example_step c' c''
    \<and> sc_inflight c = [] \<and> (\<exists>m. sc_inflight c' = [m] \<and> msg_ID m = 1 \<and> msg_Topic m = ''t'' \<and> msg_ID m \<notin> sc_processing c)
    \<and> pending (sc_store c') = {(message_of example_entry_row, 5)} \<and> pending (sc_store c'') = {}
    \<and> sc_deleted c'' = sc_inflight c' \<and> storage_inv (sc_store c'') \<and> sc_processedCount c'' = card (sc_processing c'')"
proof -
  let ?m = "message_of example_entry_row"
  have "no_tx background" using example_store_ok(4) by (simp add: no_tx_def)
  from reliable_storage.consumer_delivers [OF sql_reliable_storage [OF example_store_ok(1)] example_store_ok(2,3) this this
      example_store_ok(5,6) order.refl, of 100]
  obtain c c' c'' where r: "example_step\<^sup>*\<^sup>* (consumer_start example_store) c" "example_step c c'" "example_step c' c''"
    and c: "sc_inflight c = []" "sc_inflight c' = [?m]" "pending (sc_store c') = {(?m, 5)}" "sc_deleted c'' = [?m]" "pending (sc_store c'') = {}" by blast
  note safe = storage_consumer_safe [OF example_store_ok(1,3,4,4), where tp = "''t''" and batchSize = 100]
  from safe [OF r(1,2)] c have sent: "msg_Topic ?m = ''t''" "msg_ID ?m \<notin> sc_processing c" by auto
  have "example_step\<^sup>*\<^sup>* (consumer_start example_store) c'" using r by (meson rtranclp.rtrancl_into_rtrancl)
  from safe [OF this r(3)] c have left: "\<exists>m \<in> set (sc_inflight c'). msg_ID m = msg_ID ?m \<and> msg_Topic m = msg_Topic ?m"
    "storage_inv (sc_store c'')" "sc_processedCount c'' = card (sc_processing c'')" by auto
  have "msg_ID ?m = 1" by (simp add: message_of_def example_entry_row_def)
  with c sent left have "sc_inflight c = [] \<and> (\<exists>m. sc_inflight c' = [m] \<and> msg_ID m = 1 \<and> msg_Topic m = ''t'' \<and> msg_ID m \<notin> sc_processing c)
    \<and> pending (sc_store c') = {(?m, 5)} \<and> pending (sc_store c'') = {} \<and> sc_deleted c'' = sc_inflight c'
    \<and> storage_inv (sc_store c'') \<and> sc_processedCount c'' = card (sc_processing c'')" by auto
  with r show ?thesis by blast
qed

end
