(* ===== verification/Delivery.thy ===== *)
theory Delivery
  imports Listener_Worker Storage_Consumer
begin

text \<open>
  Stored messages on their way to the handlers: the storage consumer of \<^verbatim>\<open>pkg/message/storageconsumer.go\<close> and the listener over its
  acknowledgement strategy (\<^verbatim>\<open>listener.go\<close>, \<^verbatim>\<open>listenerqueue.go\<close>), running together as in \<^verbatim>\<open>cmd/message-handler-worker\<close>.

  The consumer is the broker behind the queue of the listener.  They meet in two places: the channel, on which the worker of the consumer hands a
  message to the loop of the listener, and \<^verbatim>\<open>Ack\<close>, which a goroutine of the listener calls.  Everything else interleaves.
\<close>

section \<open>Acknowledgement\<close>

text \<open>
  \<^verbatim>\<open>Ack\<close> up to the deletion; that the message is taken from the ones in work afterwards is a step of its own (\<open>ack_remove\<close>), since the worker can run in
  between.
\<close>

definition consumer_Ack ::
    "('l, 's) storage_ops \<Rightarrow> sql_ctx \<Rightarrow> consumer_message \<Rightarrow> ('l, 's) storage_consumer \<Rightarrow> err \<times> ('l, 's) storage_consumer" where
  "consumer_Ack S actx cm c =
     (let m = cm_Message cm in
      case so_Delete S actx (msg_Topic m) [msg_ID m] (sc_store c) of
        (Some e, s) \<Rightarrow> (Some (errorf ''delete message from storage'' e), c\<lparr>sc_store := s\<rparr>)
      | (None, s) \<Rightarrow> (None, c\<lparr>sc_store := s, sc_inflight := remove1 m (sc_inflight c), sc_deleted := sc_deleted c @ [m]\<rparr>))"

lemma consumer_Ack_step:
  assumes "cm_Message cm \<in> set (sc_inflight c)" and "consumer_Ack S actx cm c = (e, c')"
  shows "consumer_step S tp batchSize ctx actx c c'"
  using assms consumer_step.ack_delete [OF assms(1)] consumer_step.ack_error [OF assms(1)]
  by (auto simp: consumer_Ack_def Let_def split: prod.splits option.splits)

section \<open>Consumer and listener together\<close>

text \<open>
  Without a message in flight the consumer has no acknowledgement to take and has handed nothing over: these are the steps of its own worker, of its
  callers, and of the producers that share the storage.
\<close>

definition consumer_internal ::
    "('l, 's) storage_ops \<Rightarrow> topic \<Rightarrow> int \<Rightarrow> sql_ctx \<Rightarrow> sql_ctx \<Rightarrow> ('l, 's) storage_consumer \<Rightarrow> ('l, 's) storage_consumer \<Rightarrow> bool" where
  "consumer_internal S tp batchSize ctx actx c c' \<longleftrightarrow>
     consumer_step S tp batchSize ctx actx (c\<lparr>sc_inflight := []\<rparr>) (c'\<lparr>sc_inflight := []\<rparr>) \<and> sc_inflight c' = sc_inflight c"

type_synonym ('w, 'l, 's) delivery = "('w, ('l, 's) storage_consumer \<times> ack_nack_queue) listener_run"

abbreviation dl_consumer :: "('w, 'l, 's) delivery \<Rightarrow> ('l, 's) storage_consumer" where
  "dl_consumer r \<equiv> fst (lr_queue r)"

abbreviation with_consumer :: "('l, 's) storage_consumer \<Rightarrow> ('w, 'l, 's) delivery \<Rightarrow> ('w, 'l, 's) delivery" where
  "with_consumer c r \<equiv> r\<lparr>lr_queue := (c, snd (lr_queue r))\<rparr>"

abbreviation ack_listener_step ::
    "('w, ('l, 's) storage_consumer \<times> ack_nack_queue) listener \<Rightarrow> ('w, 'l, 's) delivery \<Rightarrow> ('w, 'l, 's) delivery \<Rightarrow> bool" where
  "ack_listener_step L \<equiv> consumerWorker_step (broker_take anq_take_token) (broker_add anq_AddProcessing) (anq_queue \<circ> snd) L"

inductive delivery_step ::
    "('l, 's) storage_ops \<Rightarrow> topic \<Rightarrow> int \<Rightarrow> sql_ctx \<Rightarrow> sql_ctx \<Rightarrow> ('w, ('l, 's) storage_consumer \<times> ack_nack_queue) listener
      \<Rightarrow> ('w, 'l, 's) delivery \<Rightarrow> ('w, 'l, 's) delivery \<Rightarrow> bool"
  for S tp batchSize ctx actx L where
  consumes: "consumer_internal S tp batchSize ctx actx (dl_consumer r) c \<Longrightarrow>
    delivery_step S tp batchSize ctx actx L r (with_consumer c r)"
| listens: "ack_listener_step L r r' \<Longrightarrow> lr_received r' = lr_received r \<Longrightarrow> delivery_step S tp batchSize ctx actx L r r'"
| hands_over: "sc_phase (dl_consumer r) = SSend ctx' l (cm_Message cm # ms) n \<Longrightarrow> hc_base h = ctx' \<Longrightarrow>
    ack_listener_step L
      (with_consumer ((dl_consumer r)\<lparr>sc_phase := SSent ctx' l (cm_Message cm) ms n,
         sc_inflight := sc_inflight (dl_consumer r) @ [cm_Message cm]\<rparr>) r) r' \<Longrightarrow>
    lr_procs r' = lr_procs r @ [(cm, h, p)] \<Longrightarrow>
    delivery_step S tp batchSize ctx actx L r r'"

definition delivery_start :: "'s \<Rightarrow> int \<Rightarrow> 'w handler_world \<Rightarrow> ('w, 'l, 's) delivery" where
  "delivery_start s maxSize w = worker_start (consumer_start s, NewAckNackQueue maxSize) w"

section \<open>Nothing leaves the storage unhandled\<close>

lemma run_ok_consumer [simp]: "run_ok L (with_consumer c r) = run_ok L r"
  by (simp add: run_ok_def)

lemma cared_consumer [simp]: "cared L (with_consumer c r) j = cared L r j"
  by (simp add: cared_def)

lemma ackq_broker:
  assumes "ackq_AcknowledgeResult ack m res b q = Some (e, b', q')"
  shows "b' = b \<or> res = None \<and> b' = snd (ack m b)"
  using assms by (auto simp: queue_simps split: option.splits prod.splits if_splits)

text \<open>What the listener does to the consumer: nothing, or one \<^verbatim>\<open>Ack\<close> of a message that has been taken care of.\<close>

lemma listener_consumer:
  assumes step: "ack_listener_step L r r'" and L: "ln_ack L = broker_ack (ackq_AcknowledgeResult ack)" and ok: "run_ok L r"
  shows "dl_consumer r' = dl_consumer r
    \<or> (\<exists>i < length (lr_procs r). cared L r i \<and> dl_consumer r' = snd (ack (lr_received r ! i) (dl_consumer r)))"
  using step
proof cases
  case (goroutine i m c p p')
  have "(m, c, p) \<in> set (lr_procs r)" using nth_mem [OF goroutine(2)] goroutine(3) by simp
  then have p: "proc_ok L m (resume (lr_queue r) (lr_world r) p)" using ok by (auto simp: run_ok_def)
  from step_acknowledges [OF goroutine(4) p] show ?thesis
  proof (elim disjE conjE exE)
    fix res e
    assume a: "ln_ack L m res (pr_queue (resume (lr_queue r) (lr_world r) p)) = Some (e, pr_queue p')"
      and care: "res = None \<longrightarrow> taken_care_of L m (pr_trace (resume (lr_queue r) (lr_world r) p))"
    have call: "ackq_AcknowledgeResult ack m res (fst (lr_queue r)) (snd (lr_queue r)) = Some (e, fst (pr_queue p'), snd (pr_queue p'))"
      using a L by (simp add: broker_ack_def)
    from ackq_broker [OF this] show ?thesis using care goroutine(1-3) by (auto simp: cared_def)
  qed (use goroutine(1) in simp)
qed (auto simp: broker_take_def broker_add_def split: prod.splits)

context message_storage
begin

definition delivery_inv :: "topic \<Rightarrow> ('w, ('l, 's) storage_consumer \<times> ack_nack_queue) listener \<Rightarrow> ('w, 'l, 's) delivery \<Rightarrow> bool" where
  "delivery_inv tp L r \<longleftrightarrow> run_ok L r \<and> inv (sc_store (dl_consumer r)) \<and> consumer_inv tp (dl_consumer r)
     \<and> (\<forall>x. phase_ctx (sc_phase (dl_consumer r)) = Some x \<longrightarrow> ok x) \<and> (\<forall>cm \<in> set (lr_received r). msg_Topic (cm_Message cm) = tp)"

definition delivered_ok :: "entry \<Rightarrow> ('w, ('l, 's) storage_consumer \<times> ack_nack_queue) listener \<Rightarrow> ('w, 'l, 's) delivery \<Rightarrow> bool" where
  "delivered_ok en L r \<longleftrightarrow> en \<in> pend (sc_store (dl_consumer r))
     \<or> (\<exists>k < length (lr_procs r). entry_key en = (msg_ID (cm_Message (lr_received r ! k)), msg_Topic (cm_Message (lr_received r ! k))) \<and> cared L r k)"

lemma Ack_store:
  fixes cm :: consumer_message
  assumes "inv (sc_store c)" and "ok actx"
  defines "c' \<equiv> snd (consumer_Ack S actx cm c)"
  shows "inv (sc_store c') \<and> sc_phase c' = sc_phase c \<and> (consumer_inv tp c \<longrightarrow> consumer_inv tp c')
    \<and> (\<forall>en \<in> pend (sc_store c). en \<in> pend (sc_store c') \<or> entry_key en = (msg_ID (cm_Message cm), msg_Topic (cm_Message cm)))"
proof -
  obtain e s where d: "so_Delete S actx (msg_Topic (cm_Message cm)) [msg_ID (cm_Message cm)] (sc_store c) = (e, s)" by force
  show ?thesis
  proof (cases e)
    case None
    then show ?thesis using d delete_removes [OF d [unfolded None] assms(2,1)]
      by (auto simp: c'_def consumer_Ack_def Let_def consumer_inv_def entry_key_def)
  next
    case (Some f)
    then show ?thesis using d delete_error [OF d [unfolded Some] assms(2,1)]
      by (auto simp: c'_def consumer_Ack_def Let_def consumer_inv_def entry_key_def)
  qed
qed

lemma internal_inv:
  assumes "consumer_internal S tp batchSize ctx actx c c'" and "inv (sc_store c)" and "consumer_inv tp c"
    and "ok ctx" "ok actx" "\<And>x. cx_tx x = None \<Longrightarrow> ok x" and "\<forall>x. phase_ctx (sc_phase c) = Some x \<longrightarrow> ok x"
  shows "inv (sc_store c') \<and> consumer_inv tp c' \<and> (\<forall>x. phase_ctx (sc_phase c') = Some x \<longrightarrow> ok x)
    \<and> pend (sc_store c) \<subseteq> pend (sc_store c')"
proof -
  have step: "consumer_step S tp batchSize ctx actx (c\<lparr>sc_inflight := []\<rparr>) (c'\<lparr>sc_inflight := []\<rparr>)"
    using assms(1) by (simp add: consumer_internal_def)
  have i: "inv (sc_store (c\<lparr>sc_inflight := []\<rparr>))" using assms(2) by simp
  have "consumer_inv tp (c\<lparr>sc_inflight := []\<rparr>)" "\<forall>x. phase_ctx (sc_phase (c\<lparr>sc_inflight := []\<rparr>)) = Some x \<longrightarrow> ok x"
    using assms(3,7) by (simp_all add: consumer_inv_def)
  from consumer_step_inv [OF step i this(1) assms(4-6) this(2)] consumer_step_keeps [OF step i assms(5,6)]
  show ?thesis by (auto simp: consumer_inv_def)
qed

lemma delivery_step_inv:
  assumes "delivery_step S tp batchSize ctx actx L r r'" and L: "ln_ack L = broker_ack (ackq_AcknowledgeResult (consumer_Ack S actx))"
    and inv: "delivery_inv tp L r" and okc: "ok ctx" "ok actx" "\<And>x. cx_tx x = None \<Longrightarrow> ok x"
  shows "delivery_inv tp L r' \<and> (delivered_ok en L r \<longrightarrow> delivered_ok en L r')"
  using assms(1)
proof cases
  case (consumes c)
  from inv internal_inv [OF consumes(2) _ _ okc] show ?thesis
    unfolding consumes(1) by (auto simp: delivery_inv_def delivered_ok_def)
next
  case listens
  have ok: "run_ok L r" and c: "inv (sc_store (dl_consumer r))" using inv by (simp_all add: delivery_inv_def)
  have mono: "cared L r k \<Longrightarrow> k < length (lr_procs r) \<Longrightarrow> k < length (lr_procs r') \<and> cared L r' k" for k
    using cared_step [OF listens(1)] by blast
  from listener_consumer [OF listens(1) L ok] show ?thesis
  proof (elim disjE exE conjE)
    assume "dl_consumer r' = dl_consumer r"
    then show ?thesis using inv run_ok_step [OF listens(1)] listens(2) mono by (auto simp: delivery_inv_def delivered_ok_def)
  next
    fix i assume i: "i < length (lr_procs r)" "cared L r i"
      and a: "dl_consumer r' = snd (consumer_Ack S actx (lr_received r ! i) (dl_consumer r))"
    note st = Ack_store [OF c okc(2), of "lr_received r ! i" tp]
    have "delivery_inv tp L r'" using inv st run_ok_step [OF listens(1)] listens(2) unfolding delivery_inv_def a by simp
    moreover have "delivered_ok en L r'" if "delivered_ok en L r"
      using that st mono i listens(2) unfolding delivered_ok_def a by metis
    ultimately show ?thesis by blast
  qed
next
  case (hands_over ctx' l cm ms n h p)
  let ?c = "(dl_consumer r)\<lparr>sc_phase := SSent ctx' l (cm_Message cm) ms n, sc_inflight := sc_inflight (dl_consumer r) @ [cm_Message cm]\<rparr>"
  have ok: "run_ok L (with_consumer ?c r)" using inv by (simp add: delivery_inv_def)
  have same: "dl_consumer r' = ?c" using hands_over(3)
  proof cases
    case (goroutine i m c p p')
    then have "length (lr_procs r') = length (lr_procs r)" by simp
    then show ?thesis using hands_over(4) by simp
  qed (auto simp: broker_take_def broker_add_def split: prod.splits)
  have mono: "cared L r k \<Longrightarrow> k < length (lr_procs r) \<Longrightarrow> cared L r' k" for k
    using hands_over(4) by (simp add: cared_def nth_append)
  show ?thesis using inv run_ok_step [OF hands_over(3) ok] hands_over(1,4) same mono
    by (auto simp: delivery_inv_def delivered_ok_def consumer_inv_def nth_append)
qed

lemma delivery_reaches:
  assumes "(delivery_step S tp batchSize ctx actx L)\<^sup>*\<^sup>* r r'" and "ln_ack L = broker_ack (ackq_AcknowledgeResult (consumer_Ack S actx))"
    and "delivery_inv tp L r" and "ok ctx" "ok actx" "\<And>x. cx_tx x = None \<Longrightarrow> ok x"
  shows "delivery_inv tp L r' \<and> (delivered_ok en L r \<longrightarrow> delivered_ok en L r')"
  using assms(1)
proof (induction rule: rtranclp_induct)
  case (step r1 r2)
  from delivery_step_inv [OF step(2) assms(2) _ assms(4-6)] step.IH show ?case by blast
qed (use assms(3) in simp)

lemma delivery_inv_start: "inv s \<Longrightarrow> delivery_inv tp L (delivery_start s maxSize w)"
  by (simp add: delivery_inv_def delivery_start_def)
    (simp add: worker_start_def consumer_start_def consumer_Process_def newStorageConsumer_def consumer_inv_def)

lemma delivery_from_start:
  assumes "inv s" and "ln_ack L = broker_ack (ackq_AcknowledgeResult (consumer_Ack S actx))" and "ok ctx" "ok actx" "\<And>x. cx_tx x = None \<Longrightarrow> ok x"
    and "(delivery_step S tp batchSize ctx actx L)\<^sup>*\<^sup>* (delivery_start s maxSize w) r" and "(delivery_step S tp batchSize ctx actx L)\<^sup>*\<^sup>* r r'"
  shows "delivery_inv tp L r' \<and> (en \<in> pend (sc_store (dl_consumer r)) \<longrightarrow> delivered_ok en L r')"
  using delivery_reaches [OF assms(6,2) delivery_inv_start [OF assms(1)] assms(3-5)] delivery_reaches [OF assms(7,2) _ assms(3-5)]
  unfolding delivered_ok_def by blast

end


lemma received_grows: "consumerWorker_step take_token add_processing refs L s s' \<Longrightarrow> \<exists>xs. lr_received s' = lr_received s @ xs"
  by (cases rule: consumerWorker_step.cases) (auto simp: received_update)

lemma received_grows_runs:
  "(consumerWorker_step take_token add_processing refs L)\<^sup>*\<^sup>* s s' \<Longrightarrow> \<exists>xs. lr_received s' = lr_received s @ xs"
proof (induction rule: rtranclp_induct)
  case (step s1 s2)
  from step.IH received_grows [OF step(2)] obtain xs ys where "lr_received s1 = lr_received s @ xs" "lr_received s2 = lr_received s1 @ ys" by blast
  then have "lr_received s2 = lr_received s @ (xs @ ys)" by simp
  then show ?case by (rule exI)
qed simp

lemma listens_runs:
  assumes "(ack_listener_step L)\<^sup>*\<^sup>* r r'" and "lr_received r' = lr_received r"
  shows "(delivery_step S tp batchSize ctx actx L)\<^sup>*\<^sup>* r r'"
  using assms
proof (induction rule: converse_rtranclp_induct)
  case (step r r1)
  from received_grows [OF step(1)] received_grows_runs [OF step(2)] obtain xs ys
    where eq: "lr_received r1 = lr_received r @ xs" "lr_received r' = lr_received r1 @ ys" by blast
  with step.prems have "lr_received r @ (xs @ ys) = lr_received r" by simp
  then have "lr_received r1 = lr_received r" "lr_received r' = lr_received r1" using eq by simp_all
  with delivery_step.listens [OF step(1)] step.IH show ?case by (blast intro: converse_rtranclp_into_rtranclp)
qed simp

text \<open>
  C4. From the storage to the handlers and back: the storage consumer over the SQL storage and the listener over its acknowledgements, under every interleaving of worker, loop, goroutines,
  handlers and retries, with cancellation, faults of the database and other processes storing messages.  A stored message is in the storage until it has been received by the listener and all handlers
  of its type have succeeded on it (or it cannot be deserialized or has no handler); only messages of the topic are received.
\<close>

theorem stored_messages_leave_after_handling:
  assumes "orders_by_scheduled_at order" and "storage_inv s" and "cx_tx ctx = None" and "cx_tx actx = None"
    and "L = NewListener deserialize handlers (broker_ack (ackq_AcknowledgeResult (consumer_Ack (NewMessageStorage order) actx))) mws"
    and "(delivery_step (NewMessageStorage order) tp batchSize ctx actx L)\<^sup>*\<^sup>* (delivery_start s maxSize w) r"
    and "(delivery_step (NewMessageStorage order) tp batchSize ctx actx L)\<^sup>*\<^sup>* r r'"
    and "en \<in> pending (sc_store (dl_consumer r))"
  shows "(en \<in> pending (sc_store (dl_consumer r'))
      \<or> (\<exists>k < length (lr_procs r'). msg_ID (cm_Message (lr_received r' ! k)) = msg_ID (fst en)
          \<and> msg_Topic (cm_Message (lr_received r' ! k)) = msg_Topic (fst en) \<and> cared L r' k))
    \<and> (\<forall>cm \<in> set (lr_received r'). msg_Topic (cm_Message cm) = tp)"
proof -
  note sql = sql_message_storage [OF assms(1)]
  have ok: "no_tx ctx" "no_tx actx" "\<And>x. cx_tx x = None \<Longrightarrow> no_tx x" using assms(3,4) by (auto simp: no_tx_def)
  have L: "ln_ack L = broker_ack (ackq_AcknowledgeResult (consumer_Ack (NewMessageStorage order) actx))" using assms(5) by (simp add: NewListener_def)
  from message_storage.delivery_from_start [OF sql assms(2) L ok assms(6,7), of en] assms(8) show ?thesis
    unfolding message_storage.delivered_ok_def [OF sql] message_storage.delivery_inv_def [OF sql] by (auto simp: entry_key_def)
qed


section \<open>One message from the storage to its handler\<close>

context reliable_storage
begin

text \<open>The worker finds the only message.\<close>

lemma example_found:
  assumes "healthy s" and "inv s" and "ok ctx" and "pend s = {(m, t)}" and "msg_Topic m = tp" and "t \<le> now"
  shows "\<exists>ctx' l c. ok ctx' \<and> (consumer_internal S tp batchSize ctx actx)\<^sup>*\<^sup>* (consumer_start s) c
    \<and> sc_phase c = SSend ctx' l [m] 1 \<and> sc_inflight c = [] \<and> healthy (sc_store c) \<and> inv (sc_store c) \<and> pend (sc_store c) = {(m, t)}"
proof -
  let ?int = "consumer_internal S tp batchSize ctx actx"
  obtain ctx' l s1 where l: "so_Lock S ctx [''topic'', tp] s = (Inr (ctx', l), s1)" "healthy s1"
    using lock_succeeds [OF assms(1-3)] by blast
  have s1: "pend s1 = {(m, t)}" "inv s1" "ok ctx'" using lock_keeps [OF l(1) assms(2)] lock_ok [OF l(1) assms(3)] assms(4) by auto
  obtain s2 where f: "so_Find S ctx' (batch_spec tp batchSize now []) s1 = (Inr [m], s2)" "healthy s2" "pend s2 = {(m, t)}" "inv s2"
    using finds_one [OF l(2) s1(2,3,1) assms(5,6)] by blast
  define c0 :: "('a, 'b) storage_consumer" where "c0 = consumer_start s"
  define c1 where "c1 = c0\<lparr>sc_phase := SBegin, sc_signal := False\<rparr>"
  define c2 where "c2 = c1\<lparr>sc_phase := SFind ctx' l, sc_store := s1\<rparr>"
  define c3 where "c3 = c2\<lparr>sc_phase := SSend ctx' l [m] 1, sc_store := s2\<rparr>"
  note cs = c0_def c1_def c2_def c3_def consumer_start_def consumer_Process_def newStorageConsumer_def consumer_internal_def
  have "?int c0 c1" using consumer_step.wake [of "c0\<lparr>sc_inflight := []\<rparr>" S tp batchSize ctx actx] by (simp add: cs)
  moreover have "?int c1 c2"
    using consumer_step.lock_ok [of "c1\<lparr>sc_inflight := []\<rparr>" S ctx tp ctx' l s1 batchSize actx] l(1) by (simp add: cs)
  moreover have "?int c2 c3"
    using consumer_step.find_some [of "c2\<lparr>sc_inflight := []\<rparr>" ctx' l "[]" S tp batchSize now "[m]" s2 ctx actx] f(1) by (simp add: cs)
  ultimately have "?int\<^sup>*\<^sup>* c0 c3" by (meson rtranclp.rtrancl_refl rtranclp.rtrancl_into_rtrancl)
  moreover have "sc_phase c3 = SSend ctx' l [m] 1" "sc_inflight c3 = []" "sc_store c3 = s2" by (simp_all add: cs)
  ultimately show ?thesis using f(2-4) s1(3) unfolding c0_def by blast
qed

lemma consumes_runs:
  assumes "(consumer_internal S tp batchSize ctx actx)\<^sup>*\<^sup>* (dl_consumer r) c"
  shows "(delivery_step S tp batchSize ctx actx L)\<^sup>*\<^sup>* r (with_consumer c r)"
  using assms
proof (induction rule: rtranclp_induct)
  case (step c1 c2)
  have "consumer_internal S tp batchSize ctx actx (dl_consumer (with_consumer c1 r)) c2" using step(2) by simp
  from delivery_step.consumes [OF this, of L] step.IH show ?case by (simp add: rtranclp.rtrancl_into_rtrancl)
qed simp

text \<open>The listener takes it, handles it, and acknowledges it to the consumer, which deletes it.\<close>

lemma delivers_one:
  assumes "healthy s" and "inv s" and okc: "ok ctx" "ok actx" and p: "pend s = {(cm_Message cm, t)}" and "t \<le> now" and tp: "msg_Topic (cm_Message cm) = tp"
    and L: "ln_ack L = broker_ack (ackq_AcknowledgeResult (consumer_Ack S actx))"
    and handles: "\<And>h q q'. ok (hc_base h) \<Longrightarrow> ln_ack L cm None q = Some (None, q') \<Longrightarrow>
      \<exists>p'. (process_step L cm h)\<^sup>*\<^sup>* (processing_start (w\<lparr>hw_panic := False\<rparr>) q) p' \<and> pr_queue p' = q' \<and> \<not> pr_cancelled p'"
    and w: "\<not> hw_panic w"
  shows "\<exists>r. (delivery_step S tp batchSize ctx actx L)\<^sup>*\<^sup>* (delivery_start s 1 w) r
    \<and> pend (sc_store (dl_consumer r)) = {} \<and> lr_received r = [cm]"
proof -
  let ?step = "delivery_step S tp batchSize ctx actx L"
  let ?m = "cm_Message cm"
  obtain ctx' l c3 where c3: "ok ctx'" "(consumer_internal S tp batchSize ctx actx)\<^sup>*\<^sup>* (consumer_start s) c3"
    "sc_phase c3 = SSend ctx' l [?m] 1" "sc_inflight c3 = []" "healthy (sc_store c3)" "inv (sc_store c3)" "pend (sc_store c3) = {(?m, t)}"
    using example_found [OF assms(1,2) okc(1) p tp assms(6)] by blast
  obtain s3 where d: "so_Delete S actx (msg_Topic ?m) [msg_ID ?m] (sc_store c3) = (None, s3)"
    using delete_succeeds [OF c3(5,6) okc(2)] by blast
  have s3: "pend s3 = {}" using delete_removes [OF d okc(2) c3(6)] c3(7) by auto
  define c4 where "c4 = c3\<lparr>sc_phase := SSent ctx' l ?m [] 1, sc_inflight := sc_inflight c3 @ [?m]\<rparr>"
  define c5 where "c5 = c4\<lparr>sc_store := s3, sc_inflight := [], sc_deleted := sc_deleted c4 @ [?m]\<rparr>"
  define h where "h = \<lparr>hc_base = ctx', hc_meta = None\<rparr>"
  let ?q0 = "\<lparr>anq_maxSize = 1, anq_tokens = 0, anq_queue = {}\<rparr>"
  let ?q1 = "\<lparr>anq_maxSize = 1, anq_tokens = 0, anq_queue = {cm_ptr cm}\<rparr>"
  let ?q2 = "\<lparr>anq_maxSize = 1, anq_tokens = 1, anq_queue = {}\<rparr>"
  define p0 where "p0 = processing_start (w\<lparr>hw_panic := False\<rparr>) (c4, ?q1)"
  have "consumer_Ack S actx cm c4 = (None, c5)"
    using d by (simp add: consumer_Ack_def Let_def c4_def c5_def c3(4))
  then have "ln_ack L cm None (c4, ?q1) = Some (None, c5, ?q2)"
    unfolding L by (simp add: broker_ack_def queue_simps)
  from handles [OF _ this, of h] c3(1) obtain p' where p': "(process_step L cm h)\<^sup>*\<^sup>* p0 p'" "pr_queue p' = (c5, ?q2)" "\<not> pr_cancelled p'"
    by (auto simp: h_def p0_def)
  define r0 where "r0 = (delivery_start s 1 w :: ('c, 'a, 'b) delivery)"
  define r3 where "r3 = with_consumer c3 r0"
  define r4 where "r4 = r3\<lparr>lr_loop := WMessage, lr_token := True, lr_queue := (c3, ?q0)\<rparr>"
  define r5 where "r5 = r4\<lparr>lr_loop := WToken, lr_token := False, lr_queue := (c4, ?q1), lr_procs := [(cm, h, p0)]\<rparr>"
  define r6 where "r6 = r5\<lparr>lr_queue := pr_queue p', lr_world := pr_world p', lr_procs := [(cm, h, p')]\<rparr>"
  note rs = r0_def r3_def r4_def r5_def r6_def delivery_start_def worker_start_def
  have "?step\<^sup>*\<^sup>* r0 r3" unfolding r3_def using c3(2) by (intro consumes_runs) (simp add: rs)
  moreover have "ack_listener_step L r3 r4"
    unfolding r4_def by (rule consumerWorker_step.token) (simp_all add: rs broker_take_def anq_take_token_def NewAckNackQueue_def)
  then have "?step r3 r4" by (rule delivery_step.listens) (simp add: r4_def)
  moreover have "ack_listener_step L (with_consumer c4 r4) r5"
    using consumerWorker_step.receive [of "with_consumer c4 r4" cm "anq_queue \<circ> snd" "broker_add anq_AddProcessing" "(c4, ?q1)"
        "broker_take anq_take_token" L h]
    by (simp add: rs p0_def broker_add_def queue_simps)
  then have "?step r4 r5"
    by (intro delivery_step.hands_over [where cm = cm and h = h and p = p0 and l = l and ms = "[]" and n = 1])
      (simp_all add: r4_def r5_def h_def c4_def c3(3), simp_all add: rs)
  moreover have "(ack_listener_step L)\<^sup>*\<^sup>* r5 r6"
    unfolding r6_def by (rule single_goroutine [OF p'(1)]) (use p'(3) w in \<open>simp_all add: rs p0_def processing_start_def\<close>)
  then have "?step\<^sup>*\<^sup>* r5 r6" by (rule listens_runs) (simp add: r5_def r6_def)
  ultimately have "?step\<^sup>*\<^sup>* r0 r6" by (meson rtranclp.rtrancl_into_rtrancl rtranclp_trans)
  moreover have "sc_store (dl_consumer r6) = s3" "lr_received r6 = [cm]" by (simp_all add: r6_def p'(2) c5_def)
  ultimately show ?thesis using s3 r0_def by metis
qed

end

lemma example_message: "message_of example_entry_row = cm_Message example_consumer_message"
  by (simp add: message_of_def example_entry_row_def example_consumer_message_def)

abbreviation example_delivery_listener :: "(nat, (session_lock, dbms) storage_consumer \<times> ack_nack_queue) listener" where
  "example_delivery_listener \<equiv>
     example_listener (broker_ack (ackq_AcknowledgeResult (consumer_Ack (NewMessageStorage (sort_key mr_scheduled_at)) background)))"

lemma example_delivered:
  "\<exists>r. (delivery_step (NewMessageStorage (sort_key mr_scheduled_at)) ''t'' 100 background background example_delivery_listener)\<^sup>*\<^sup>*
        (delivery_start example_store 1 example_handler_world) r
      \<and> pending (sc_store (dl_consumer r)) = {} \<and> lr_received r = [example_consumer_message]"
proof -
  have ok: "no_tx background" using example_store_ok(4) by (simp add: no_tx_def)
  show ?thesis
  proof (rule reliable_storage.delivers_one [OF sql_reliable_storage [OF example_store_ok(1)] example_store_ok(2,3) ok ok
        example_store_ok(5) [unfolded example_message] order.refl])
    fix h q q' assume "ln_ack example_delivery_listener example_consumer_message None q = Some (None, q')"
    then have "broker_ack (ackq_AcknowledgeResult (consumer_Ack (NewMessageStorage (sort_key mr_scheduled_at)) background)) example_consumer_message None q
        = Some (None, q')" by (simp add: example_listener_def NewListener_def)
    note run = example_processing [where ack = "broker_ack (ackq_AcknowledgeResult (consumer_Ack (NewMessageStorage (sort_key mr_scheduled_at)) background))"
        and h = h, OF this]
    have "example_handler_world\<lparr>hw_panic := False\<rparr> = example_handler_world" by (simp add: example_handler_world_def)
    with run show "\<exists>p'. (process_step example_delivery_listener example_consumer_message h)\<^sup>*\<^sup>*
        (processing_start (example_handler_world\<lparr>hw_panic := False\<rparr>) q) p' \<and> pr_queue p' = q' \<and> \<not> pr_cancelled p'" by (auto simp del: processing_start_simps)
  qed (simp_all add: example_consumer_message_def example_listener_def NewListener_def example_handler_world_def)
qed

theorem stored_messages_leave_after_handling_witness:
  "\<exists>r. (delivery_step (NewMessageStorage (sort_key mr_scheduled_at)) ''t'' 100 background background example_delivery_listener)\<^sup>*\<^sup>*
        (delivery_start example_store 1 example_handler_world) r
      \<and> pending (sc_store (dl_consumer r)) = {} \<and> cared example_delivery_listener r 0"
proof -
  obtain r where r: "(delivery_step (NewMessageStorage (sort_key mr_scheduled_at)) ''t'' 100 background background example_delivery_listener)\<^sup>*\<^sup>*
      (delivery_start example_store 1 example_handler_world) r"
    "pending (sc_store (dl_consumer r)) = {}" "lr_received r = [example_consumer_message]"
    using example_delivered by (elim exE conjE) (rule that)
  have start: "(message_of example_entry_row, 5)
      \<in> pending (sc_store (dl_consumer (delivery_start example_store 1 example_handler_world :: (nat, session_lock, dbms) delivery)))"
    by (simp add: delivery_start_def worker_start_def consumer_start_def consumer_Process_def newStorageConsumer_def example_store_ok(5))
  from stored_messages_leave_after_handling [OF example_store_ok(1,3,4,4) example_listener_def rtranclp.rtrancl_refl r(1) start] r(2,3)
  have "\<exists>k < length (lr_procs r). cared example_delivery_listener r k" by blast
  moreover have "length (lr_procs r) = 1" using arg_cong [OF r(3), of length] by simp
  ultimately have "cared example_delivery_listener r 0" by simp
  then show ?thesis using r by blast
qed

end
