(* ===== verification/Sql_Transaction.thy ===== *)
theory Sql_Transaction
  imports Sql_Client "HOL-Library.Char_ord" "HOL-Library.List_Lexorder" "HOL-Library.Multiset"
begin

text \<open>
  \<^verbatim>\<open>pkg/sql/transaction.go\<close> (\<^verbatim>\<open>transaction\<close>) and \<^verbatim>\<open>pkg/persistence\<close>: running a function within a
  transaction of the context, row locks requested through the context.

  The function given to \<^verbatim>\<open>WithinContext\<close> acts on the database and on a rest \<^typ>\<open>'x\<close> of the world, and
  may return an error or panic.  Go compares strings byte by byte, which for UTF-8 is the order
  of code points, the order of \<^typ>\<open>string\<close> used here.  \<^verbatim>\<open>slices.SortFunc\<close> sorts up to twelve
  elements by insertion, so locks with equal keys keep their order.
\<close>

section \<open>Within a transaction\<close>

type_synonym 'x world = "dbms \<times> 'x"

type_synonym ('x, 'r) action = "'x world \<Rightarrow> 'r \<times> 'x world"

record persistence_lock =
  lk_Key :: string
  lk_Shared :: bool

record 'x transaction =
  tr_id :: string
  tr_onCommit :: "('x \<Rightarrow> 'x) option"

definition NewTransaction :: "string \<Rightarrow> ('x \<Rightarrow> 'x) option \<Rightarrow> 'x transaction" where
  "NewTransaction instanceName onCommit = \<lparr>tr_id = instanceName, tr_onCommit = onCommit\<rparr>"

definition has_parent_tx :: "'x transaction \<Rightarrow> sql_ctx \<Rightarrow> bool" where
  "has_parent_tx t ctx =
     (case cx_tx ctx of None \<Rightarrow> False | Some stored \<Rightarrow> tx_instanceID stored = tr_id t)"

fun take_locks :: "sql_ctx \<Rightarrow> nat \<Rightarrow> persistence_lock list \<Rightarrow> dbms \<Rightarrow> err \<times> dbms" where
  "take_locks ctx tx [] db = (None, db)"
| "take_locks ctx tx (lock # locks) db =
     (case withTransactionLevelLock ctx (lk_Key lock) (lk_Shared lock) tx db of
        (Some e, db') \<Rightarrow> (Some e, db')
      | (None, db') \<Rightarrow> take_locks ctx tx locks db')"

text \<open>
  The locks in order, then the function: what runs whether or not the transaction is new.  \<^verbatim>\<open>slices.SortFunc\<close> does not
  promise to be stable, so \<^const>\<open>sort_key\<close> is one of the orders it may give; they differ only when one call names the same key twice.
\<close>

definition locks_then ::
    "sql_ctx \<Rightarrow> nat \<Rightarrow> (sql_ctx \<Rightarrow> ('x, err outcome) action) \<Rightarrow> persistence_lock list
      \<Rightarrow> ('x, err outcome) action" where
  "locks_then ctx tx fn locks w =
     (case take_locks ctx tx (sort_key lk_Key locks) (fst w) of
        (Some e, db) \<Rightarrow> (Returns (Some e), db, snd w)
      | (None, db) \<Rightarrow> fn ctx (db, snd w))"

text \<open>
  \<^verbatim>\<open>WithinContext\<close>.  The deferred rollback looks at \<^verbatim>\<open>err\<close>, which is still nil when the function
  panics.
\<close>

definition WithinContext ::
    "'x transaction \<Rightarrow> sql_ctx \<Rightarrow> (sql_ctx \<Rightarrow> ('x, err outcome) action) \<Rightarrow> persistence_lock list
      \<Rightarrow> ('x, err outcome) action" where
  "WithinContext t ctx fn locks w =
     (if has_parent_tx t ctx then locks_then ctx (tx_id (the (cx_tx ctx))) fn locks w
      else case begin_tx (fst w) of
        (Inl e, db) \<Rightarrow> (Returns (Some (errorf ''start db transaction'' e)), db, snd w)
      | (Inr tx, db) \<Rightarrow>
          (let ctx' = ctx\<lparr>cx_tx := Some \<lparr>tx_id = tx, tx_instanceID = tr_id t\<rparr>\<rparr>
           in case locks_then ctx' tx fn locks (db, snd w) of
                (Panics, w1) \<Rightarrow> (Panics, w1)
              | (Returns (Some e), db1, x) \<Rightarrow> (Returns (Some e), tx_Rollback tx db1, x)
              | (Returns None, db1, x) \<Rightarrow>
                  (case tx_Commit tx db1 of
                     (Some e, db2) \<Rightarrow>
                       (Returns (Some (errorf ''commit transaction'' e)), tx_Rollback tx db2, x)
                   | (None, db2) \<Rightarrow>
                       (Returns None, db2,
                        (case tr_onCommit t of None \<Rightarrow> x | Some onCommit \<Rightarrow> onCommit x)))))"

section \<open>Row locks through the context\<close>

datatype lock_update_option = SkipAlreadyLockedData | OtherLockUpdateOption string

definition IsUpdateLockRequested :: "sql_ctx \<Rightarrow> bool \<times> bool \<times> bool" where
  "IsUpdateLockRequested ctx =
     (case cx_lock ctx of
        None \<Rightarrow> (False, False, False)
      | Some lock \<Rightarrow> (True, ul_forUpdate lock, ul_skipLocked lock))"

definition LockUpdate :: "'x transaction \<Rightarrow> sql_ctx \<Rightarrow> bool \<Rightarrow> lock_update_option list \<Rightarrow> sql_ctx" where
  "LockUpdate t ctx exclusively opts =
     (if \<not> HasTransaction ctx then ctx
      else let skipLocked = list_ex (\<lambda>opt. opt = SkipAlreadyLockedData) opts;
               (lockRequested, hadExclusively, hadSkipLocked) = IsUpdateLockRequested ctx
           in if lockRequested \<and> hadExclusively = exclusively \<and> hadSkipLocked = skipLocked then ctx
              else ctx\<lparr>cx_lock := Some \<lparr>ul_forUpdate = exclusively, ul_skipLocked = skipLocked\<rparr>\<rparr>)"

text \<open>The suffixes appended to a select.\<close>

definition PrepareUpdateLockQuery :: "sql_ctx \<Rightarrow> string list" where
  "PrepareUpdateLockQuery ctx =
     (case IsUpdateLockRequested ctx of
        (ok, forUpdate, skipLocked) \<Rightarrow>
          if \<not> ok then []
          else (if forUpdate then [''FOR UPDATE''] else [''FOR SHARE''])
               @ (if skipLocked then [''SKIP LOCKED''] else []))"

text \<open>\<^verbatim>\<open>persistence.WithinTransactionWithResult\<close>: the function's result, kept in a variable that
  starts as the zero value \<open>z\<close>, is returned even beside an error.\<close>

definition WithinTransactionWithResult ::
    "'x transaction \<Rightarrow> sql_ctx \<Rightarrow> 'r \<Rightarrow> (sql_ctx \<Rightarrow> ('x, ('r \<times> err) outcome) action)
      \<Rightarrow> persistence_lock list \<Rightarrow> ('x, ('r \<times> err) outcome) action"
  where
  "WithinTransactionWithResult t ctx z fn locks w =
     (case WithinContext
        \<lparr>tr_id = tr_id t, tr_onCommit = map_option (\<lambda>f (x, r). (f x, r)) (tr_onCommit t)\<rparr>
        ctx
        (\<lambda>ctx (db, x, _). case fn ctx (db, x) of
             (Returns (r, e), db', x') \<Rightarrow> (Returns e, db', x', r)
           | (Panics, db', x') \<Rightarrow> (Panics, db', x', z))
        locks (fst w, snd w, z) of
        (Returns e, db, x, r) \<Rightarrow> (Returns (r, e), db, x)
      | (Panics, db, x, _) \<Rightarrow> (Panics, db, x))"

section \<open>What stays inside a transaction\<close>

text \<open>The transaction is still open, its log only grew, and nothing was committed.\<close>

definition tx_stays :: "nat \<Rightarrow> dbms \<Rightarrow> dbms \<Rightarrow> bool" where
  "tx_stays tx db db' \<longleftrightarrow>
     (\<forall>ws. db_open db tx = Some ws \<longrightarrow>
        (\<exists>ws'. db_open db' tx = Some (ws @ ws')) \<and> db_tables db' = db_tables db)"

lemma tx_stays_refl [tx_simps]: "tx_stays tx db db"
  by (simp add: tx_stays_def)

lemma tx_stays_trans: "tx_stays tx db1 db2 \<Longrightarrow> tx_stays tx db2 db3 \<Longrightarrow> tx_stays tx db1 db3"
  by (force simp: tx_stays_def)

lemma tx_stays_run_exec: "run_exec (ViaTx tx) st db = (r, db') \<Longrightarrow> tx_stays tx db db'"
  by (auto simp: run_exec_def call_defs tx_stays_def db_write_def
      split: fault.splits sum.splits if_splits option.splits)

lemma tx_stays_run_select: "run_select r sel db = (x, db') \<Longrightarrow> tx_stays tx db db'"
  by (auto simp: tx_stays_def dest!: run_select_same)

lemma tx_stays_ExecContext:
  "ExecContext ctx st db = (r, db') \<Longrightarrow> route_of ctx = ViaTx tx \<Longrightarrow> tx_stays tx db db'"
  by (simp add: ExecContext_def tx_stays_run_exec)

lemma tx_stays_SelectContext: "SelectContext ctx sel db = (r, db') \<Longrightarrow> tx_stays tx db db'"
  by (simp add: SelectContext_def tx_stays_run_select)

lemma tx_stays_GetContext: "GetContext ctx sel db = (r, db') \<Longrightarrow> tx_stays tx db db'"
  by (auto simp: GetContext_def split: prod.splits sum.splits list.splits dest: tx_stays_run_select)

lemma tx_stays_lock: "withTransactionLevelLock ctx name shared tx' db = (e, db') \<Longrightarrow> tx_stays tx db db'"
  by (auto simp: withTransactionLevelLock_def call_defs Let_def tx_stays_def
      split: fault.splits sum.splits if_splits prod.splits)

lemma tx_stays_take_locks: "take_locks ctx tx' locks db = (e, db') \<Longrightarrow> tx_stays tx db db'"
proof (induction locks arbitrary: db)
  case Nil
  then show ?case by (simp add: tx_stays_refl)
next
  case (Cons lock locks)
  then show ?case
    by (auto split: prod.splits option.splits dest!: tx_stays_lock [of _ _ _ _ _ _ _ tx]
        intro: tx_stays_trans)
qed

definition confined :: "nat \<Rightarrow> ('x, 'r) action \<Rightarrow> bool" where
  "confined tx a \<longleftrightarrow> (\<forall>w. tx_stays tx (fst w) (fst (snd (a w))))"

lemma confined_locks_then:
  assumes "confined tx (fn ctx)"
  shows "confined tx (locks_then ctx tx' fn locks)"
  unfolding confined_def
proof
  fix w :: "'a world"
  obtain e db where t: "take_locks ctx tx' (sort_key lk_Key locks) (fst w) = (e, db)" by force
  have "tx_stays tx db (fst (snd (fn ctx (db, snd w))))"
    using assms unfolding confined_def by (metis fst_conv)
  with tx_stays_take_locks [OF t, of tx] t
  show "tx_stays tx (fst w) (fst (snd (locks_then ctx tx' fn locks w)))"
    by (auto simp: locks_then_def split: option.splits intro: tx_stays_trans)
qed

text \<open>A nested call for the same instance joins the transaction.\<close>

lemma confined_nested:
  "has_parent_tx t ctx \<Longrightarrow> confined tx (fn ctx) \<Longrightarrow> confined tx (WithinContext t ctx fn locks)"
  using confined_locks_then [of tx fn ctx _ locks] by (simp add: confined_def WithinContext_def)

lemma begin_tx_ok:
  "begin_tx db = (Inr tx, db') \<Longrightarrow>
   tx = db_next db \<and> db_open db' tx = Some [] \<and> db_tables db' = db_tables db \<and> db_fault db' = db_fault db"
  by (auto simp: begin_tx_def next_fault_def db_emit_def Let_def split: fault.splits)

lemma begin_tx_error: "begin_tx db = (Inl e, db') \<Longrightarrow> db_tables db' = db_tables db \<and> db_open db' = db_open db"
  by (auto simp: begin_tx_def next_fault_def db_emit_def Let_def split: fault.splits)

lemma tx_Commit_ok:
  "tx_Commit tx db = (None, db') \<Longrightarrow> db_tables db' = db_view (ViaTx tx) db \<and> db_open db' tx = None"
  by (auto simp: tx_Commit_def next_fault_def db_emit_def Let_def db_view_def
      split: fault.splits option.splits)

lemma tx_Commit_error:
  "tx_Commit tx db = (Some e, db') \<Longrightarrow>
   (db_tables db' = db_tables db \<or> db_tables db' = db_view (ViaTx tx) db) \<and> db_open db' tx = None"
  by (auto simp: tx_Commit_def next_fault_def db_emit_def Let_def db_view_def
      split: fault.splits option.splits)

lemma tx_Rollback_simps [simp]:
  "db_tables (tx_Rollback tx db) = db_tables db" "db_open (tx_Rollback tx db) tx = None"
  by (simp_all add: tx_Rollback_def db_emit_def)

section \<open>Properties\<close>

abbreviation within_tx :: "'x transaction \<Rightarrow> sql_ctx \<Rightarrow> nat \<Rightarrow> sql_ctx" where
  "within_tx t ctx tx \<equiv> ctx\<lparr>cx_tx := Some \<lparr>tx_id = tx, tx_instanceID = tr_id t\<rparr>\<rparr>"

lemma route_within_tx [simp]: "route_of (within_tx t ctx tx) = ViaTx tx"
  by (simp add: route_of_def)

lemma take_locks_open:
  "take_locks ctx tx' locks db = (e, db') \<Longrightarrow> db_open db' = db_open db \<and> db_fault db' = db_fault db"
proof (induction locks arbitrary: db)
  case Nil
  then show ?case by simp
next
  case (Cons lock locks)
  have "withTransactionLevelLock ctx name shared tx db = (e, db') \<Longrightarrow> db_open db' = db_open db \<and> db_fault db' = db_fault db"
    for name shared tx db e db'
    by (auto simp: withTransactionLevelLock_def call_defs Let_def split: fault.splits sum.splits if_splits prod.splits)
  with Cons show ?case by (fastforce split: prod.splits option.splits)
qed

lemma locks_then_ok:
  assumes "locks_then ctx tx fn locks (db, x) = (Returns None, w)"
  shows "\<exists>db1. fn ctx (db1, x) = (Returns None, w) \<and> tx_stays tx db db1 \<and> db_open db1 = db_open db
    \<and> db_fault db1 = db_fault db"
  using assms
  by (auto simp: locks_then_def split: prod.splits option.splits
      dest: tx_stays_take_locks [of _ _ _ _ _ _ tx] take_locks_open)

text \<open>What the function saw when it returned without an error: it started from the committed state.\<close>

definition fn_saw ::
    "'x transaction \<Rightarrow> sql_ctx \<Rightarrow> (sql_ctx \<Rightarrow> ('x, err outcome) action) \<Rightarrow> dbms \<Rightarrow> 'x \<Rightarrow> dbms \<Rightarrow> 'x \<Rightarrow> bool" where
  "fn_saw t ctx fn db x db2 x2 \<longleftrightarrow>
     (\<exists>db1. db_view (ViaTx (db_next db)) db1 = db_tables db \<and> db_fault db1 = db_fault db
        \<and> fn (within_tx t ctx (db_next db)) (db1, x) = (Returns None, db2, x2))"

lemma WithinContext_outcome:
  assumes "\<not> has_parent_tx t ctx" and "\<forall>tx. confined tx (fn (within_tx t ctx tx))"
    and run: "WithinContext t ctx fn locks (db, x) = (Returns e, db', x')"
  defines "tx \<equiv> db_next db"
  shows "(e = None \<longrightarrow> (\<exists>db2 x2. fn_saw t ctx fn db x db2 x2 \<and> db_tables db' = db_view (ViaTx tx) db2
            \<and> x' = (case tr_onCommit t of None \<Rightarrow> x2 | Some onCommit \<Rightarrow> onCommit x2)
            \<and> db_open db' tx = None))
    \<and> (e \<noteq> None \<longrightarrow> db_tables db' = db_tables db
        \<or> (\<exists>db2. fn_saw t ctx fn db x db2 x' \<and> db_tables db' = db_view (ViaTx tx) db2
             \<and> (\<exists>x. e = Some (errorf ''commit transaction'' x)) \<and> db_open db' tx = None))"
proof -
  obtain b db0 where b: "begin_tx db = (b, db0)" by force
  show ?thesis
  proof (cases b)
    case (Inl y)
    then show ?thesis using run assms(1) b begin_tx_error by (auto simp: WithinContext_def)
  next
    case (Inr n)
    have n: "n = tx" "db_open db0 tx = Some []" "db_tables db0 = db_tables db" "db_fault db0 = db_fault db"
      using begin_tx_ok b Inr tx_def by auto
    let ?c = "within_tx t ctx tx"
    obtain r db2 x2 where l: "locks_then ?c tx fn locks (db0, x) = (r, db2, x2)"
      by (metis prod.collapse)
    have "confined tx (locks_then ?c tx fn locks)" using assms(2) by (intro confined_locks_then) auto
    then have "tx_stays tx db0 db2" using l unfolding confined_def by (metis fst_conv snd_conv)
    then have t2: "db_tables db2 = db_tables db" "db_open db2 tx \<noteq> None" using n by (auto simp: tx_stays_def)
    have saw: "fn_saw t ctx fn db x db2 x2" if rn: "r = Returns None"
    proof -
      obtain db1 where "fn ?c (db1, x) = (Returns None, db2, x2)" "tx_stays tx db0 db1" "db_open db1 = db_open db0"
        "db_fault db1 = db_fault db0"
        using locks_then_ok [of ?c tx fn locks db0 x "(db2, x2)"] l rn by auto
      moreover from this n have "db_view (ViaTx tx) db1 = db_tables db" "db_fault db1 = db_fault db"
        by (simp_all add: tx_stays_def db_view_def apply_log_def)
      ultimately show ?thesis unfolding fn_saw_def tx_def by blast
    qed
    have res: "(case r of Panics \<Rightarrow> (Panics, db2, x2)
        | Returns (Some y) \<Rightarrow> (Returns (Some y), tx_Rollback tx db2, x2)
        | Returns None \<Rightarrow> (case tx_Commit tx db2 of
             (Some y, db3) \<Rightarrow> (Returns (Some (errorf ''commit transaction'' y)), tx_Rollback tx db3, x2)
           | (None, db3) \<Rightarrow> (Returns None, db3,
                (case tr_onCommit t of None \<Rightarrow> x2 | Some onCommit \<Rightarrow> onCommit x2)))) = (Returns e, db', x')"
      using run assms(1) b Inr l n(1) by (cases r) (auto simp: WithinContext_def split: option.splits)
    show ?thesis
    proof (cases "r = Returns None")
      case True
      with res saw t2 show ?thesis
        by (auto split: prod.splits option.splits dest!: tx_Commit_ok tx_Commit_error)
    next
      case False
      with res t2 show ?thesis by (cases r) (auto split: option.splits)
    qed
  qed
qed

text \<open>
  C2. A transaction opened by \<^verbatim>\<open>WithinContext\<close> is atomic, for a function that works through the
  context it is given: the function starts from the committed state; success means that exactly the
  state it last saw is committed, the
  transaction is closed and \<^verbatim>\<open>onCommit\<close> ran; an error means that nothing was committed, save when the
  commit itself failed: then either nothing or exactly that state is committed.
\<close>

theorem within_context_atomic:
  assumes "\<not> has_parent_tx t ctx" and "\<forall>tx. confined tx (fn (within_tx t ctx tx))"
    and run: "WithinContext t ctx fn locks (db, x) = (Returns e, db', x')"
  defines "tx \<equiv> db_next db"
  defines "saw \<equiv> \<lambda>db2 x2. \<exists>db1. db_view (ViaTx tx) db1 = db_tables db
      \<and> fn (within_tx t ctx tx) (db1, x) = (Returns None, db2, x2)"
  shows "(e = None \<longrightarrow> (\<exists>db2 x2. saw db2 x2 \<and> db_tables db' = db_view (ViaTx tx) db2
            \<and> x' = (case tr_onCommit t of None \<Rightarrow> x2 | Some onCommit \<Rightarrow> onCommit x2)
            \<and> db_open db' tx = None))
    \<and> (e \<noteq> None \<longrightarrow> db_tables db' = db_tables db
        \<or> (\<exists>db2. saw db2 x' \<and> db_tables db' = db_view (ViaTx tx) db2
             \<and> (\<exists>x. e = Some (errorf ''commit transaction'' x)) \<and> db_open db' tx = None))"
  using WithinContext_outcome [OF assms(1,2) run] unfolding fn_saw_def saw_def tx_def by blast

definition example_profile :: profile_row where
  "example_profile = \<lparr>pr_user_id = 1, pr_first_name = ''A'', pr_last_name = ''B''\<rparr>"

text \<open>A function that inserts a row through the context it gets.\<close>

definition example_insert :: "sql_ctx \<Rightarrow> (nat, err outcome) action" where
  "example_insert ctx w =
     (case ExecContext ctx (\<lambda>_. Inr 1, \<lambda>t. t\<lparr>t_user_profile := example_profile # t_user_profile t\<rparr>) (fst w) of
        (Inl e, db) \<Rightarrow> (Returns (Some e), db, snd w)
      | (Inr _, db) \<Rightarrow> (Returns None, db, snd w))"

lemma example_insert_confined: "confined tx (example_insert (within_tx t ctx tx))"
  unfolding confined_def
proof
  fix w :: "nat world"
  obtain r db' where r: "ExecContext (within_tx t ctx tx)
      (\<lambda>_. Inr 1, \<lambda>t. t\<lparr>t_user_profile := example_profile # t_user_profile t\<rparr>) (fst w) = (r, db')"
    by force
  then have "tx_stays tx (fst w) db'" by (rule tx_stays_ExecContext) simp
  with r show "tx_stays tx (fst w) (fst (snd (example_insert (within_tx t ctx tx) w)))"
    by (simp add: example_insert_def split: sum.splits)
qed

lemma example_insert_runs:
  "\<exists>db'. WithinContext (NewTransaction ''i'' (Some Suc)) background example_insert [] ((calm_db empty_tables), 0)
    = (Returns None, db', 1)
    \<and> t_user_profile (db_tables db') = [example_profile]"
  by (simp add: WithinContext_def NewTransaction_def has_parent_tx_def background_def begin_tx_def
      next_fault_def calm_db_def empty_tables_def db_emit_def locks_then_def example_insert_def ExecContext_def
      run_exec_def run_call_def route_of_def tx_done_def db_view_def db_write_def tx_Commit_def
      apply_log_def)

theorem within_context_atomic_witness:
  "\<exists>db' db2. WithinContext (NewTransaction ''i'' (Some Suc)) background example_insert [] ((calm_db empty_tables), 0)
      = (Returns None, db', 1)
    \<and> db_tables db' = db_view (ViaTx 0) db2 \<and> t_user_profile (db_tables db') = [example_profile]"
proof -
  obtain db' where run: "WithinContext (NewTransaction ''i'' (Some Suc)) background example_insert []
      ((calm_db empty_tables), 0) = (Returns None, db', 1)"
    and rows: "t_user_profile (db_tables db') = [example_profile]"
    using example_insert_runs by blast
  have "\<not> has_parent_tx (NewTransaction ''i'' (Some Suc)) background"
    by (simp add: has_parent_tx_def background_def)
  from within_context_atomic [OF this _ run] example_insert_confined
  obtain db2 where "db_tables db' = db_view (ViaTx (db_next (calm_db empty_tables))) db2" by auto
  with run rows show ?thesis by (auto simp: calm_db_def empty_tables_def)
qed

text \<open>The same for a function with a result: on success the result is the one it returned.\<close>

definition fn_result ::
    "'x transaction \<Rightarrow> sql_ctx \<Rightarrow> (sql_ctx \<Rightarrow> ('x, ('r \<times> err) outcome) action) \<Rightarrow> dbms \<Rightarrow> 'x \<Rightarrow> 'r \<Rightarrow> dbms \<Rightarrow> bool" where
  "fn_result t ctx fn db x r db2 \<longleftrightarrow>
     (\<exists>db1 x2. db_view (ViaTx (db_next db)) db1 = db_tables db \<and> db_fault db1 = db_fault db
        \<and> fn (within_tx t ctx (db_next db)) (db1, x) = (Returns (r, None), db2, x2))"

lemma WithinTransactionWithResult_outcome:
  fixes z :: 'r and x :: 'x
  assumes np: "\<not> has_parent_tx t ctx" and conf: "\<forall>tx. confined tx (fn (within_tx t ctx tx))"
    and run: "WithinTransactionWithResult t ctx z fn locks (db, x) = (Returns (r, e), db', x')"
  shows "(e = None \<longrightarrow> (\<exists>db2. fn_result t ctx fn db x r db2 \<and> db_tables db' = db_view (ViaTx (db_next db)) db2))
    \<and> (e \<noteq> None \<longrightarrow> db_tables db' = db_tables db
        \<or> (\<exists>r' db2. fn_result t ctx fn db x r' db2 \<and> db_tables db' = db_view (ViaTx (db_next db)) db2))"
proof -
  let ?t = "\<lparr>tr_id = tr_id t, tr_onCommit = map_option (\<lambda>f (x, r :: 'r). (f x, r)) (tr_onCommit t)\<rparr>"
  let ?fn = "\<lambda>ctx (db, x, _). case fn ctx (db, x) of
      (Returns (r, e), db', x') \<Rightarrow> (Returns e, db', x', r) | (Panics, db', x') \<Rightarrow> (Panics, db', x', z)"
  have np': "\<not> has_parent_tx ?t ctx" using np by (simp add: has_parent_tx_def split: option.splits)
  have c: "confined tx (?fn (within_tx ?t ctx tx))" for tx
    unfolding confined_def
  proof
    fix w :: "('x \<times> 'r) world"
    obtain db0 x0 r0 where w: "w = (db0, x0, r0)" by (cases w)
    have "tx_stays tx db0 (fst (snd (fn (within_tx t ctx tx) (db0, x0))))"
      using conf unfolding confined_def by (metis fst_conv)
    then show "tx_stays tx (fst w) (fst (snd (?fn (within_tx ?t ctx tx) w)))"
      using w by (auto split: prod.splits outcome.splits)
  qed
  have run': "WithinContext ?t ctx ?fn locks (db, x, z) = (Returns e, db', x', r)"
    using run by (auto simp: WithinTransactionWithResult_def split: prod.splits outcome.splits)
  have saw: "fn_result t ctx fn db x r2 db2" if "fn_saw ?t ctx ?fn db (x, z) db2 (x2, r2)" for db2 x2 r2
  proof -
    from that obtain db1 where db1: "db_view (ViaTx (db_next db)) db1 = db_tables db \<and> db_fault db1 = db_fault db"
      "?fn (within_tx t ctx (db_next db)) (db1, x, z) = (Returns None, db2, x2, r2)"
      by (auto simp: fn_saw_def)
    obtain res db3 x3 where "fn (within_tx t ctx (db_next db)) (db1, x) = (res, db3, x3)" by (metis surj_pair)
    with db1(2) have "fn (within_tx t ctx (db_next db)) (db1, x) = (Returns (r2, None), db2, x2)"
      by (cases res) auto
    with db1(1) show ?thesis by (auto simp: fn_result_def)
  qed
  note out = WithinContext_outcome [OF np' allI [OF c] run']
  show ?thesis
  proof (cases e)
    case None
    with out obtain db2 x2 r2 where "fn_saw ?t ctx ?fn db (x, z) db2 (x2, r2)"
      "db_tables db' = db_view (ViaTx (db_next db)) db2"
      "(x', r) = (case map_option (\<lambda>f (x, r). (f x, r)) (tr_onCommit t) of None \<Rightarrow> (x2, r2) | Some f \<Rightarrow> f (x2, r2))"
      by auto
    moreover from this(3) have "r = r2" by (auto split: option.splits)
    ultimately show ?thesis using saw None by blast
  next
    case (Some y)
    with out have "db_tables db' = db_tables db
        \<or> (\<exists>db2. fn_saw ?t ctx ?fn db (x, z) db2 (x', r) \<and> db_tables db' = db_view (ViaTx (db_next db)) db2)"
      by blast
    with saw [of _ x' r] Some show ?thesis by blast
  qed
qed

text \<open>
  When the function panics, \<^verbatim>\<open>WithinContext\<close> neither commits nor rolls back: the panic passes
  and the transaction it opened stays open on the server, with its locks, until its context ends.
\<close>

theorem within_context_panic_leaves_open:
  assumes "\<not> has_parent_tx t ctx" and "\<forall>tx. confined tx (fn (within_tx t ctx tx))"
    and "WithinContext t ctx fn locks (db, x) = (Panics, db', x')"
  shows "db_open db' (db_next db) \<noteq> None \<and> db_tables db' = db_tables db"
proof -
  obtain b db0 where b: "begin_tx db = (b, db0)" by force
  with assms(1,3) obtain n where n: "b = Inr n"
    by (cases b) (auto simp: WithinContext_def)
  have n': "n = db_next db" "db_open db0 n = Some []" "db_tables db0 = db_tables db"
    using begin_tx_ok b n by auto
  let ?c = "within_tx t ctx n"
  have l: "locks_then ?c n fn locks (db0, x) = (Panics, db', x')"
    using assms(1,3) b n by (auto simp: WithinContext_def split: outcome.splits option.splits prod.splits)
  have "confined n (locks_then ?c n fn locks)" using assms(2) by (intro confined_locks_then) auto
  then have "tx_stays n db0 db'" using l unfolding confined_def by (metis fst_conv snd_conv)
  with n' show ?thesis by (auto simp: tx_stays_def)
qed

theorem within_context_panic_leaves_open_witness:
  "\<exists>db'. WithinContext (NewTransaction ''i'' None) background (\<lambda>_ w. (Panics, w)) [] ((calm_db empty_tables), ())
      = (Panics, db', ()) \<and> db_open db' 0 \<noteq> None"
proof -
  have np: "\<not> has_parent_tx (NewTransaction ''i'' None) background"
    by (simp add: has_parent_tx_def background_def)
  let ?fn = "\<lambda>_ w. (Panics :: err outcome, w :: unit world)"
  have "\<forall>tx. confined tx (?fn (within_tx (NewTransaction ''i'' None) background tx))"
    by (simp add: confined_def tx_stays_refl)
  moreover obtain db' where run: "WithinContext (NewTransaction ''i'' None) background ?fn []
      ((calm_db empty_tables), ()) = (Panics, db', ())"
    by (auto simp: WithinContext_def np begin_tx_def next_fault_def calm_db_def empty_tables_def locks_then_def)
  ultimately have "db_open db' (db_next (calm_db empty_tables)) \<noteq> None"
    using within_context_panic_leaves_open [OF np, of ?fn "[]" "calm_db empty_tables" "()" db' "()"] by simp
  with run show ?thesis by (auto simp: calm_db_def empty_tables_def)
qed

section \<open>Lock order\<close>

abbreviation lock_event :: "nat \<Rightarrow> persistence_lock \<Rightarrow> db_event" where
  "lock_event tx l \<equiv> EvXactLock (ViaTx tx) (getLockIDByName (lk_Key l)) (lk_Shared l)"

lemma lock_trace:
  "withTransactionLevelLock ctx name shared tx db = (e, db') \<Longrightarrow>
   db_trace db' = db_trace db @ (if e = None then [EvXactLock (ViaTx tx) (getLockIDByName name) shared] else [])
   \<or> e \<noteq> None \<and> db_trace db' = db_trace db @ [EvXactLock (ViaTx tx) (getLockIDByName name) shared]"
  by (auto simp: withTransactionLevelLock_def call_defs Let_def
      split: fault.splits sum.splits if_splits prod.splits)

lemma take_locks_trace:
  "take_locks ctx tx locks db = (e, db') \<Longrightarrow>
   \<exists>k \<le> length locks. db_trace db' = db_trace db @ map (lock_event tx) (take k locks)
     \<and> (e = None \<longrightarrow> k = length locks)"
proof (induction locks arbitrary: db)
  case Nil
  then show ?case by simp
next
  case (Cons lock locks)
  obtain e1 db1 where l: "withTransactionLevelLock ctx (lk_Key lock) (lk_Shared lock) tx db = (e1, db1)"
    by force
  show ?case
  proof (cases e1)
    case None
    with Cons.prems l have "take_locks ctx tx locks db1 = (e, db')" by simp
    from Cons.IH [OF this] obtain k where "k \<le> length locks"
      "db_trace db' = db_trace db1 @ map (lock_event tx) (take k locks)" "e = None \<longrightarrow> k = length locks"
      by blast
    with lock_trace [OF l] None show ?thesis by (intro exI [of _ "Suc k"]) auto
  next
    case (Some x)
    with Cons.prems l have "db' = db1" "e \<noteq> None" by auto
    with lock_trace [OF l] Some show ?thesis
      by (auto intro: exI [of _ 0] exI [of _ "Suc 0"])
  qed
qed

text \<open>
  C33. The advisory locks of a transaction are taken in the order of their keys, before the function
  runs and up to the first failure; callers that ask for the same locks, in whatever order, take
  them in the same order.
\<close>

theorem locks_taken_in_key_order:
  "(\<exists>db1. locks_then ctx tx fn locks w = fn ctx (db1, snd w)
      \<and> db_trace db1 = db_trace (fst w) @ map (lock_event tx) (sort_key lk_Key locks)
     \<or> (\<exists>e k. locks_then ctx tx fn locks w = (Returns (Some e), db1, snd w)
      \<and> db_trace db1 = db_trace (fst w) @ map (lock_event tx) (take k (sort_key lk_Key locks))))
   \<and> sorted (map lk_Key (sort_key lk_Key locks))
   \<and> (mset locks' = mset locks \<and> distinct (map lk_Key locks) \<longrightarrow>
        locks_then ctx tx fn locks' w = locks_then ctx tx fn locks w)"
proof (intro conjI impI)
  obtain e db1 where t: "take_locks ctx tx (sort_key lk_Key locks) (fst w) = (e, db1)" by force
  from take_locks_trace [OF t] obtain k where
    k: "db_trace db1 = db_trace (fst w) @ map (lock_event tx) (take k (sort_key lk_Key locks))"
       "e = None \<longrightarrow> k = length (sort_key lk_Key locks)"
    by blast
  show "\<exists>db1. locks_then ctx tx fn locks w = fn ctx (db1, snd w)
      \<and> db_trace db1 = db_trace (fst w) @ map (lock_event tx) (sort_key lk_Key locks)
     \<or> (\<exists>e k. locks_then ctx tx fn locks w = (Returns (Some e), db1, snd w)
      \<and> db_trace db1 = db_trace (fst w) @ map (lock_event tx) (take k (sort_key lk_Key locks)))"
    using k t by (cases e) (auto simp: locks_then_def intro!: exI [of _ db1])
  show "sorted (map lk_Key (sort_key lk_Key locks))" by simp
  assume "mset locks' = mset locks \<and> distinct (map lk_Key locks)"
  then have "sort_key lk_Key locks' = sort_key lk_Key locks"
    by (intro sort_key_inj_key_eq) (auto simp: distinct_map dest: mset_eq_setD)
  then show "locks_then ctx tx fn locks' w = locks_then ctx tx fn locks w"
    by (simp add: locks_then_def)
qed

theorem locks_taken_in_key_order_witness:
  "locks_then background 0 (\<lambda>_ w. (Returns None, w))
     [\<lparr>lk_Key = ''b'', lk_Shared = False\<rparr>, \<lparr>lk_Key = ''a'', lk_Shared = True\<rparr>] ((calm_db empty_tables), ())
   = locks_then background 0 (\<lambda>_ w. (Returns None, w))
     [\<lparr>lk_Key = ''a'', lk_Shared = True\<rparr>, \<lparr>lk_Key = ''b'', lk_Shared = False\<rparr>] ((calm_db empty_tables), ())"
proof -
  let ?a = "\<lparr>lk_Key = ''a'', lk_Shared = True\<rparr>" and ?b = "\<lparr>lk_Key = ''b'', lk_Shared = False\<rparr>"
  have "mset [?b, ?a] = mset [?a, ?b] \<and> distinct (map lk_Key [?a, ?b])" by simp
  with locks_taken_in_key_order [where locks = "[?a, ?b]" and locks' = "[?b, ?a]"]
  show ?thesis by blast
qed

text \<open>
  A row lock is only requested inside a transaction, and the select built in that context then
  carries exactly the requested clauses.
\<close>

theorem lock_update_query:
  "PrepareUpdateLockQuery (LockUpdate t ctx exclusively opts) =
    (if HasTransaction ctx
     then (if exclusively then ''FOR UPDATE'' else ''FOR SHARE'')
            # (if SkipAlreadyLockedData \<in> set opts then [''SKIP LOCKED''] else [])
     else PrepareUpdateLockQuery ctx)"
  by (auto simp: PrepareUpdateLockQuery_def LockUpdate_def IsUpdateLockRequested_def Let_def
      list_ex_iff split: option.splits)

end
