(* ===== verification/Idempotency.thy ===== *)
theory Idempotency
  imports Sql_Transaction
begin

text \<open>
  \<^verbatim>\<open>pkg/idk/service.go\<close> and its SQL storage \<^verbatim>\<open>pkg/sql/idempotencykey.go\<close>.  \<^verbatim>\<open>uuid.NewSHA1\<close> of the
  third-party package is the argument \<open>newSHA1\<close>; \<open>now\<close> is the server's \<^verbatim>\<open>current_timestamp\<close>.
\<close>

section \<open>Storage\<close>

definition idk_insert_stmt :: "time \<Rightarrow> uuid \<Rightarrow> uuid \<Rightarrow> string option \<Rightarrow> stmt" where
  "idk_insert_stmt now k base extra =
     (\<lambda>t. Inr (if k \<in> ir_key ` set (t_idempotency_key t) then 0 else 1),
      \<lambda>t. if k \<in> ir_key ` set (t_idempotency_key t) then t
          else t\<lparr>t_idempotency_key := t_idempotency_key t @
            [\<lparr>ir_key = k, ir_base = base, ir_extra = extra, ir_created_at = now\<rparr>]\<rparr>)"

definition idk_storage_Insert ::
    "(uuid \<Rightarrow> string \<Rightarrow> uuid) \<Rightarrow> time \<Rightarrow> sql_ctx \<Rightarrow> uuid \<Rightarrow> string \<Rightarrow> dbms \<Rightarrow> err \<times> dbms" where
  "idk_storage_Insert newSHA1 now ctx k extraKey db =
     (let extraValue = (if extraKey \<noteq> [] then Some extraKey else None)
      in case ExecContext ctx (idk_insert_stmt now (newSHA1 k extraKey) k extraValue) db of
           (Inl e, db') \<Rightarrow> (Some (errorf ''insert key'' e), db')
         | (Inr rowsAffected, db') \<Rightarrow>
             (if rowsAffected = 0 then Some (Sentinel ErrAlreadyInserted) else None, db'))"

definition idk_delete_stmt :: "time \<Rightarrow> stmt" where
  "idk_delete_stmt before =
     (\<lambda>t. Inr (length (filter (\<lambda>r. ir_created_at r < before) (t_idempotency_key t))),
      \<lambda>t. t\<lparr>t_idempotency_key := filter (\<lambda>r. \<not> ir_created_at r < before) (t_idempotency_key t)\<rparr>)"

definition idk_storage_Delete :: "sql_ctx \<Rightarrow> time \<Rightarrow> dbms \<Rightarrow> err \<times> dbms" where
  "idk_storage_Delete ctx createdAtBefore db =
     (case ExecContext ctx (idk_delete_stmt createdAtBefore) db of
        (Inl e, db') \<Rightarrow> (Some (errorf ''delete keys'' e), db')
      | (Inr _, db') \<Rightarrow> (None, db'))"

section \<open>Service\<close>

definition keyTTL :: int where
  "keyTTL = 24 * time_hour"

definition idk_Insert ::
    "(uuid \<Rightarrow> string \<Rightarrow> uuid) \<Rightarrow> time \<Rightarrow> sql_ctx \<Rightarrow> uuid \<Rightarrow> string list \<Rightarrow> dbms \<Rightarrow> err \<times> dbms" where
  "idk_Insert newSHA1 now ctx k extraKeys db =
     idk_storage_Insert newSHA1 now ctx k (if extraKeys \<noteq> [] then join extraKeys ''_'' else []) db"

definition idk_InsertString ::
    "(uuid \<Rightarrow> string \<Rightarrow> uuid) \<Rightarrow> time \<Rightarrow> sql_ctx \<Rightarrow> string \<Rightarrow> string list \<Rightarrow> dbms \<Rightarrow> err \<times> dbms" where
  "idk_InsertString newSHA1 now ctx k extraKeys db =
     idk_storage_Insert newSHA1 now ctx uuid_nil
       (if extraKeys \<noteq> [] then k @ ''_'' @ join extraKeys ''_'' else k) db"

definition idk_DeleteOutdated :: "time \<Rightarrow> sql_ctx \<Rightarrow> dbms \<Rightarrow> err \<times> dbms" where
  "idk_DeleteOutdated now ctx db = idk_storage_Delete ctx (now - keyTTL) db"

section \<open>Properties\<close>

lemma run_exec_ok:
  assumes "run_exec r st db = (Inr n, db')"
  shows "fst st (db_view r db) = Inr n \<and> db_view r db' = snd st (db_view r db)"
  using assms
  by (cases r) (auto simp: run_exec_def call_defs tx_done_def db_view_def db_write_def apply_log_def
      split: fault.splits sum.splits if_splits option.splits)

lemma ExecContext_ok:
  assumes "ExecContext ctx st db = (Inr n, db')"
  shows "fst st (db_view (route_of ctx) db) = Inr n \<and> db_view (route_of ctx) db' = snd st (db_view (route_of ctx) db)"
  using assms run_exec_ok by (simp add: ExecContext_def)

text \<open>The keys a context sees.\<close>

definition keys_seen :: "sql_ctx \<Rightarrow> dbms \<Rightarrow> uuid set" where
  "keys_seen ctx db = ir_key ` set (t_idempotency_key (db_view (route_of ctx) db))"

lemma ExecContext_view:
  assumes "ExecContext ctx st db = (r, db')"
  shows "db_view (route_of ctx) db' = db_view (route_of ctx) db
    \<or> db_view (route_of ctx) db' = snd st (db_view (route_of ctx) db)"
  using assms
  by (cases "route_of ctx") (auto simp: ExecContext_def run_exec_def call_defs tx_done_def db_view_def db_write_def
      apply_log_def split: fault.splits sum.splits if_splits option.splits)

lemma idk_storage_Insert_new:
  assumes "idk_storage_Insert newSHA1 now ctx k extra db = (None, db')"
  shows "newSHA1 k extra \<notin> keys_seen ctx db \<and> keys_seen ctx db' = insert (newSHA1 k extra) (keys_seen ctx db)"
proof -
  obtain n where "ExecContext ctx (idk_insert_stmt now (newSHA1 k extra) k (if extra \<noteq> [] then Some extra else None)) db
      = (Inr n, db')" "n \<noteq> 0"
    using assms by (auto simp: idk_storage_Insert_def Let_def split: prod.splits sum.splits if_splits)
  with ExecContext_ok [OF this(1)] show ?thesis
    by (auto simp: idk_insert_stmt_def keys_seen_def split: if_splits)
qed

text \<open>What the driver itself reports of the next statement: a finished transaction, a lost request or reply.\<close>

definition driver_error :: "sql_ctx \<Rightarrow> dbms \<Rightarrow> err" where
  "driver_error ctx db =
     (if tx_done (route_of ctx) db then Some (Sentinel SqlErrTxDone)
      else case db_fault db (db_calls db) of NoFault \<Rightarrow> None | LostRequest e \<Rightarrow> Some e | LostReply e \<Rightarrow> Some e)"

lemma ExecContext_result:
  assumes "\<And>v. fst st v = Inr (affected v)"
  shows "fst (ExecContext ctx st db) =
    (case driver_error ctx db of Some e \<Rightarrow> Inl e | None \<Rightarrow> Inr (affected (db_view (route_of ctx) db)))"
  using assms by (cases "route_of ctx")
    (simp_all add: ExecContext_def run_exec_def call_defs driver_error_def tx_done_def split: fault.split)

lemma idk_storage_Insert_error:
  assumes "newSHA1 k extra \<in> keys_seen ctx db"
  shows "fst (idk_storage_Insert newSHA1 now ctx k extra db) =
    (case driver_error ctx db of None \<Rightarrow> Some (Sentinel ErrAlreadyInserted) | Some f \<Rightarrow> Some (errorf ''insert key'' f))"
proof -
  define st where "st = idk_insert_stmt now (newSHA1 k extra) k (if extra \<noteq> [] then Some extra else None)"
  have "fst (ExecContext ctx st db) = (case driver_error ctx db of Some e \<Rightarrow> Inl e | None \<Rightarrow> Inr 0)"
    using assms ExecContext_result [of st "\<lambda>t. if newSHA1 k extra \<in> ir_key ` set (t_idempotency_key t) then 0 else 1" ctx db]
    by (simp add: st_def idk_insert_stmt_def keys_seen_def)
  then show ?thesis
    by (cases "ExecContext ctx st db") (auto simp: idk_storage_Insert_def Let_def st_def [symmetric] split: option.splits)
qed

lemma idk_storage_Insert_again:
  assumes "idk_storage_Insert newSHA1 now ctx k extra db = (e, db')" and "newSHA1 k extra \<in> keys_seen ctx db"
  shows "db_view (route_of ctx) db' = db_view (route_of ctx) db"
proof -
  obtain r where r: "ExecContext ctx (idk_insert_stmt now (newSHA1 k extra) k (if extra \<noteq> [] then Some extra else None)) db
      = (r, db')"
    using assms(1) by (auto simp: idk_storage_Insert_def Let_def split: prod.splits sum.splits)
  from ExecContext_view [OF r] assms(2) show ?thesis by (auto simp: idk_insert_stmt_def keys_seen_def)
qed

text \<open>
  C17. An idempotency key is accepted once: after a successful insert, in any later state that still has the
  keys, inserting the same key and extra keys again - through any context, inside or outside a
  transaction - changes nothing and fails with exactly \<^verbatim>\<open>ErrAlreadyInserted\<close>, the error the event handlers
  look for, unless the driver itself failed on that statement, whose error is then wrapped.
\<close>

theorem idempotency_key_accepted_once:
  assumes "idk_Insert newSHA1 now ctx k extraKeys db = (None, db1)"
    and "keys_seen ctx db1 \<subseteq> keys_seen ctx' db2"
    and "idk_Insert newSHA1 now' ctx' k extraKeys db2 = (e, db3)"
  shows "e = (case driver_error ctx' db2 of
        None \<Rightarrow> Some (Sentinel ErrAlreadyInserted) | Some f \<Rightarrow> Some (errorf ''insert key'' f))
    \<and> e \<noteq> None \<and> db_view (route_of ctx') db3 = db_view (route_of ctx') db2"
proof -
  let ?x = "if extraKeys \<noteq> [] then join extraKeys ''_'' else []"
  have "newSHA1 k ?x \<in> keys_seen ctx db1"
    using idk_storage_Insert_new [OF assms(1) [unfolded idk_Insert_def]] by simp
  with assms(2) have seen: "newSHA1 k ?x \<in> keys_seen ctx' db2" by blast
  have "e = (case driver_error ctx' db2 of
      None \<Rightarrow> Some (Sentinel ErrAlreadyInserted) | Some f \<Rightarrow> Some (errorf ''insert key'' f))"
    using idk_storage_Insert_error [of newSHA1 k ?x ctx' db2 now'] seen assms(3) by (simp add: idk_Insert_def)
  with idk_storage_Insert_again [OF assms(3) [unfolded idk_Insert_def] seen] show ?thesis by (simp split: option.split)
qed

definition example_sha1 :: "uuid \<Rightarrow> string \<Rightarrow> uuid" where
  "example_sha1 k extra = k + of_nat (length extra)"

lemma example_insert_once:
  "\<exists>db1. idk_Insert example_sha1 10 background 5 [''h''] (calm_db empty_tables) = (None, db1) \<and> db_fault db1 = (\<lambda>_. NoFault)"
  by (simp add: idk_Insert_def idk_storage_Insert_def ExecContext_def run_exec_def call_defs calm_db_def empty_tables_def
      idk_insert_stmt_def tx_done_def route_of_def background_def db_view_def db_write_def)

theorem idempotency_key_accepted_once_witness:
  "\<exists>db1. idk_Insert example_sha1 10 background 5 [''h''] (calm_db empty_tables) = (None, db1)
    \<and> fst (idk_Insert example_sha1 20 background 5 [''h''] db1) = Some (Sentinel ErrAlreadyInserted)"
proof -
  obtain db1 where i: "idk_Insert example_sha1 10 background 5 [''h''] (calm_db empty_tables) = (None, db1)"
    and calm: "db_fault db1 = (\<lambda>_. NoFault)"
    using example_insert_once by blast
  have "driver_error background db1 = None" using calm by (simp add: driver_error_def tx_done_def route_of_def background_def)
  moreover obtain e db3 where "idk_Insert example_sha1 20 background 5 [''h''] db1 = (e, db3)" by force
  moreover note idempotency_key_accepted_once [OF i order.refl this]
  ultimately show ?thesis using i by simp
qed

text \<open>
  Keys live at least their time to live: the cleanup, whether it succeeds or fails, keeps every key
  created during the last 24 hours, and when it succeeds no older one is left.
\<close>

theorem idempotency_key_time_to_live:
  assumes "cx_tx ctx = None" and "idk_DeleteOutdated now ctx db = (e, db')"
  shows "(\<forall>r \<in> set (t_idempotency_key (db_tables db)).
            now - 24 * time_hour \<le> ir_created_at r \<longrightarrow> r \<in> set (t_idempotency_key (db_tables db')))
    \<and> (e = None \<longrightarrow> (\<forall>r \<in> set (t_idempotency_key (db_tables db')). now - 24 * time_hour \<le> ir_created_at r))"
proof -
  obtain r where r: "ExecContext ctx (idk_delete_stmt (now - keyTTL)) db = (r, db')"
    and e: "e = None \<Longrightarrow> \<exists>n. r = Inr n"
    using assms(2) by (auto simp: idk_DeleteOutdated_def idk_storage_Delete_def split: prod.splits sum.splits)
  show ?thesis
    using r e exec_autocommit_ok [OF assms(1)] exec_autocommit_error [OF assms(1)]
    by (cases r) (fastforce simp: idk_delete_stmt_def keyTTL_def)+
qed

theorem idempotency_key_time_to_live_witness:
  "\<exists>db1. idk_Insert example_sha1 10 background 5 [''h''] (calm_db empty_tables) = (None, db1)
    \<and> (\<forall>r \<in> set (t_idempotency_key (db_tables db1)). 11 - 24 * time_hour \<le> ir_created_at r \<longrightarrow>
         r \<in> set (t_idempotency_key (db_tables (snd (idk_DeleteOutdated 11 background db1)))))"
proof -
  obtain db1 where i: "idk_Insert example_sha1 10 background 5 [''h''] (calm_db empty_tables) = (None, db1)"
    using example_insert_once by blast
  have "cx_tx background = None" by (simp add: background_def)
  from idempotency_key_time_to_live [OF this surjective_pairing] i show ?thesis by blast
qed

text \<open>
  Extra keys are joined without escaping, so different lists of extra keys are one key: after
  \<open>[''a_b'']\<close> the list \<open>[''a'', ''b'']\<close> is refused as already inserted.
\<close>

theorem idempotency_extra_keys_collide:
  "idk_Insert newSHA1 now ctx k [a @ ''_'' @ b] db = idk_Insert newSHA1 now ctx k [a, b] db"
  by (simp add: idk_Insert_def)

end
