(* ===== verification/User_Profile.thy ===== *)
theory User_Profile
  imports Idempotency
begin

text \<open>
  The user profile domain, \<^verbatim>\<open>internal/userprofile\<close>: repository and service.  The user service it asks is
  an interface of the application (another process, reached over HTTP) and acts on the rest \<^typ>\<open>'x\<close> of the
  world; so is the idempotency service.
\<close>

section \<open>Domain and repository\<close>

record user_profile =
  up_ID :: uuid
  up_FirstName :: string
  up_LastName :: string

record profile_event_user_deleted =
  pe_EventID :: uuid
  pe_UserID :: uuid

definition profile_row_of :: "user_profile \<Rightarrow> profile_row" where
  "profile_row_of p = \<lparr>pr_user_id = up_ID p, pr_first_name = up_FirstName p, pr_last_name = up_LastName p\<rparr>"

definition upsert_profile :: "profile_row \<Rightarrow> profile_row list \<Rightarrow> profile_row list" where
  "upsert_profile r rows =
     (if pr_user_id r \<in> pr_user_id ` set rows then map (\<lambda>x. if pr_user_id x = pr_user_id r then r else x) rows
      else rows @ [r])"

definition profile_Store :: "sql_ctx \<Rightarrow> user_profile \<Rightarrow> dbms \<Rightarrow> err \<times> dbms" where
  "profile_Store ctx p db =
     (case ExecContext ctx (\<lambda>t. Inr 1, \<lambda>t. t\<lparr>t_user_profile := upsert_profile (profile_row_of p) (t_user_profile t)\<rparr>) db of
        (Inl e, db') \<Rightarrow> (Some e, db')
      | (Inr _, db') \<Rightarrow> (None, db'))"

definition profile_FindByID :: "sql_ctx \<Rightarrow> uuid \<Rightarrow> dbms \<Rightarrow> (go_error + user_profile) \<times> dbms" where
  "profile_FindByID ctx userID db =
     (case GetContext ctx (\<lambda>t. filter (\<lambda>r. pr_user_id r = userID) (t_user_profile t)) db of
        (Inl e, db') \<Rightarrow>
          (if errors_is (Some e) (Some SqlErrNoRows) then (Inl (Sentinel DomainErrUserProfileNotFound), db') else (Inl e, db'))
      | (Inr row, db') \<Rightarrow>
          (Inr \<lparr>up_ID = pr_user_id row, up_FirstName = pr_first_name row, up_LastName = pr_last_name row\<rparr>, db'))"

definition profile_delete_stmt :: "uuid \<Rightarrow> stmt" where
  "profile_delete_stmt userID =
     (\<lambda>t. Inr (length (filter (\<lambda>r. pr_user_id r = userID) (t_user_profile t))),
      \<lambda>t. t\<lparr>t_user_profile := filter (\<lambda>r. pr_user_id r \<noteq> userID) (t_user_profile t)\<rparr>)"

definition profile_DeleteByID :: "sql_ctx \<Rightarrow> uuid \<Rightarrow> dbms \<Rightarrow> err \<times> dbms" where
  "profile_DeleteByID ctx userID db =
     (case ExecContext ctx (profile_delete_stmt userID) db of
        (Inl e, db') \<Rightarrow> (Some e, db')
      | (Inr rowsAffected, db') \<Rightarrow>
          (if rowsAffected = 0 then Some (Sentinel DomainErrUserProfileNotFound) else None, db'))"

section \<open>Service\<close>

record profile_user_data =
  pu_ID :: uuid
  pu_DeletedAt :: "time option"

record 'x profile_service =
  ps_userService_Get :: "sql_ctx \<Rightarrow> uuid \<Rightarrow> 'x \<Rightarrow> (go_error + profile_user_data) \<times> 'x"
  ps_idk_Insert :: "sql_ctx \<Rightarrow> uuid \<Rightarrow> string list \<Rightarrow> dbms \<Rightarrow> err \<times> dbms"
  ps_transaction :: "'x transaction"

definition userProfile_Get :: "'x profile_service \<Rightarrow> sql_ctx \<Rightarrow> uuid \<Rightarrow> ('x, go_error + user_profile) action" where
  "userProfile_Get s ctx i w =
     (case permission_Check (cx_auth ctx) (CanGetUserProfile i) of
        Some e \<Rightarrow> (Inl e, w)
      | None \<Rightarrow>
          (case profile_FindByID ctx i (fst w) of
             (Inl e, db) \<Rightarrow>
               (if errors_is (Some e) (Some DomainErrUserProfileNotFound) then (Inl (Sentinel ErrUserProfileNotFound), db, snd w)
                else (Inl (errorf ''find userprofile by id'' e), db, snd w))
           | (Inr profile, db) \<Rightarrow>
               (case ps_userService_Get s ctx i (snd w) of
                  (Inl e, x) \<Rightarrow>
                    (if errors_is (Some e) (Some AppErrUserNotFound) then (Inl (Sentinel ProfileErrUserNotFound), db, x)
                     else (Inl (errorf ''find user from userservice'' e), db, x))
                | (Inr userData, x) \<Rightarrow>
                    if pu_DeletedAt userData \<noteq> None then (Inl (Sentinel ProfileErrUserNotFound), db, x)
                    else (Inr profile, db, x))))"

definition userProfile_Update :: "'x profile_service \<Rightarrow> sql_ctx \<Rightarrow> user_profile \<Rightarrow> ('x, err) action" where
  "userProfile_Update s ctx data w =
     (case permission_Check (cx_auth ctx) (CanUpdateUserProfile (up_ID data)) of
        Some e \<Rightarrow> (Some e, w)
      | None \<Rightarrow>
          if trim_space (up_FirstName data) = [] \<or> trim_space (up_LastName data) = []
          then (Some (Sentinel ErrInvalidUserProfileData), w)
          else (case ps_userService_Get s ctx (up_ID data) (snd w) of
                  (Inl e, x) \<Rightarrow>
                    (if errors_is (Some e) (Some AppErrUserNotFound) then (Some (Sentinel ProfileErrUserNotFound), fst w, x)
                     else (Some (errorf ''find user from userservice'' e), fst w, x))
                | (Inr userData, x) \<Rightarrow>
                    if pu_DeletedAt userData \<noteq> None then (Some (Sentinel ProfileErrUserNotFound), fst w, x)
                    else (case profile_Store ctx data (fst w) of
                            (Some e, db) \<Rightarrow> (Some (errorf ''store userprofile'' e), db, x)
                          | (None, db) \<Rightarrow> (None, db, x))))"

text \<open>The function run in the transaction of \<^verbatim>\<open>HandleUserDeleted\<close>.\<close>

definition handleUserDeletedImpl ::
    "'x profile_service \<Rightarrow> profile_event_user_deleted \<Rightarrow> sql_ctx \<Rightarrow> ('x, err outcome) action" where
  "handleUserDeletedImpl s event ctx w =
     (case ps_idk_Insert s ctx (pe_EventID event) [''handle_user_deleted''] (fst w) of
        (Some e, db) \<Rightarrow> (Returns (Some e), db, snd w)
      | (None, db) \<Rightarrow>
          (case profile_DeleteByID ctx (pe_UserID event) db of
             (None, db') \<Rightarrow> (Returns None, db', snd w)
           | (Some e, db') \<Rightarrow>
               if errors_is (Some e) (Some DomainErrUserProfileNotFound) then (Returns None, db', snd w)
               else (Returns (Some (errorf ''delete userprofile by id'' e)), db', snd w)))"

definition HandleUserDeleted ::
    "'x profile_service \<Rightarrow> sql_ctx \<Rightarrow> profile_event_user_deleted \<Rightarrow> ('x, err outcome) action" where
  "HandleUserDeleted s ctx event w =
     (case ps_userService_Get s ctx (pe_UserID event) (snd w) of
        (Inl e, x) \<Rightarrow>
          (if errors_is (Some e) (Some AppErrUserNotFound) then (Returns None, fst w, x)
           else (Returns (Some (errorf ''find user from userservice'' e)), fst w, x))
      | (Inr userData, x) \<Rightarrow>
          if pu_DeletedAt userData = None then (Returns None, fst w, x)
          else WithinContext (ps_transaction s) ctx (handleUserDeletedImpl s event) [] (fst w, x))"

text \<open>\<^verbatim>\<open>userProfileServiceProvider\<close> of the container, with the idempotency service of \<^verbatim>\<open>pkg/idk\<close>.\<close>

definition NewUserProfile ::
    "(sql_ctx \<Rightarrow> uuid \<Rightarrow> 'x \<Rightarrow> (go_error + profile_user_data) \<times> 'x) \<Rightarrow> (uuid \<Rightarrow> string \<Rightarrow> uuid) \<Rightarrow> time
      \<Rightarrow> 'x profile_service" where
  "NewUserProfile userService newSHA1 now =
     \<lparr>ps_userService_Get = userService, ps_idk_Insert = idk_Insert newSHA1 now,
      ps_transaction = NewTransaction ''userProfile'' None\<rparr>"

section \<open>Handling a deleted user\<close>

lemma idk_Insert_stays:
  "idk_Insert newSHA1 now ctx k extra db = (e, db') \<Longrightarrow> route_of ctx = ViaTx tx \<Longrightarrow> tx_stays tx db db'"
  by (auto simp: idk_Insert_def idk_storage_Insert_def Let_def split: prod.splits sum.splits dest!: tx_stays_ExecContext)

lemma profile_DeleteByID_stays:
  "profile_DeleteByID ctx i db = (e, db') \<Longrightarrow> route_of ctx = ViaTx tx \<Longrightarrow> tx_stays tx db db'"
  by (auto simp: profile_DeleteByID_def split: prod.splits sum.splits dest!: tx_stays_ExecContext)

lemma handleUserDeleted_confined:
  assumes "route_of ctx = ViaTx tx" and "ps_idk_Insert s = idk_Insert newSHA1 now"
  shows "confined tx (handleUserDeletedImpl s event ctx)"
  unfolding confined_def
proof
  fix w :: "'a world"
  obtain db x where w: "w = (db, x)" by (cases w)
  obtain e db1 where i: "idk_Insert newSHA1 now ctx (pe_EventID event) [''handle_user_deleted''] db = (e, db1)" by force
  obtain e2 db2 where d: "profile_DeleteByID ctx (pe_UserID event) db1 = (e2, db2)" by force
  show "tx_stays tx (fst w) (fst (snd (handleUserDeletedImpl s event ctx w)))"
    using idk_Insert_stays [OF i assms(1)] profile_DeleteByID_stays [OF d assms(1)] tx_stays_trans [of tx db db1 db2] i d assms(2)
    by (auto simp: w handleUserDeletedImpl_def split: option.splits)
qed

lemma idk_storage_Insert_row:
  assumes "idk_storage_Insert newSHA1 now ctx k extra db = (None, db')" and "extra \<noteq> []"
  shows "newSHA1 k extra \<notin> keys_seen ctx db
    \<and> db_view (route_of ctx) db' = (db_view (route_of ctx) db)\<lparr>t_idempotency_key := t_idempotency_key (db_view (route_of ctx) db)
        @ [\<lparr>ir_key = newSHA1 k extra, ir_base = k, ir_extra = Some extra, ir_created_at = now\<rparr>]\<rparr>"
proof -
  obtain n where "ExecContext ctx (idk_insert_stmt now (newSHA1 k extra) k (Some extra)) db = (Inr n, db')" "n \<noteq> 0"
    using assms by (auto simp: idk_storage_Insert_def Let_def split: prod.splits sum.splits if_splits)
  with ExecContext_ok [OF this(1)] show ?thesis
    by (auto simp: idk_insert_stmt_def keys_seen_def split: if_splits)
qed

text \<open>The tables after the event was handled.\<close>

definition event_handled :: "(uuid \<Rightarrow> string \<Rightarrow> uuid) \<Rightarrow> time \<Rightarrow> profile_event_user_deleted \<Rightarrow> tables \<Rightarrow> tables" where
  "event_handled newSHA1 now event t = t\<lparr>
     t_idempotency_key := t_idempotency_key t @ [\<lparr>ir_key = newSHA1 (pe_EventID event) ''handle_user_deleted'',
       ir_base = pe_EventID event, ir_extra = Some ''handle_user_deleted'', ir_created_at = now\<rparr>],
     t_user_profile := filter (\<lambda>r. pr_user_id r \<noteq> pe_UserID event) (t_user_profile t)\<rparr>"

text \<open>A driver whose errors are not the repository's own.\<close>

definition never_reports :: "sentinel \<Rightarrow> dbms \<Rightarrow> bool" where
  "never_reports t db \<longleftrightarrow> (\<forall>n e. db_fault db n = LostRequest e \<or> db_fault db n = LostReply e \<longrightarrow> \<not> error_is e t)"

abbreviation profile_honest_db :: "dbms \<Rightarrow> bool" where
  "profile_honest_db \<equiv> never_reports DomainErrUserProfileNotFound"

lemma ExecContext_fault: "ExecContext ctx st db = (r, db') \<Longrightarrow> db_fault db' = db_fault db"
  by (auto simp: ExecContext_def run_exec_def call_defs db_write_def
      split: fault.splits sum.splits if_splits option.splits route.splits)

lemma idk_Insert_fault: "idk_Insert newSHA1 now ctx k extra db = (e, db') \<Longrightarrow> db_fault db' = db_fault db"
  by (auto simp: idk_Insert_def idk_storage_Insert_def Let_def split: prod.splits sum.splits dest!: ExecContext_fault)

lemma profile_DeleteByID_ok:
  assumes "profile_DeleteByID ctx i db = (e, db')" and "e = None \<or> (\<exists>e'. e = Some e' \<and> error_is e' DomainErrUserProfileNotFound)"
    and "profile_honest_db db"
  shows "db_view (route_of ctx) db' = (db_view (route_of ctx) db)\<lparr>t_user_profile :=
    filter (\<lambda>r. pr_user_id r \<noteq> i) (t_user_profile (db_view (route_of ctx) db))\<rparr>"
proof -
  obtain q where q: "ExecContext ctx (profile_delete_stmt i) db = (q, db')"
    using assms(1) by (auto simp: profile_DeleteByID_def split: prod.splits sum.splits)
  have "\<not> error_is x DomainErrUserProfileNotFound" if "q = Inl x" for x
    using q that assms(3)
    by (auto simp: never_reports_def ExecContext_def run_exec_def call_defs profile_delete_stmt_def
        split: fault.splits if_splits sum.splits)
  then obtain n where "q = Inr n" using assms(1,2) q by (cases q) (auto simp: profile_DeleteByID_def)
  with ExecContext_ok [of ctx _ db n db'] q show ?thesis by (simp add: profile_delete_stmt_def)
qed

lemma handleUserDeletedImpl_ok:
  assumes run: "handleUserDeletedImpl s event ctx (db, x) = (Returns None, db', x')"
    and idk: "ps_idk_Insert s = idk_Insert newSHA1 now" and honest: "profile_honest_db db"
  shows "newSHA1 (pe_EventID event) ''handle_user_deleted'' \<notin> keys_seen ctx db
    \<and> db_view (route_of ctx) db' = event_handled newSHA1 now event (db_view (route_of ctx) db) \<and> x' = x"
proof -
  obtain e db1 where i: "idk_Insert newSHA1 now ctx (pe_EventID event) [''handle_user_deleted''] db = (e, db1)" by force
  obtain e2 db2 where d: "profile_DeleteByID ctx (pe_UserID event) db1 = (e2, db2)" by force
  have e: "e = None" "db2 = db'" "x' = x"
    "e2 = None \<or> (\<exists>e'. e2 = Some e' \<and> error_is e' DomainErrUserProfileNotFound)"
    using run idk i d by (auto simp: handleUserDeletedImpl_def split: option.splits if_splits)
  have "profile_honest_db db1" using honest idk_Insert_fault [OF i] by (simp add: never_reports_def)
  from profile_DeleteByID_ok [OF d e(4) this] idk_storage_Insert_row [OF i [unfolded e(1) idk_Insert_def]] e
  show ?thesis by (simp add: event_handled_def)
qed

definition reported_deleted :: "(sql_ctx \<Rightarrow> uuid \<Rightarrow> 'x \<Rightarrow> (go_error + profile_user_data) \<times> 'x) \<Rightarrow> sql_ctx \<Rightarrow> uuid \<Rightarrow> 'x \<Rightarrow> bool" where
  "reported_deleted userService ctx i x \<longleftrightarrow> (\<exists>u. fst (userService ctx i x) = Inr u \<and> pu_DeletedAt u \<noteq> None)"

lemma HandleUserDeleted_other:
  assumes "HandleUserDeleted (NewUserProfile userService newSHA1 now) ctx event (db, x) = (r, db', x')"
    and "\<not> reported_deleted userService ctx (pe_UserID event) x"
  shows "db' = db \<and> (\<exists>e. r = Returns e \<and> (\<forall>f. fst (userService ctx (pe_UserID event) x) = Inl f \<longrightarrow>
    (if error_is f AppErrUserNotFound then e = None else e = Some (errorf ''find user from userservice'' f))))"
  using assms by (auto simp: reported_deleted_def HandleUserDeleted_def NewUserProfile_def split: prod.splits sum.splits if_splits)

lemma HandleUserDeleted_tx:
  assumes "reported_deleted userService ctx (pe_UserID event) x"
  shows "\<exists>x1. HandleUserDeleted (NewUserProfile userService newSHA1 now) ctx event (db, x)
    = WithinContext (NewTransaction ''userProfile'' None) ctx (handleUserDeletedImpl (NewUserProfile userService newSHA1 now) event) [] (db, x1)"
proof -
  obtain u x1 where "userService ctx (pe_UserID event) x = (Inr u, x1)" "pu_DeletedAt u \<noteq> None"
    using assms unfolding reported_deleted_def by (metis prod.collapse)
  then show ?thesis by (auto simp: HandleUserDeleted_def NewUserProfile_def)
qed

lemma HandleUserDeleted_commit:
  assumes np: "cx_tx ctx = None" and honest: "profile_honest_db db"
    and run: "HandleUserDeleted (NewUserProfile userService newSHA1 now) ctx event (db, x) = (Returns e, db', x')"
    and gone: "reported_deleted userService ctx (pe_UserID event) x"
  defines "k \<equiv> newSHA1 (pe_EventID event) ''handle_user_deleted''"
    and "effect \<equiv> event_handled newSHA1 now event (db_tables db)"
  shows "(e = None \<longrightarrow> k \<notin> ir_key ` set (t_idempotency_key (db_tables db)) \<and> db_tables db' = effect)
    \<and> (e \<noteq> None \<longrightarrow> db_tables db' = db_tables db \<or> k \<notin> ir_key ` set (t_idempotency_key (db_tables db)) \<and> db_tables db' = effect)"
proof -
  let ?s = "NewUserProfile userService newSHA1 now" and ?t = "NewTransaction ''userProfile'' None :: 'a transaction"
  let ?fn = "handleUserDeletedImpl ?s event"
  obtain x1 where run': "WithinContext ?t ctx ?fn [] (db, x1) = (Returns e, db', x')"
    using HandleUserDeleted_tx [OF gone] run by metis
  have idk: "ps_idk_Insert ?s = idk_Insert newSHA1 now" by (simp add: NewUserProfile_def)
  have top: "\<not> has_parent_tx ?t ctx" using np by (simp add: has_parent_tx_def)
  have conf: "\<forall>tx. confined tx (?fn (within_tx ?t ctx tx))" by (simp add: handleUserDeleted_confined [OF _ idk])
  have "k \<notin> ir_key ` set (t_idempotency_key (db_tables db)) \<and> db_tables db' = effect"
    if saw: "fn_saw ?t ctx ?fn db x1 db2 x2" and t: "db_tables db' = db_view (ViaTx (db_next db)) db2" for db2 x2
  proof -
    obtain db1 where v: "db_view (ViaTx (db_next db)) db1 = db_tables db" "db_fault db1 = db_fault db"
      and f: "?fn (within_tx ?t ctx (db_next db)) (db1, x1) = (Returns None, db2, x2)"
      using saw by (auto simp: fn_saw_def)
    have "profile_honest_db db1" using honest v(2) by (simp add: never_reports_def)
    from handleUserDeletedImpl_ok [OF f idk this] v(1) t show ?thesis
      by (simp add: k_def effect_def keys_seen_def)
  qed
  with WithinContext_outcome [OF top conf run'] show ?thesis by blast
qed

text \<open>A refused key is one that is there.\<close>

lemma ExecContext_error:
  "ExecContext ctx st db = (Inl e, db') \<Longrightarrow> e = Sentinel SqlErrTxDone \<or> (\<exists>n. db_fault db n = LostRequest e \<or> db_fault db n = LostReply e)
    \<or> fst st (db_view (route_of ctx) db) = Inl e"
  by (auto simp: ExecContext_def run_exec_def call_defs split: fault.splits sum.splits if_splits)

lemma ExecContext_honest:
  assumes "ExecContext ctx st db = (Inl e, db')" and "never_reports t db" and "t \<noteq> SqlErrTxDone" and "\<And>v. \<exists>n. fst st v = Inr n"
  shows "\<not> error_is e t"
  using ExecContext_error [OF assms(1)] assms(2,3) assms(4) [of "db_view (route_of ctx) db"] by (auto simp: never_reports_def)

lemma handleUserDeletedImpl_refused:
  assumes run: "handleUserDeletedImpl s event ctx (db, x) = (Returns (Some e), db', x')"
    and idk: "ps_idk_Insert s = idk_Insert newSHA1 now" and honest: "never_reports ErrAlreadyInserted db" and e: "error_is e ErrAlreadyInserted"
  shows "newSHA1 (pe_EventID event) ''handle_user_deleted'' \<in> keys_seen ctx db"
proof -
  let ?key = "newSHA1 (pe_EventID event) ''handle_user_deleted''"
  let ?st = "idk_insert_stmt now ?key (pe_EventID event) (Some ''handle_user_deleted'')"
  obtain ei db1 where i: "idk_Insert newSHA1 now ctx (pe_EventID event) [''handle_user_deleted''] db = (ei, db1)" by force
  obtain ed db2 where d: "profile_DeleteByID ctx (pe_UserID event) db1 = (ed, db2)" by force
  obtain q db3 where q: "ExecContext ctx ?st db = (q, db3)" by force
  have total: "\<exists>n. fst ?st v = Inr n" "\<exists>n. fst (profile_delete_stmt i) v = Inr n" for v i
    by (simp_all add: idk_insert_stmt_def profile_delete_stmt_def)
  have h1: "never_reports ErrAlreadyInserted db1" using honest idk_Insert_fault [OF i] by (simp add: never_reports_def)
  have "\<not> error_is f ErrAlreadyInserted" if "ed = Some f" for f
    using d that ExecContext_honest [OF _ h1 _ total(2)] by (auto simp: profile_DeleteByID_def split: prod.splits sum.splits if_splits)
  then have "ei = Some e" using run i d idk e by (auto simp: handleUserDeletedImpl_def split: option.splits if_splits)
  with i q have "q = Inr 0 \<or> (\<exists>f. q = Inl f \<and> error_is f ErrAlreadyInserted)" using e
    by (auto simp: idk_Insert_def idk_storage_Insert_def Let_def split: sum.splits if_splits)
  with ExecContext_honest [OF _ honest _ total(1)] q have "q = Inr 0" by auto
  with ExecContext_ok [of ctx ?st db 0 db3] q show ?thesis by (auto simp: idk_insert_stmt_def keys_seen_def split: if_splits)
qed

lemma handleUserDeletedImpl_fault:
  assumes "handleUserDeletedImpl s event ctx (db, x) = (r, db', x')" and "ps_idk_Insert s = idk_Insert newSHA1 now"
  shows "db_fault db' = db_fault db"
  using assms
  by (auto simp: handleUserDeletedImpl_def profile_DeleteByID_def split: prod.splits option.splits sum.splits if_splits
      dest!: ExecContext_fault idk_Insert_fault)

lemma HandleUserDeleted_refused:
  assumes np: "cx_tx ctx = None" and honest: "never_reports ErrAlreadyInserted db"
    and run: "HandleUserDeleted (NewUserProfile userService newSHA1 now) ctx event (db, x) = (Returns (Some e), db', x')"
    and gone: "reported_deleted userService ctx (pe_UserID event) x" and e: "error_is e ErrAlreadyInserted"
  shows "newSHA1 (pe_EventID event) ''handle_user_deleted'' \<in> ir_key ` set (t_idempotency_key (db_tables db))"
proof -
  let ?s = "NewUserProfile userService newSHA1 now" and ?t = "NewTransaction ''userProfile'' None :: 'a transaction"
  let ?fn = "handleUserDeletedImpl ?s event" and ?c = "within_tx (NewTransaction ''userProfile'' None :: 'a transaction) ctx (db_next db)"
  obtain x1 where run': "WithinContext ?t ctx ?fn [] (db, x1) = (Returns (Some e), db', x')"
    using HandleUserDeleted_tx [OF gone] run by metis
  have top: "\<not> has_parent_tx ?t ctx" using np by (simp add: has_parent_tx_def)
  obtain b db0 where b: "begin_tx db = (b, db0)" by force
  show ?thesis
  proof (cases b)
    case (Inl f)
    then have "e = errorf ''start db transaction'' f" "\<exists>n. db_fault db n = LostRequest f \<or> db_fault db n = LostReply f"
      using run' top b by (auto simp: WithinContext_def begin_tx_def next_fault_def Let_def split: fault.splits)
    then show ?thesis using honest e by (auto simp: never_reports_def)
  next
    case (Inr tx)
    with begin_tx_ok [of db tx db0] b have tx: "tx = db_next db" "db_open db0 tx = Some []" "db_tables db0 = db_tables db" "db_fault db0 = db_fault db"
      by auto
    obtain r db1 x2 where f: "?fn ?c (db0, x1) = (r, db1, x2)" by (metis surj_pair)
    have idk: "ps_idk_Insert ?s = idk_Insert newSHA1 now" by (simp add: NewUserProfile_def)
    have h0: "never_reports ErrAlreadyInserted db0" using honest tx(4) by (simp add: never_reports_def)
    have view: "db_view (route_of ?c) db0 = db_tables db" using tx by (simp add: route_of_def db_view_def apply_log_def)
    have h1: "never_reports ErrAlreadyInserted db1" using h0 handleUserDeletedImpl_fault [OF f idk] by (simp add: never_reports_def)
    have "\<not> error_is y ErrAlreadyInserted" if "tx_Commit tx db1 = (Some y, db2)" for y db2
      using that h1 by (auto simp: tx_Commit_def next_fault_def db_emit_def Let_def never_reports_def split: fault.splits option.splits)
    then have "r = Returns (Some e)" using run' top b Inr f tx(1) e
      by (auto simp: WithinContext_def Let_def locks_then_def split: outcome.splits option.splits prod.splits)
    with f have "?fn ?c (db0, x1) = (Returns (Some e), db1, x2)" by simp
    from handleUserDeletedImpl_refused [OF this idk h0 e] view show ?thesis by (simp add: keys_seen_def)
  qed
qed

lemma WithinContext_fault:
  assumes "WithinContext t ctx fn [] (db, x) = (r, db', x')" and "\<And>c db x r db' x'. fn c (db, x) = (r, db', x') \<Longrightarrow> db_fault db' = db_fault db \<and> r \<noteq> Panics"
  shows "db_fault db' = db_fault db \<and> (\<exists>e. r = Returns e)"
  using assms(1)
  by (cases r) (auto simp: WithinContext_def locks_then_def begin_tx_def tx_Commit_def tx_Rollback_def next_fault_def db_emit_def Let_def
      split: outcome.splits option.splits prod.splits sum.splits fault.splits if_splits dest!: assms(2))

lemma HandleUserDeleted_returns:
  assumes "HandleUserDeleted (NewUserProfile userService newSHA1 now) ctx event (db, x) = (r, db', x')"
  shows "db_fault db' = db_fault db \<and> (\<exists>e. r = Returns e)"
proof (cases "reported_deleted userService ctx (pe_UserID event) x")
  case False
  with HandleUserDeleted_other [OF assms] show ?thesis by auto
next
  case True
  let ?s = "NewUserProfile userService newSHA1 now"
  have "db_fault db2 = db_fault db1 \<and> r1 \<noteq> Panics" if "handleUserDeletedImpl ?s event c (db1, x1) = (r1, db2, x2)" for c db1 x1 r1 db2 x2
    using that handleUserDeletedImpl_fault [OF that] by (auto simp: NewUserProfile_def handleUserDeletedImpl_def split: prod.splits option.splits if_splits)
  with HandleUserDeleted_tx [OF True] assms show ?thesis by (metis WithinContext_fault)
qed

text \<open>
  C9. A deleted user's event takes effect exactly once: in every outcome the tables are unchanged, or
  the user service reported the user deleted, the event's key was new, and the key was recorded and the
  profile removed in one commit.  A nil result means that, or that the user service does not know
  the user or knows it live.  Handling the event again while its key is there changes nothing and reports
  no success of the transaction.
\<close>

theorem user_deleted_event_exactly_once:
  assumes np: "cx_tx ctx = None" and honest: "profile_honest_db db"
    and run: "HandleUserDeleted (NewUserProfile userService newSHA1 now) ctx event (db, x) = (Returns e, db', x')"
  defines "k \<equiv> newSHA1 (pe_EventID event) ''handle_user_deleted''"
    and "effect \<equiv> event_handled newSHA1 now event (db_tables db)"
  defines "gone \<equiv> \<exists>u. fst (userService ctx (pe_UserID event) x) = Inr u \<and> pu_DeletedAt u \<noteq> None"
  shows "(db_tables db' = db_tables db \<or> gone \<and> k \<notin> ir_key ` set (t_idempotency_key (db_tables db)) \<and> db_tables db' = effect)
    \<and> (e = None \<and> gone \<longrightarrow> db_tables db' = effect)
    \<and> (k \<in> ir_key ` set (t_idempotency_key (db_tables db)) \<and> gone \<longrightarrow> e \<noteq> None \<and> db_tables db' = db_tables db)"
proof (cases gone)
  case False
  with HandleUserDeleted_other [OF run] have "db' = db" by (simp add: gone_def reported_deleted_def)
  with False show ?thesis by simp
next
  case True
  from HandleUserDeleted_commit [OF np honest run True [unfolded gone_def, folded reported_deleted_def]] True show ?thesis
    unfolding k_def effect_def by blast
qed

text \<open>An example: a user service that knows every user as deleted, a profile and its event.\<close>

definition all_deleted :: "sql_ctx \<Rightarrow> uuid \<Rightarrow> nat \<Rightarrow> (go_error + profile_user_data) \<times> nat" where
  "all_deleted ctx i n = (Inr \<lparr>pu_ID = i, pu_DeletedAt = Some 5\<rparr>, Suc n)"

definition example_deleted_event :: profile_event_user_deleted where
  "example_deleted_event = \<lparr>pe_EventID = 3, pe_UserID = 1\<rparr>"

abbreviation profile_tables :: tables where
  "profile_tables \<equiv> empty_tables\<lparr>t_user_profile := [example_profile]\<rparr>"

lemma example_handled:
  "let (r, db', n) = HandleUserDeleted (NewUserProfile all_deleted example_sha1 9) background example_deleted_event
      (calm_db profile_tables, 0)
   in r = Returns None"
  by code_simp

theorem user_deleted_event_exactly_once_witness:
  "\<exists>db' n. HandleUserDeleted (NewUserProfile all_deleted example_sha1 9) background example_deleted_event
      (calm_db profile_tables, 0) = (Returns None, db', n)
    \<and> t_user_profile (db_tables db') = [] \<and> length (t_idempotency_key (db_tables db')) = 1"
proof -
  obtain r db' n where run: "HandleUserDeleted (NewUserProfile all_deleted example_sha1 9) background example_deleted_event
      (calm_db profile_tables, 0) = (r, db', n)" by (metis surj_pair)
  with example_handled have r: "r = Returns None" by auto
  have "cx_tx background = None" "profile_honest_db (calm_db profile_tables)"
    by (simp_all add: background_def never_reports_def calm_db_def)
  from user_deleted_event_exactly_once [OF this run [unfolded r]]
  have "db_tables db' = event_handled example_sha1 9 example_deleted_event profile_tables"
    by (auto simp: all_deleted_def calm_db_def)
  with run r show ?thesis
    by (auto simp: event_handled_def empty_tables_def example_profile_def example_deleted_event_def)
qed

section \<open>Updating a profile\<close>

definition profiles_ok :: "profile_row list \<Rightarrow> bool" where
  "profiles_ok rows \<longleftrightarrow> distinct (map pr_user_id rows)"

lemma profiles_ok_upsert:
  assumes "profiles_ok rows"
  shows "profiles_ok (upsert_profile r rows)"
proof (cases "pr_user_id r \<in> pr_user_id ` set rows")
  case True
  have "map pr_user_id (map (\<lambda>x. if pr_user_id x = pr_user_id r then r else x) rows) = map pr_user_id rows" by auto
  with True assms show ?thesis by (simp only: profiles_ok_def upsert_profile_def if_True)
next
  case False
  with assms show ?thesis by (simp add: profiles_ok_def upsert_profile_def)
qed

lemma upsert_profile_lookup:
  assumes "profiles_ok rows"
  shows "filter (\<lambda>x. pr_user_id x = i) (upsert_profile r rows)
    = (if i = pr_user_id r then [r] else filter (\<lambda>x. pr_user_id x = i) rows)"
proof -
  let ?f = "\<lambda>x. if pr_user_id x = pr_user_id r then r else x"
  have none: "i \<notin> pr_user_id ` set xs \<Longrightarrow> filter (\<lambda>x. pr_user_id x = i) xs = []" for xs
    by (auto simp: filter_empty_conv)
  have other: "i \<noteq> pr_user_id r \<Longrightarrow> filter (\<lambda>x. pr_user_id x = i) (map ?f xs) = filter (\<lambda>x. pr_user_id x = i) xs" for xs
    by (induction xs) simp_all
  have own: "i = pr_user_id r \<Longrightarrow> distinct (map pr_user_id xs) \<Longrightarrow>
      filter (\<lambda>x. pr_user_id x = i) (map ?f xs) = (if i \<in> pr_user_id ` set xs then [r] else [])" for xs
  proof (induction xs)
    case Nil
    then show ?case by simp
  next
    case (Cons a xs)
    then show ?case by (cases "pr_user_id a = i") auto
  qed
  show ?thesis
  proof (cases "i = pr_user_id r")
    case True
    with own [of rows] none [of rows] assms show ?thesis by (auto simp: upsert_profile_def profiles_ok_def)
  next
    case False
    with other [of rows] show ?thesis by (auto simp: upsert_profile_def)
  qed
qed

abbreviation profiles_seen :: "sql_ctx \<Rightarrow> dbms \<Rightarrow> profile_row list" where
  "profiles_seen ctx db \<equiv> t_user_profile (db_view (route_of ctx) db)"

lemma profile_Store_ok:
  "profile_Store ctx p db = (None, db') \<Longrightarrow>
   db_view (route_of ctx) db' = (db_view (route_of ctx) db)\<lparr>t_user_profile := upsert_profile (profile_row_of p) (profiles_seen ctx db)\<rparr>"
  by (auto simp: profile_Store_def split: prod.splits sum.splits dest!: ExecContext_ok)

lemma profile_Store_view:
  "profile_Store ctx p db = (e, db') \<Longrightarrow> db_view (route_of ctx) db' = db_view (route_of ctx) db
   \<or> db_view (route_of ctx) db' = (db_view (route_of ctx) db)\<lparr>t_user_profile := upsert_profile (profile_row_of p) (profiles_seen ctx db)\<rparr>"
  by (auto simp: profile_Store_def split: prod.splits sum.splits dest!: ExecContext_view)

lemma profile_FindByID_ok:
  assumes "profile_FindByID ctx i db = (Inr p, db')"
  shows "\<exists>rest. filter (\<lambda>r. pr_user_id r = i) (profiles_seen ctx db) = profile_row_of p # rest"
proof -
  obtain row where g: "GetContext ctx (\<lambda>t. filter (\<lambda>r. pr_user_id r = i) (t_user_profile t)) db = (Inr row, db')"
    and p: "profile_row_of p = row"
    using assms by (auto simp: profile_FindByID_def profile_row_of_def split: prod.splits sum.splits if_splits)
  from GetContext_ok [OF g] p show ?thesis by simp
qed

text \<open>
  C28. \<^verbatim>\<open>Update\<close> keeps one profile per user and, in every outcome, every other user's profile.  It succeeds
  only for a principal that may update the profile, for names that are not blank and a user the user
  service knows as live, and then \<^verbatim>\<open>FindByID\<close> through the same context gives back exactly the names
  passed in, not trimmed.
\<close>

theorem profile_update_then_find:
  assumes ok: "profiles_ok (profiles_seen ctx db)"
    and run: "userProfile_Update s ctx data (db, x) = (e, db', x')"
  shows "profiles_ok (profiles_seen ctx db')
    \<and> (\<forall>i. i \<noteq> up_ID data \<longrightarrow> filter (\<lambda>r. pr_user_id r = i) (profiles_seen ctx db') = filter (\<lambda>r. pr_user_id r = i) (profiles_seen ctx db))
    \<and> (e = None \<longrightarrow>
         permission_Check (cx_auth ctx) (CanUpdateUserProfile (up_ID data)) = None
         \<and> trim_space (up_FirstName data) \<noteq> [] \<and> trim_space (up_LastName data) \<noteq> []
         \<and> (\<exists>u. fst (ps_userService_Get s ctx (up_ID data) x) = Inr u \<and> pu_DeletedAt u = None)
         \<and> (\<forall>p db2. profile_FindByID ctx (up_ID data) db' = (Inr p, db2) \<longrightarrow> p = data))"
proof -
  have view: "db_view (route_of ctx) db' = db_view (route_of ctx) db
      \<or> db_view (route_of ctx) db' = (db_view (route_of ctx) db)\<lparr>t_user_profile := upsert_profile (profile_row_of data) (profiles_seen ctx db)\<rparr>"
    and succ: "e = None \<Longrightarrow> profile_Store ctx data db = (None, db')
         \<and> permission_Check (cx_auth ctx) (CanUpdateUserProfile (up_ID data)) = None
         \<and> trim_space (up_FirstName data) \<noteq> [] \<and> trim_space (up_LastName data) \<noteq> []
         \<and> (\<exists>u. fst (ps_userService_Get s ctx (up_ID data) x) = Inr u \<and> pu_DeletedAt u = None)"
    using run by (auto simp: userProfile_Update_def split: option.splits if_splits prod.splits sum.splits dest!: profile_Store_view)
  have id: "pr_user_id (profile_row_of data) = up_ID data" by (simp add: profile_row_of_def)
  have found: "p = data"
    if none: "e = None" and find: "profile_FindByID ctx (up_ID data) db' = (Inr p, db2)" for p db2
  proof -
    have v: "db_view (route_of ctx) db' = (db_view (route_of ctx) db)\<lparr>t_user_profile := upsert_profile (profile_row_of data) (profiles_seen ctx db)\<rparr>"
      using succ [OF none] profile_Store_ok by blast
    obtain rest where "filter (\<lambda>r. pr_user_id r = up_ID data) (profiles_seen ctx db') = profile_row_of p # rest"
      using profile_FindByID_ok [OF find] by blast
    moreover have "filter (\<lambda>r. pr_user_id r = up_ID data) (profiles_seen ctx db') = [profile_row_of data]"
      using upsert_profile_lookup [OF ok, of "up_ID data" "profile_row_of data"] by (simp add: v id)
    ultimately have "profile_row_of p = profile_row_of data" by simp
    then show "p = data" by (simp add: profile_row_of_def)
  qed
  have "profiles_ok (profiles_seen ctx db')"
    using view ok profiles_ok_upsert [OF ok] by auto
  moreover have "\<forall>i. i \<noteq> up_ID data \<longrightarrow> filter (\<lambda>r. pr_user_id r = i) (profiles_seen ctx db') = filter (\<lambda>r. pr_user_id r = i) (profiles_seen ctx db)"
    using view upsert_profile_lookup [OF ok, of _ "profile_row_of data"] id by auto
  ultimately show ?thesis using succ found by blast
qed

definition all_live :: "sql_ctx \<Rightarrow> uuid \<Rightarrow> nat \<Rightarrow> (go_error + profile_user_data) \<times> nat" where
  "all_live ctx i n = (Inr \<lparr>pu_ID = i, pu_DeletedAt = None\<rparr>, Suc n)"

definition example_update :: user_profile where
  "example_update = \<lparr>up_ID = 1, up_FirstName = '' Ann'', up_LastName = ''Lee''\<rparr>"

definition as_admin :: sql_ctx where
  "as_admin = background\<lparr>cx_auth := Some (Some \<lparr>p_UserID = None, p_AdminUserID = Some ''root'', p_ServiceName = None\<rparr>)\<rparr>"

definition updated :: "err \<times> nat world" where
  "updated = userProfile_Update (NewUserProfile all_live example_sha1 9) as_admin example_update (calm_db profile_tables, 0)"

lemma example_updates: "fst updated = None \<and> (case fst (profile_FindByID as_admin 1 (fst (snd updated))) of Inl _ \<Rightarrow> False | Inr _ \<Rightarrow> True)"
  by code_simp

theorem profile_update_then_find_witness:
  "fst updated = None \<and> fst (profile_FindByID as_admin 1 (fst (snd updated))) = Inr example_update"
proof -
  obtain e db' x' where u: "updated = (e, db', x')" by (metis surj_pair)
  obtain f db2 where f: "profile_FindByID as_admin 1 db' = (f, db2)" by force
  have e: "e = None" and p: "\<exists>p. f = Inr p" using example_updates unfolding u fst_conv snd_conv f by (auto split: sum.splits)
  have ok: "profiles_ok (profiles_seen as_admin (calm_db profile_tables))"
    by (simp add: profiles_ok_def as_admin_def background_def route_of_def db_view_def calm_db_def)
  have id: "up_ID example_update = 1" by (simp add: example_update_def)
  obtain p where p': "f = Inr p" using p by blast
  have "p = example_update"
    using profile_update_then_find [OF ok u [unfolded updated_def]] e f p' unfolding id by blast
  with e p' show ?thesis unfolding u fst_conv snd_conv f by blast
qed

end
