(* ===== verification/User_Service.thy ===== *)
theory User_Service
  imports Bus_Producer Idempotency
begin

text \<open>
  The user domain, \<^verbatim>\<open>internal/user\<close>: aggregate, repository and user service.

  The password encoder is an interface of the application and an argument (\<open>user_service\<close>).  The environment gives \<^verbatim>\<open>uuid.New\<close> and \<^verbatim>\<open>time.Now\<close> their values.  The
  generated converters copy fields of equal names, which the repository's functions here do directly.
  A row lock asked for through the context changes no result in a model without concurrent writers.
\<close>

section \<open>Environment\<close>

record env =
  en_uuids :: "nat \<Rightarrow> uuid"
  en_used :: nat
  en_clock :: "nat \<Rightarrow> time"
  en_ticks :: nat
  en_obs :: "obs list"

definition uuid_New :: "env \<Rightarrow> uuid \<times> env" where
  "uuid_New x = (en_uuids x (en_used x), x\<lparr>en_used := Suc (en_used x)\<rparr>)"

definition time_Now :: "env \<Rightarrow> time \<times> env" where
  "time_Now x = (en_clock x (en_ticks x), x\<lparr>en_ticks := Suc (en_ticks x)\<rparr>)"

section \<open>Domain\<close>

record user =
  u_ID :: uuid
  u_Login :: string
  u_PasswordHash :: string
  u_DeletedAt :: "time option"
  u_Changes :: "structured_message list"

definition EventUserDeleted :: "uuid \<Rightarrow> uuid \<Rightarrow> structured_message" where
  "EventUserDeleted eventID userID =
     \<lparr>sm_goType = ''domain.EventUserDeleted'', sm_ID = eventID, sm_Type = ''user.deleted'',
      sm_AggregateID = userID, sm_Content = []\<rparr>"

definition SetDeletedAt :: "time \<Rightarrow> user \<Rightarrow> env \<Rightarrow> user \<times> env" where
  "SetDeletedAt t u x =
     (let (eid, x') = uuid_New x
      in (u\<lparr>u_DeletedAt := Some t, u_Changes := u_Changes u @ [EventUserDeleted eid (u_ID u)]\<rparr>, x'))"

record find_user_spec =
  fs_IDs :: "uuid list"
  fs_Logins :: "string list"

section \<open>Repository\<close>

text \<open>\<^verbatim>\<open>eventDispatcher.Dispatch\<close> of the bus over this world.\<close>

definition dispatch_events ::
    "dbms bus_producer \<Rightarrow> sql_ctx \<Rightarrow> structured_message list \<Rightarrow> (env, err) action" where
  "dispatch_events bus ctx evs w =
     (let (db, x) = w;
          (e, bw) = eventDispatcher_Dispatch bus ctx evs
             \<lparr>bw_state = db, bw_obs = en_obs x, bw_clock = en_clock x, bw_ticks = en_ticks x\<rparr>
      in (e, bw_state bw, x\<lparr>en_obs := bw_obs bw, en_ticks := bw_ticks bw\<rparr>))"

text \<open>
  The upsert: a row with the identifier is replaced, another row with the login violates the unique
  constraint.
\<close>

definition unique_violation :: go_error where
  "unique_violation = Sentinel (Opaque 23505)"

definition user_row_of :: "user \<Rightarrow> user_row" where
  "user_row_of u = \<lparr>ur_id = u_ID u, ur_login = u_Login u, ur_password_hash = u_PasswordHash u,
     ur_deleted_at = u_DeletedAt u\<rparr>"

definition user_of_row :: "user_row \<Rightarrow> user" where
  "user_of_row r = \<lparr>u_ID = ur_id r, u_Login = ur_login r, u_PasswordHash = ur_password_hash r,
     u_DeletedAt = ur_deleted_at r, u_Changes = []\<rparr>"

definition upsert_user :: "user_row \<Rightarrow> user_row list \<Rightarrow> user_row list" where
  "upsert_user r rows =
     (if ur_id r \<in> ur_id ` set rows then map (\<lambda>x. if ur_id x = ur_id r then r else x) rows
      else rows @ [r])"

definition store_user_stmt :: "user_row \<Rightarrow> stmt" where
  "store_user_stmt r =
     (\<lambda>t. if \<exists>x \<in> set (t_user t). ur_login x = ur_login r \<and> ur_id x \<noteq> ur_id r then Inl unique_violation else Inr 1,
      \<lambda>t. t\<lparr>t_user := upsert_user r (t_user t)\<rparr>)"

definition userRepository_Store :: "dbms bus_producer \<Rightarrow> sql_ctx \<Rightarrow> user \<Rightarrow> (env, err) action" where
  "userRepository_Store bus ctx u w =
     (case dispatch_events bus ctx (u_Changes u) w of
        (Some e, w1) \<Rightarrow> (Some (errorf ''dispatch events'' e), w1)
      | (None, db, x) \<Rightarrow>
          (case ExecContext ctx (store_user_stmt (user_row_of u)) db of
             (Inl e, db') \<Rightarrow> (Some e, db', x)
           | (Inr _, db') \<Rightarrow> (None, db', x)))"

definition userRepository_NextID :: "env \<Rightarrow> uuid \<times> env" where
  "userRepository_NextID = uuid_New"

definition user_matches :: "find_user_spec \<Rightarrow> user_row \<Rightarrow> bool" where
  "user_matches spec r \<longleftrightarrow>
     (fs_IDs spec = [] \<or> ur_id r \<in> set (fs_IDs spec)) \<and> (fs_Logins spec = [] \<or> ur_login r \<in> set (fs_Logins spec))"

definition userRepository_Find :: "sql_ctx \<Rightarrow> find_user_spec \<Rightarrow> dbms \<Rightarrow> (go_error + user list) \<times> dbms" where
  "userRepository_Find ctx spec db =
     (case SelectContext ctx (\<lambda>t. filter (user_matches spec) (t_user t)) db of
        (Inl e, db') \<Rightarrow> (Inl e, db')
      | (Inr rows, db') \<Rightarrow> (Inr (map user_of_row rows), db'))"

definition userRepository_FindOne :: "sql_ctx \<Rightarrow> find_user_spec \<Rightarrow> dbms \<Rightarrow> (go_error + user) \<times> dbms" where
  "userRepository_FindOne ctx spec db =
     (case GetContext ctx (\<lambda>t. take 1 (filter (user_matches spec) (t_user t))) db of
        (Inl e, db') \<Rightarrow>
          (if errors_is (Some e) (Some SqlErrNoRows) then (Inl (Sentinel DomainErrUserNotFound), db') else (Inl e, db'))
      | (Inr row, db') \<Rightarrow> (Inr (user_of_row row), db'))"

section \<open>User service\<close>

record user_service =
  us_HashPassword :: "string \<Rightarrow> go_error + string"
  us_bus :: "dbms bus_producer"
  us_transaction :: "env transaction"

record user_data =
  ud_ID :: uuid
  ud_Login :: string
  ud_DeletedAt :: "time option"

definition ToDTOUserData :: "user \<Rightarrow> user_data" where
  "ToDTOUserData u = \<lparr>ud_ID = u_ID u, ud_Login = u_Login u, ud_DeletedAt = u_DeletedAt u\<rparr>"

definition updateUsersLock :: persistence_lock where
  "updateUsersLock = \<lparr>lk_Key = ''update_users'', lk_Shared = False\<rparr>"

definition user_GetByID :: "sql_ctx \<Rightarrow> uuid \<Rightarrow> dbms \<Rightarrow> (go_error + user_data) \<times> dbms" where
  "user_GetByID ctx i db =
     (case permission_Check (cx_auth ctx) (CanReadUser i) of
        Some e \<Rightarrow> (Inl e, db)
      | None \<Rightarrow>
          (case userRepository_FindOne ctx \<lparr>fs_IDs = [i], fs_Logins = []\<rparr> db of
             (Inl e, db') \<Rightarrow>
               (if errors_is (Some e) (Some DomainErrUserNotFound) then (Inl (Sentinel ServiceErrUserNotFound), db')
                else (Inl e, db'))
           | (Inr u, db') \<Rightarrow> (Inr (ToDTOUserData u), db')))"

definition user_GetByIDs :: "sql_ctx \<Rightarrow> uuid list \<Rightarrow> dbms \<Rightarrow> (go_error + user_data list) \<times> dbms" where
  "user_GetByIDs ctx userIDs db =
     (if userIDs = [] then (Inr [], db)
      else case FilterByPermissions (cx_auth ctx) (CanReadUserFilter userIDs) of
             Inl e \<Rightarrow> (Inl e, db)
           | Inr ids \<Rightarrow>
               if ids = [] then (Inr [], db)
               else (case userRepository_Find ctx \<lparr>fs_IDs = ids, fs_Logins = []\<rparr> db of
                       (Inl e, db') \<Rightarrow> (Inl (errorf ''find users by ids'' e), db')
                     | (Inr us, db') \<Rightarrow> (Inr (map ToDTOUserData us), db')))"

definition registerUserImpl ::
    "user_service \<Rightarrow> string \<Rightarrow> string \<Rightarrow> sql_ctx \<Rightarrow> (env, (uuid \<times> err) outcome) action" where
  "registerUserImpl s login passwordHash ctx w =
     (case userRepository_FindOne ctx \<lparr>fs_IDs = [], fs_Logins = [login]\<rparr> (fst w) of
        (Inl e, db) \<Rightarrow>
          if errors_is (Some e) (Some DomainErrUserNotFound)
          then let (userID, x) = userRepository_NextID (snd w)
               in (case userRepository_Store (us_bus s) ctx \<lparr>u_ID = userID, u_Login = login,
                       u_PasswordHash = passwordHash, u_DeletedAt = None, u_Changes = []\<rparr> (db, x) of
                     (Some e, w') \<Rightarrow> (Returns (uuid_nil, Some (errorf ''store user'' e)), w')
                   | (None, w') \<Rightarrow> (Returns (userID, None), w'))
          else (Returns (uuid_nil, Some (errorf ''find user by login'' e)), db, snd w)
      | (Inr u, db) \<Rightarrow>
          if u_DeletedAt u \<noteq> None then (Returns (uuid_nil, Some (Sentinel ErrUserIsAlreadyDeleted)), db, snd w)
          else if u_PasswordHash u \<noteq> passwordHash
          then (Returns (uuid_nil, Some (Sentinel ErrUserAlreadyExists)), db, snd w)
          else (Returns (u_ID u, None), db, snd w))"

definition user_Register ::
    "user_service \<Rightarrow> sql_ctx \<Rightarrow> string \<Rightarrow> string \<Rightarrow> (env, (uuid \<times> err) outcome) action" where
  "user_Register s ctx credLogin credPassword w =
     (let login = trim_space credLogin;
          password = trim_space credPassword
      in if login = [] \<or> password = [] then (Returns (uuid_nil, Some (Sentinel ErrInvalidUserCredentials)), w)
         else case us_HashPassword s password of
                Inl e \<Rightarrow> (Returns (uuid_nil, Some (errorf ''hash password'' e)), w)
              | Inr passwordHash \<Rightarrow>
                  WithinTransactionWithResult (us_transaction s) ctx uuid_nil
                    (registerUserImpl s (to_lower login) passwordHash) [updateUsersLock] w)"

definition deleteUserImpl :: "user_service \<Rightarrow> uuid \<Rightarrow> sql_ctx \<Rightarrow> (env, err outcome) action" where
  "deleteUserImpl s userID ctx w =
     (case userRepository_FindOne (LockUpdate (us_transaction s) ctx True []) \<lparr>fs_IDs = [userID], fs_Logins = []\<rparr> (fst w) of
        (Inl e, db) \<Rightarrow>
          (if errors_is (Some e) (Some DomainErrUserNotFound) then (Returns None, db, snd w)
           else (Returns (Some (errorf ''find user by id'' e)), db, snd w))
      | (Inr u, db) \<Rightarrow>
          if u_DeletedAt u \<noteq> None then (Returns None, db, snd w)
          else let (now, x1) = time_Now (snd w);
                   (u', x2) = SetDeletedAt now u x1
               in (case userRepository_Store (us_bus s) ctx u' (db, x2) of
                     (Some e, w') \<Rightarrow> (Returns (Some (errorf ''store user'' e)), w')
                   | (None, w') \<Rightarrow> (Returns None, w')))"

definition user_Delete :: "user_service \<Rightarrow> sql_ctx \<Rightarrow> uuid \<Rightarrow> (env, err outcome) action" where
  "user_Delete s ctx userID w =
     (case permission_Check (cx_auth ctx) (CanDeleteUser userID) of
        Some e \<Rightarrow> (Returns (Some e), w)
      | None \<Rightarrow> WithinContext (us_transaction s) ctx (deleteUserImpl s userID) [] w)"

section \<open>Facts about the repository\<close>

abbreviation users_seen :: "sql_ctx \<Rightarrow> dbms \<Rightarrow> user_row list" where
  "users_seen ctx db \<equiv> t_user (db_view (route_of ctx) db)"

definition users_ok :: "user_row list \<Rightarrow> bool" where
  "users_ok rows \<longleftrightarrow> distinct (map ur_id rows) \<and> distinct (map ur_login rows)"

lemma FindOne_view:
  "userRepository_FindOne ctx spec db = (r, db') \<Longrightarrow> db_view (route_of ctx) db' = db_view (route_of ctx) db"
  by (auto simp: userRepository_FindOne_def split: prod.splits sum.splits if_splits dest!: GetContext_view)

lemma FindOne_stays: "userRepository_FindOne ctx spec db = (r, db') \<Longrightarrow> tx_stays tx db db'"
  by (auto simp: userRepository_FindOne_def split: prod.splits sum.splits if_splits dest!: tx_stays_GetContext)

lemma FindOne_ok:
  assumes "userRepository_FindOne ctx spec db = (Inr u, db')"
  shows "\<exists>r \<in> set (users_seen ctx db). user_matches spec r \<and> u = user_of_row r"
proof -
  obtain r where g: "GetContext ctx (\<lambda>t. take 1 (filter (user_matches spec) (t_user t))) db = (Inr r, db')"
    and u: "u = user_of_row r"
    using assms by (auto simp: userRepository_FindOne_def split: prod.splits sum.splits if_splits)
  from GetContext_ok [OF g] obtain xs where "take 1 (filter (user_matches spec) (users_seen ctx db)) = r # xs" by blast
  then have "r \<in> set (filter (user_matches spec) (users_seen ctx db))" by (metis in_set_takeD list.set_intros(1))
  with u show ?thesis by auto
qed

text \<open>The errors of the connection are not those with a meaning for the repository.\<close>

definition honest_db :: "dbms \<Rightarrow> bool" where
  "honest_db db \<longleftrightarrow> (\<forall>n e. db_fault db n = LostRequest e \<or> db_fault db n = LostReply e \<longrightarrow>
     \<not> error_is e SqlErrNoRows \<and> \<not> error_is e DomainErrUserNotFound)"

lemma FindOne_missing:
  assumes "userRepository_FindOne ctx spec db = (Inl e, db')" and "error_is e DomainErrUserNotFound" and "honest_db db"
  shows "filter (user_matches spec) (users_seen ctx db) = []"
  using assms
  by (auto simp: userRepository_FindOne_def GetContext_def run_select_def call_defs honest_db_def
      split: prod.splits sum.splits if_splits list.splits fault.splits)

text \<open>Against a server without faults, outside a transaction.\<close>

lemma FindOne_calm:
  assumes "\<forall>n. db_fault db n = NoFault" and "cx_tx ctx = None"
  shows "fst (userRepository_FindOne ctx spec db) =
    (case filter (user_matches spec) (t_user (db_tables db)) of
       [] \<Rightarrow> Inl (Sentinel DomainErrUserNotFound) | r # _ \<Rightarrow> Inr (user_of_row r))"
proof -
  have "\<not> tx_done (route_of ctx) d" for d using route_no_tx [OF assms(2)] by (auto simp: tx_done_def)
  moreover have "db_view (route_of ctx) d = db_tables d" for d using db_view_no_tx [OF assms(2)] .
  ultimately show ?thesis using assms(1)
    by (auto simp: userRepository_FindOne_def GetContext_def run_select_def call_defs split: list.splits)
qed

lemma users_ok_same:
  assumes "users_ok rows" and "r \<in> set rows" and "r' \<in> set rows"
  shows "ur_login r = ur_login r' \<Longrightarrow> r = r'" and "ur_id r = ur_id r' \<Longrightarrow> r = r'"
  using assms inj_onD [of ur_login "set rows" r r'] inj_onD [of ur_id "set rows" r r']
  by (auto simp: users_ok_def distinct_map)

lemma upsert_in: "r \<in> set (upsert_user r rows)"
  by (auto simp: upsert_user_def image_iff)

lemma users_ok_upsert:
  assumes "users_ok rows" and "\<forall>x \<in> set rows. ur_login x = ur_login r \<longrightarrow> ur_id x = ur_id r"
  shows "users_ok (upsert_user r rows)"
proof (cases "ur_id r \<in> ur_id ` set rows")
  case False
  have "ur_login r \<notin> ur_login ` set rows"
  proof
    assume "ur_login r \<in> ur_login ` set rows"
    then obtain y where y: "y \<in> set rows" "ur_login y = ur_login r" by auto
    with assms(2) have "ur_id r = ur_id y" by simp
    with y False show False by simp
  qed
  with False assms(1) show ?thesis by (simp add: upsert_user_def users_ok_def)
next
  case True
  let ?f = "\<lambda>x. if ur_id x = ur_id r then r else x"
  have ids: "map ur_id (map ?f rows) = map ur_id rows" by auto
  have inj: "distinct rows" "inj_on ur_id (set rows)" "inj_on ur_login (set rows)"
    using assms(1) by (auto simp: users_ok_def distinct_map)
  have "inj_on (\<lambda>x. ur_login (?f x)) (set rows)"
  proof (rule inj_onI)
    fix x y assume xy: "x \<in> set rows" "y \<in> set rows" "ur_login (?f x) = ur_login (?f y)"
    show "x = y"
    proof (cases "ur_id x = ur_id y")
      case True
      with xy inj(2) show ?thesis by (auto dest: inj_onD)
    next
      case False
      with xy assms(2) have "ur_login x = ur_login y" by (auto split: if_splits)
      with xy inj(3) show ?thesis by (auto dest: inj_onD)
    qed
  qed
  then have "distinct (map ur_login (map ?f rows))" using inj(1) by (simp add: distinct_map comp_def)
  moreover have "distinct (map ur_id (map ?f rows))" unfolding ids using assms(1) by (simp add: users_ok_def)
  ultimately show ?thesis using True by (simp add: upsert_user_def users_ok_def)
qed

section \<open>Registration\<close>

lemma Store_no_changes:
  "u_Changes u = [] \<Longrightarrow> userRepository_Store bus ctx u (db, x) =
    (case ExecContext ctx (store_user_stmt (user_row_of u)) db of
       (Inl e, db') \<Rightarrow> (Some e, db', x) | (Inr _, db') \<Rightarrow> (None, db', x))"
  by (simp add: userRepository_Store_def dispatch_events_def eventDispatcher_Dispatch_def)

lemma store_user_ok:
  assumes "ExecContext ctx (store_user_stmt r) db = (Inr n, db')"
  shows "(\<forall>y \<in> set (users_seen ctx db). ur_login y = ur_login r \<longrightarrow> ur_id y = ur_id r)
    \<and> db_view (route_of ctx) db' = (db_view (route_of ctx) db)\<lparr>t_user := upsert_user r (users_seen ctx db)\<rparr>"
  using ExecContext_ok [OF assms] by (auto simp: store_user_stmt_def split: if_splits)

lemma register_confined:
  assumes "route_of ctx = ViaTx tx"
  shows "confined tx (registerUserImpl s login h ctx)"
  unfolding confined_def
proof
  fix w :: "env world"
  obtain db x where w: "w = (db, x)" by (cases w)
  obtain f db1 where f: "userRepository_FindOne ctx \<lparr>fs_IDs = [], fs_Logins = [login]\<rparr> db = (f, db1)" by force
  let ?r = "user_row_of \<lparr>u_ID = fst (uuid_New x), u_Login = login, u_PasswordHash = h, u_DeletedAt = None, u_Changes = []\<rparr>"
  obtain q db2 where q: "ExecContext ctx (store_user_stmt ?r) db1 = (q, db2)" by force
  have "tx_stays tx db db1" "tx_stays tx db1 db2"
    using FindOne_stays [OF f] tx_stays_ExecContext [OF q assms] by auto
  then show "tx_stays tx (fst w) (fst (snd (registerUserImpl s login h ctx w)))"
    using f q tx_stays_trans [of tx db db1 db2]
    by (auto simp: w registerUserImpl_def Store_no_changes userRepository_NextID_def Let_def
        split: sum.splits prod.splits if_splits)
qed

text \<open>The row a successful registration stands for.\<close>

definition registered :: "uuid \<Rightarrow> string \<Rightarrow> string \<Rightarrow> user_row" where
  "registered i login h = \<lparr>ur_id = i, ur_login = login, ur_password_hash = h, ur_deleted_at = None\<rparr>"

lemma registerUserImpl_ok:
  assumes "registerUserImpl s login h ctx (db, x) = (Returns (i, None), db', x')"
    and "fst (uuid_New x) \<notin> ur_id ` set (users_seen ctx db)"
  shows "\<exists>new. db_view (route_of ctx) db' = (db_view (route_of ctx) db)\<lparr>t_user := users_seen ctx db @ new\<rparr>
    \<and> registered i login h \<in> set (users_seen ctx db @ new)
    \<and> (new = [] \<or> new = [registered i login h] \<and> login \<notin> ur_login ` set (users_seen ctx db)
        \<and> i = fst (uuid_New x))"
proof -
  obtain f db1 where f: "userRepository_FindOne ctx \<lparr>fs_IDs = [], fs_Logins = [login]\<rparr> db = (f, db1)" by force
  note v = FindOne_view [OF f]
  show ?thesis
  proof (cases f)
    case (Inr u)
    then have u: "u_DeletedAt u = None" "u_PasswordHash u = h" "i = u_ID u" "db' = db1"
      using assms(1) f by (auto simp: registerUserImpl_def split: if_splits)
    obtain r where r: "r \<in> set (users_seen ctx db)" "ur_login r = login" "u = user_of_row r"
      using FindOne_ok [OF f [unfolded Inr]] by (auto simp: user_matches_def)
    with u have "r = registered i login h" by (simp add: user_of_row_def registered_def)
    with r(1) have "registered i login h \<in> set (users_seen ctx db)" by simp
    moreover have "db_view (route_of ctx) db' = db_view (route_of ctx) db" using u(4) v by simp
    ultimately show ?thesis by (intro exI [of _ "[]"]) simp
  next
    case (Inl e)
    let ?u = "\<lparr>u_ID = fst (uuid_New x), u_Login = login, u_PasswordHash = h, u_DeletedAt = None, u_Changes = []\<rparr>"
    have row: "user_row_of ?u = registered (fst (uuid_New x)) login h" by (simp add: user_row_of_def registered_def)
    obtain n where n: "ExecContext ctx (store_user_stmt (registered (fst (uuid_New x)) login h)) db1 = (Inr n, db')"
      and i: "i = fst (uuid_New x)"
      using assms(1) f Inl row
      by (auto simp: registerUserImpl_def Store_no_changes userRepository_NextID_def Let_def
          split: sum.splits prod.splits if_splits)
    from store_user_ok [OF n] v i
    have uniq: "\<forall>y \<in> set (users_seen ctx db). ur_login y = login \<longrightarrow> ur_id y = i"
      and view: "db_view (route_of ctx) db' = (db_view (route_of ctx) db)\<lparr>t_user := upsert_user (registered i login h) (users_seen ctx db)\<rparr>"
      by (auto simp: registered_def)
    have "login \<notin> ur_login ` set (users_seen ctx db)" using uniq assms(2) i by (auto simp: image_iff)
    moreover have "upsert_user (registered i login h) (users_seen ctx db) = users_seen ctx db @ [registered i login h]"
      using assms(2) i by (simp add: upsert_user_def registered_def)
    ultimately show ?thesis using i view by (intro exI [of _ "[registered i login h]"]) auto
  qed
qed

lemma registration_outcome:
  assumes np: "\<not> has_parent_tx (us_transaction s) ctx"
    and ok: "users_ok (t_user (db_tables db))"
    and fresh: "fst (uuid_New x) \<notin> ur_id ` set (t_user (db_tables db))"
    and run: "user_Register s ctx credLogin credPassword (db, x) = (Returns (i, e), db', x')"
  defines "login \<equiv> to_lower (trim_space credLogin)" and "users \<equiv> t_user (db_tables db)"
  shows "\<exists>new. db_tables db' = (db_tables db)\<lparr>t_user := users @ new\<rparr> \<and> users_ok (users @ new)
    \<and> (new = [] \<or> (\<exists>j h. new = [registered j login h] \<and> us_HashPassword s (trim_space credPassword) = Inr h))
    \<and> (e = None \<longrightarrow> (\<exists>h. us_HashPassword s (trim_space credPassword) = Inr h
          \<and> registered i login h \<in> set (users @ new)))"
proof (cases "\<exists>h. us_HashPassword s (trim_space credPassword) = Inr h \<and> trim_space credLogin \<noteq> [] \<and> trim_space credPassword \<noteq> []")
  case False
  then have "db_tables db' = db_tables db" "e \<noteq> None"
    using run by (auto simp: user_Register_def Let_def split: sum.splits if_splits)
  with ok show ?thesis by (intro exI [of _ "[]"]) (auto simp: users_def)
next
  case True
  then obtain h where h: "us_HashPassword s (trim_space credPassword) = Inr h" by blast
  let ?fn = "registerUserImpl s login h"
  have run': "WithinTransactionWithResult (us_transaction s) ctx uuid_nil ?fn [updateUsersLock] (db, x)
      = (Returns (i, e), db', x')"
    using run True h by (simp add: user_Register_def login_def Let_def)
  have conf: "\<forall>tx. confined tx (?fn (within_tx (us_transaction s) ctx tx))"
    by (simp add: register_confined)
  have committed: "\<exists>new. db_tables db' = (db_tables db)\<lparr>t_user := users @ new\<rparr>
      \<and> registered j login h \<in> set (users @ new) \<and> users_ok (users @ new)
      \<and> (new = [] \<or> new = [registered j login h])"
    if res: "fn_result (us_transaction s) ctx ?fn db x j db2" and t: "db_tables db' = db_view (ViaTx (db_next db)) db2"
    for j db2
  proof -
    obtain db1 x2 where v: "db_view (ViaTx (db_next db)) db1 = db_tables db"
      and f: "?fn (within_tx (us_transaction s) ctx (db_next db)) (db1, x) = (Returns (j, None), db2, x2)"
      using res by (auto simp: fn_result_def)
    have "fst (uuid_New x) \<notin> ur_id ` set (t_user (db_view (route_of (within_tx (us_transaction s) ctx (db_next db))) db1))"
      using fresh v by simp
    from registerUserImpl_ok [OF f this] obtain new where
      new: "db_view (ViaTx (db_next db)) db2 = (db_tables db)\<lparr>t_user := users @ new\<rparr>"
      "registered j login h \<in> set (users @ new)"
      "new = [] \<or> new = [registered j login h] \<and> login \<notin> ur_login ` set users \<and> j = fst (uuid_New x)"
      by (auto simp: v users_def)
    have "users_ok (users @ new)" using new(3) ok fresh by (elim disjE) (simp_all add: users_ok_def users_def registered_def)
    with new t show ?thesis by auto
  qed
  from WithinTransactionWithResult_outcome [OF np conf run'] committed h ok
  consider "db_tables db' = db_tables db" "e \<noteq> None"
    | j db2 where "fn_result (us_transaction s) ctx ?fn db x j db2" "db_tables db' = db_view (ViaTx (db_next db)) db2"
        "e = None \<longrightarrow> j = i"
    by blast
  then show ?thesis
  proof cases
    case 1
    with ok show ?thesis by (intro exI [of _ "[]"]) (auto simp: users_def)
  next
    case 2
    from committed [OF this(1,2)] this(3) h show ?thesis by blast
  qed
qed

text \<open>
  C10. Registration: whatever the database does, the users stay distinct in identifier and login, no
  existing user is changed, and at most one user is added: a live one with the trimmed, lower-case login
  and the hash of the trimmed password, whose login was free.  When \<^verbatim>\<open>Register\<close> returns an
  identifier without an error, the committed table has the live user with that identifier, login and
  hash.  The identifiers of \<^verbatim>\<open>uuid.New\<close> are unused.
\<close>

theorem registration_commits_one_user:
  assumes np: "\<not> has_parent_tx (us_transaction s) ctx"
    and ok: "users_ok (t_user (db_tables db))"
    and fresh: "fst (uuid_New x) \<notin> ur_id ` set (t_user (db_tables db))"
    and run: "user_Register s ctx credLogin credPassword (db, x) = (Returns (i, e), db', x')"
  defines "login \<equiv> to_lower (trim_space credLogin)" and "users \<equiv> t_user (db_tables db)"
  shows "\<exists>new. db_tables db' = (db_tables db)\<lparr>t_user := users @ new\<rparr> \<and> users_ok (users @ new)
    \<and> (new = [] \<or> (\<exists>j h. new = [registered j login h] \<and> us_HashPassword s (trim_space credPassword) = Inr h))
    \<and> (e = None \<longrightarrow> (\<exists>h. us_HashPassword s (trim_space credPassword) = Inr h
          \<and> registered i login h \<in> set (users @ new)))"
  unfolding login_def users_def using registration_outcome [OF np ok fresh run] by simp

definition example_env :: env where
  "example_env = \<lparr>en_uuids = (\<lambda>n. of_nat (n + 2)), en_used = 0, en_clock = (\<lambda>n. int n), en_ticks = 0, en_obs = []\<rparr>"

definition example_registry :: user_service where
  "example_registry = \<lparr>us_HashPassword = (\<lambda>p. Inr p),
     us_bus = NewBusScheduledProducer (NewMessageStorage (sort_key mr_scheduled_at)) example_codec [],
     us_transaction = NewTransaction ''user'' None\<rparr>"

lemma example_register:
  "let (r, db', x') = user_Register example_registry background '' Bob '' ''pw'' (calm_db empty_tables, example_env)
   in r = Returns (2, None)"
  by code_simp

theorem registration_commits_one_user_witness:
  "\<exists>db' x'. user_Register example_registry background '' Bob '' ''pw'' (calm_db empty_tables, example_env)
      = (Returns (2, None), db', x')
    \<and> registered 2 ''bob'' ''pw'' \<in> set (t_user (db_tables db'))"
proof -
  obtain r db' x' where run: "user_Register example_registry background '' Bob '' ''pw'' (calm_db empty_tables, example_env)
      = (r, db', x')" by (metis surj_pair)
  with example_register have r: "r = Returns (2, None)" by auto
  have "\<not> has_parent_tx (us_transaction example_registry) background" by (simp add: has_parent_tx_def background_def)
  moreover have "users_ok (t_user (db_tables (calm_db empty_tables)))"
    "fst (uuid_New example_env) \<notin> ur_id ` set (t_user (db_tables (calm_db empty_tables)))"
    by (simp_all add: calm_db_def empty_tables_def users_ok_def)
  ultimately obtain new h where "db_tables db' = (db_tables (calm_db empty_tables))\<lparr>t_user := t_user (db_tables (calm_db empty_tables)) @ new\<rparr>"
    "us_HashPassword example_registry (trim_space ''pw'') = Inr h"
    "registered 2 (to_lower (trim_space '' Bob '')) h \<in> set (t_user (db_tables (calm_db empty_tables)) @ new)"
    using registration_commits_one_user [OF _ _ _ run [unfolded r]] by auto
  moreover have "trim_space ''pw'' = ''pw''" "to_lower (trim_space '' Bob '') = ''bob''" by code_simp+
  ultimately show ?thesis using run r by (auto simp: example_registry_def)
qed

end
