(* ===== verification/User_Deletion.thy ===== *)
theory User_Deletion
  imports User_Service
begin

text \<open>
  The user module wired as in \<^verbatim>\<open>internal/pkg/cmd/container.go\<close> and \<^verbatim>\<open>internal/user/container.go\<close>: its events
  go through the bus producer into the message storage, in the transaction of the caller.  What the
  repository relies on is the locale \<open>event_outbox\<close>; the bus of the container is an instance of it.
\<close>

section \<open>Wiring\<close>

definition messageBusProducerProvider ::
    "(msg_row list \<Rightarrow> msg_row list) \<Rightarrow> json_codec \<Rightarrow> observer \<Rightarrow> metrics \<Rightarrow> logger \<Rightarrow> dbms bus_producer" where
  "messageBusProducerProvider order j ob m l =
     NewBusScheduledProducer (NewMessageStorage order) j
       [WithBusProducerObservability ob [''requestID''], WithBusProducerMetrics m,
        WithBusProducerLogging l LevelDebug LevelWarn]"

definition TopicDomainEventUser :: "(string \<Rightarrow> string) \<Rightarrow> topic" where
  "TopicDomainEventUser kebab = NewTopicDomainEvent kebab ''user'' ''user'' []"

text \<open>\<^verbatim>\<open>eventDispatcherProvider\<close> of the user module registers its event; a failure panics.\<close>

definition eventDispatcherProvider ::
    "(string \<Rightarrow> string) \<Rightarrow> (uuid \<Rightarrow> string) \<Rightarrow> dbms bus_producer \<Rightarrow> dbms bus_producer outcome" where
  "eventDispatcherProvider kebab uuid_string bus =
     (case Register [(TopicDomainEventUser kebab, [RegisterEvent uuid_string (EventUserDeleted uuid_nil uuid_nil)])] [] bus of
        (None, bus') \<Rightarrow> Returns bus'
      | (Some e, bus') \<Rightarrow> Panics)"

definition user_transactionProvider :: "env transaction" where
  "user_transactionProvider = NewTransaction ''user'' None"

section \<open>What the repository needs of the dispatcher\<close>

text \<open>
  Dispatching stays in the transaction of the context; a dispatched event is a message of its
  topic and key, with the identifier of the event, in the storage as the context sees it.
\<close>

definition stored_event :: "topic \<Rightarrow> string \<Rightarrow> structured_message \<Rightarrow> msg_row list \<Rightarrow> msg_row list \<Rightarrow> bool" where
  "stored_event tp key ev rows rows' \<longleftrightarrow>
     (\<exists>payload at. rows' = insert_row \<lparr>mr_id = sm_ID ev, mr_topic = tp, mr_key = key,
        mr_payload = payload, mr_scheduled_at = at\<rparr> rows)"

locale event_outbox =
  fixes bus :: "dbms bus_producer" and goType :: string and tp :: topic and key :: "structured_message \<Rightarrow> string"
  assumes dispatch_stays: "route_of ctx = ViaTx tx \<Longrightarrow> dispatch_events bus ctx evs (db, x) = (e, db', x') \<Longrightarrow> tx_stays tx db db'"
    and dispatch_stores: "dispatch_events bus ctx [ev] (db, x) = (None, db', x') \<Longrightarrow> sm_goType ev = goType \<Longrightarrow>
        \<exists>rows. stored_event tp (key ev) ev (t_message_storage (db_view (route_of ctx) db)) rows
          \<and> db_view (route_of ctx) db' = (db_view (route_of ctx) db)\<lparr>t_message_storage := rows\<rparr>"
begin

lemma Store_stays:
  assumes "route_of ctx = ViaTx tx" and "userRepository_Store bus ctx u (db, x) = (e, db', x')"
  shows "tx_stays tx db db'"
proof -
  obtain e1 db1 x1 where d: "dispatch_events bus ctx (u_Changes u) (db, x) = (e1, db1, x1)" by (metis surj_pair)
  obtain q db2 where q: "ExecContext ctx (store_user_stmt (user_row_of u)) db1 = (q, db2)" by force
  show ?thesis
    using assms(2) d q dispatch_stays [OF assms(1) d] tx_stays_ExecContext [OF q assms(1)] tx_stays_trans [of tx db db1 db2]
    by (auto simp: userRepository_Store_def split: option.splits sum.splits prod.splits)
qed

lemma Store_ok:
  assumes "userRepository_Store bus ctx u (db, x) = (None, db', x')" and "u_Changes u = [ev]" and "sm_goType ev = goType"
  shows "\<exists>rows. stored_event tp (key ev) ev (t_message_storage (db_view (route_of ctx) db)) rows
    \<and> db_view (route_of ctx) db' = (db_view (route_of ctx) db)\<lparr>t_message_storage := rows,
         t_user := upsert_user (user_row_of u) (users_seen ctx db)\<rparr>"
proof -
  obtain e1 db1 x1 where d: "dispatch_events bus ctx (u_Changes u) (db, x) = (e1, db1, x1)" by (metis surj_pair)
  obtain q db2 where q: "ExecContext ctx (store_user_stmt (user_row_of u)) db1 = (q, db2)" by force
  have e: "e1 = None" "db2 = db'" and n: "\<exists>n. q = Inr n"
    using assms(1) d q by (auto simp: userRepository_Store_def split: option.splits sum.splits prod.splits)
  from dispatch_stores [OF d [unfolded assms(2) e(1)] assms(3)] obtain rows where
    r: "stored_event tp (key ev) ev (t_message_storage (db_view (route_of ctx) db)) rows"
       "db_view (route_of ctx) db1 = (db_view (route_of ctx) db)\<lparr>t_message_storage := rows\<rparr>" by blast
  from n q e store_user_ok have "db_view (route_of ctx) db' = (db_view (route_of ctx) db1)\<lparr>t_user := upsert_user (user_row_of u) (users_seen ctx db1)\<rparr>"
    by blast
  with r show ?thesis by auto
qed

lemma delete_confined:
  assumes "route_of ctx = ViaTx tx" and "us_bus s = bus"
  shows "confined tx (deleteUserImpl s userID ctx)"
  unfolding confined_def
proof
  fix w :: "env world"
  obtain db x where w: "w = (db, x)" by (cases w)
  let ?lctx = "LockUpdate (us_transaction s) ctx True []"
  obtain f db1 where f: "userRepository_FindOne ?lctx \<lparr>fs_IDs = [userID], fs_Logins = []\<rparr> db = (f, db1)" by force
  note st = FindOne_stays [OF f, of tx]
  have "tx_stays tx db1 db2" if "userRepository_Store (us_bus s) ctx u (db1, x2) = (e, db2, x3)" for u e db2 x2 x3
    using Store_stays [OF assms(1)] that assms(2) by simp
  then show "tx_stays tx (fst w) (fst (snd (deleteUserImpl s userID ctx w)))"
    using f st tx_stays_trans [OF st]
    by (auto simp: w deleteUserImpl_def Let_def split: sum.splits prod.splits if_splits option.splits)
qed

lemma deleteUserImpl_ok:
  assumes run: "deleteUserImpl s userID ctx (db, x) = (Returns None, db', x')"
    and bus: "us_bus s = bus" and ty: "goType = ''domain.EventUserDeleted''"
    and lock: "route_of (LockUpdate (us_transaction s) ctx True []) = route_of ctx"
  shows "db_view (route_of ctx) db' = db_view (route_of ctx) db
      \<and> (honest_db db \<and> users_ok (users_seen ctx db) \<longrightarrow>
           (\<forall>r \<in> set (users_seen ctx db). ur_id r = userID \<longrightarrow> ur_deleted_at r \<noteq> None))
    \<or> (\<exists>r now eid rows. r \<in> set (users_seen ctx db) \<and> ur_id r = userID \<and> ur_deleted_at r = None
        \<and> stored_event tp (key (EventUserDeleted eid userID)) (EventUserDeleted eid userID)
            (t_message_storage (db_view (route_of ctx) db)) rows
        \<and> db_view (route_of ctx) db' = (db_view (route_of ctx) db)\<lparr>t_message_storage := rows,
             t_user := upsert_user (r\<lparr>ur_deleted_at := Some now\<rparr>) (users_seen ctx db)\<rparr>)"
proof -
  let ?lctx = "LockUpdate (us_transaction s) ctx True []"
  obtain f db1 where f: "userRepository_FindOne ?lctx \<lparr>fs_IDs = [userID], fs_Logins = []\<rparr> db = (f, db1)" by force
  have v: "db_view (route_of ctx) db1 = db_view (route_of ctx) db" using FindOne_view [OF f] lock by simp
  show ?thesis
  proof (cases "\<exists>u. f = Inr u \<and> u_DeletedAt u = None")
    case False
    then have "db' = db1" and why: "(\<exists>u. f = Inr u \<and> u_DeletedAt u \<noteq> None) \<or> (\<exists>e. f = Inl e \<and> error_is e DomainErrUserNotFound)"
      using run f by (auto simp: deleteUserImpl_def split: sum.splits if_splits)
    moreover have "ur_deleted_at r \<noteq> None"
      if h: "honest_db db" "users_ok (users_seen ctx db)" and r: "r \<in> set (users_seen ctx db)" "ur_id r = userID" for r
      using why
    proof
      assume "\<exists>u. f = Inr u \<and> u_DeletedAt u \<noteq> None"
      then obtain u where u: "f = Inr u" "u_DeletedAt u \<noteq> None" by blast
      obtain r' where r': "r' \<in> set (users_seen ctx db)" "ur_id r' = userID" "u = user_of_row r'"
        using FindOne_ok [OF f [unfolded u(1)]] lock by (auto simp: user_matches_def)
      have "r = r'" using h(2) r r' by (auto simp: users_ok_def distinct_map dest: inj_onD)
      with r' u show ?thesis by (simp add: user_of_row_def)
    next
      assume "\<exists>e. f = Inl e \<and> error_is e DomainErrUserNotFound"
      then obtain e where "f = Inl e" "error_is e DomainErrUserNotFound" by blast
      with FindOne_missing [OF f [unfolded this(1)] this(2) h(1)] r lock show ?thesis
        by (auto simp: filter_empty_conv user_matches_def)
    qed
    ultimately show ?thesis using v by simp
  next
    case True
    then obtain u where u: "f = Inr u" "u_DeletedAt u = None" by blast
    obtain r where r: "r \<in> set (users_seen ctx db)" "ur_id r = userID" "u = user_of_row r"
      using FindOne_ok [OF f [unfolded u(1)]] lock by (auto simp: user_matches_def)
    define now where "now = fst (time_Now x)"
    define eid where "eid = fst (uuid_New (snd (time_Now x)))"
    let ?u = "u\<lparr>u_DeletedAt := Some now, u_Changes := [EventUserDeleted eid userID]\<rparr>"
    have "userRepository_Store bus ctx ?u (db1, snd (uuid_New (snd (time_Now x)))) = (None, db', x')"
      using run f u r bus
      by (auto simp: deleteUserImpl_def SetDeletedAt_def now_def eid_def user_of_row_def Let_def
          split: prod.splits option.splits)
    from Store_ok [OF this, of "EventUserDeleted eid userID"] obtain rows where
      rows: "stored_event tp (key (EventUserDeleted eid userID)) (EventUserDeleted eid userID)
        (t_message_storage (db_view (route_of ctx) db)) rows"
      "db_view (route_of ctx) db' = (db_view (route_of ctx) db)\<lparr>t_message_storage := rows,
        t_user := upsert_user (user_row_of ?u) (users_seen ctx db)\<rparr>"
      using v ty by (auto simp: EventUserDeleted_def)
    have row: "user_row_of ?u = r\<lparr>ur_deleted_at := Some now\<rparr>"
      using r by (simp add: user_row_of_def user_of_row_def)
    have "ur_deleted_at r = None" using r u by (simp add: user_of_row_def)
    with r(1,2) rows(1) rows(2) [unfolded row] show ?thesis by blast
  qed
qed

end

section \<open>The bus of the container is such a dispatcher\<close>

text \<open>A middleware that only observes.\<close>

definition observing :: "('s bus_produce \<Rightarrow> 's bus_produce) \<Rightarrow> bool" where
  "observing mw \<longleftrightarrow> (\<forall>impl ctx tp msg at w.
     fst (mw impl ctx tp msg at w) = fst (impl ctx tp msg at w)
     \<and> bw_state (snd (mw impl ctx tp msg at w)) = bw_state (snd (impl ctx tp msg at w)))"

lemma observing_all:
  "\<forall>mw \<in> set mws. observing mw \<Longrightarrow>
   fst (foldr (\<lambda>mw produce. mw produce) mws impl ctx tp msg at w) = fst (impl ctx tp msg at w)
   \<and> bw_state (snd (foldr (\<lambda>mw produce. mw produce) mws impl ctx tp msg at w)) = bw_state (snd (impl ctx tp msg at w))"
  by (induction mws) (auto simp: observing_def)

lemma observing_options:
  assumes "\<forall>mw \<in> set (Middlewares c). observing mw"
  shows "\<forall>mw \<in> set (Middlewares (WithBusProducerMetrics m c)). observing mw"
    and "\<forall>mw \<in> set (Middlewares (WithBusProducerLogging l a b c)). observing mw"
    and "\<forall>mw \<in> set (Middlewares (WithBusProducerObservability ob fs c)). observing mw"
  using assms
  by (auto simp: WithBusProducerMetrics_def WithBusProducerLogging_def WithBusProducerObservability_def
      observing_def Let_def split: prod.splits)

definition stays_produce :: "dbms bus_produce \<Rightarrow> bool" where
  "stays_produce P \<longleftrightarrow> (\<forall>ctx tp msg at w tx. route_of ctx = ViaTx tx \<longrightarrow>
     tx_stays tx (bw_state w) (bw_state (snd (P ctx tp msg at w))))"

lemma storage_Store_stays: "storage_Store ctx at ms db = (e, db') \<Longrightarrow> route_of ctx = ViaTx tx \<Longrightarrow> tx_stays tx db db'"
  by (auto simp: storage_Store_def tx_stays_refl split: if_splits prod.splits sum.splits dest!: tx_stays_ExecContext)

lemma produce_base_stays:
  "bp_producerImpl p = bp_producerImpl (NewBusScheduledProducer (NewMessageStorage order) j opts) \<Longrightarrow>
   stays_produce (produce_base p builders kb)"
  by (auto simp: stays_produce_def produce_base_def NewBusScheduledProducer_def NewMessageStorage_def Let_def tx_stays_refl
      split: sum.splits prod.splits dest!: storage_Store_stays)

lemma produce_all_stays:
  assumes "\<forall>(tp, msg) \<in> set calls. \<exists>P. bp_producers p (tp, sm_goType msg) = Some P \<and> stays_produce P"
    and "route_of ctx = ViaTx tx"
  shows "tx_stays tx (bw_state w) (bw_state (snd (produce_all p ctx at calls w)))"
  using assms(1)
proof (induction calls arbitrary: w)
  case Nil
  then show ?case by (simp add: tx_stays_refl)
next
  case (Cons c calls)
  obtain tp msg where c: "c = (tp, msg)" by (cases c)
  obtain P where P: "bp_producers p (tp, sm_goType msg) = Some P" "stays_produce P" using Cons.prems c by auto
  obtain e w1 where r: "P ctx tp msg at w = (e, w1)" by force
  then have "tx_stays tx (bw_state w) (bw_state w1)" using P(2) assms(2) unfolding stays_produce_def by (metis snd_conv)
  with Cons P(1) r c show ?case by (cases e) (auto intro: tx_stays_trans)
qed

lemma bus_stays:
  assumes "bus_ok type_name p" and "\<forall>k P. bp_producers p k = Some P \<longrightarrow> stays_produce P"
    and "route_of ctx = ViaTx tx" and "dispatch_events p ctx evs (db, x) = (e, db', x')"
  shows "tx_stays tx db db'"
proof -
  let ?w = "\<lparr>bw_state = db, bw_obs = en_obs x, bw_clock = en_clock x, bw_ticks = en_ticks x\<rparr>"
  have "\<exists>P. bp_producers p (tp, sm_goType msg) = Some P \<and> stays_produce P"
    if "(tp, msg) \<in> set (schedule_calls p evs)" for tp msg
  proof -
    have "tp \<in> set (topics_of p (sm_goType msg))" using that by (simp add: schedule_calls_set)
    then have "bp_producers p (tp, sm_goType msg) \<noteq> None" using assms(1) by (simp add: bus_ok_def)
    with assms(2) show ?thesis by blast
  qed
  then have "tx_stays tx (bw_state ?w) (bw_state (snd (produce_all p ctx None (schedule_calls p evs) ?w)))"
    by (intro produce_all_stays assms(3)) auto
  then show ?thesis
    using assms(4)
    by (auto simp: dispatch_events_def eventDispatcher_Dispatch_def bus_Produce_def scheduleImpl_eq [OF assms(1)]
        tx_stays_refl split: prod.splits if_splits)
qed

text \<open>The bus after the registration of the user module.\<close>

definition user_bus ::
    "(msg_row list \<Rightarrow> msg_row list) \<Rightarrow> json_codec \<Rightarrow> observer \<Rightarrow> metrics \<Rightarrow> logger \<Rightarrow> (string \<Rightarrow> string)
      \<Rightarrow> (uuid \<Rightarrow> string) \<Rightarrow> dbms bus_producer" where
  "user_bus order j ob m l kebab uuid_string =
     snd (Register [(TopicDomainEventUser kebab, [RegisterEvent uuid_string (EventUserDeleted uuid_nil uuid_nil)])] []
       (messageBusProducerProvider order j ob m l))"

abbreviation user_producer where
  "user_producer order j ob m l uuid_string \<equiv>
     buildProducer (messageBusProducerProvider order j ob m l)
       (bp_baseConfig (messageBusProducerProvider order j ob m l))
       (snd (RegisterEvent uuid_string (EventUserDeleted uuid_nil uuid_nil)))"

lemma user_bus_registers:
  "Register [(TopicDomainEventUser kebab, [RegisterEvent uuid_string (EventUserDeleted uuid_nil uuid_nil)])] []
     (messageBusProducerProvider order j ob m l) = (None, user_bus order j ob m l kebab uuid_string)"
  by (simp add: user_bus_def Register_def apply_options_def registerImpl_def Let_def RegisterEvent_def EventUserDeleted_def
      messageBusProducerProvider_def NewBusScheduledProducer_def)

lemma user_bus_provided:
  "eventDispatcherProvider kebab uuid_string (messageBusProducerProvider order j ob m l)
     = Returns (user_bus order j ob m l kebab uuid_string)"
  by (simp add: eventDispatcherProvider_def user_bus_registers)

lemma user_bus_simps:
  "bp_producers (user_bus order j ob m l kebab us) =
     [(TopicDomainEventUser kebab, ''domain.EventUserDeleted'') \<mapsto> user_producer order j ob m l us]"
  "bp_messageTopics (user_bus order j ob m l kebab us) = [''domain.EventUserDeleted'' \<mapsto> [TopicDomainEventUser kebab]]"
  by (simp_all add: user_bus_def Register_def apply_options_def registerImpl_def Let_def RegisterEvent_def EventUserDeleted_def
      messageBusProducerProvider_def NewBusScheduledProducer_def)

lemma user_bus_ok: "bus_ok (\<lambda>_. ''user.deleted'') (user_bus order j ob m l kebab us)"
  using register_all_ok [OF user_bus_registers [unfolded Register_def], of "\<lambda>_. ''user.deleted''"]
  by (simp add: messageBusProducerProvider_def RegisterEvent_def EventUserDeleted_def)

lemma user_producer_base:
  assumes "base = produce_base (messageBusProducerProvider order j ob m l)
      (MetadataBuilders (bp_baseConfig (messageBusProducerProvider order j ob m l)))
      (the (snd (RegisterEvent us (EventUserDeleted uuid_nil uuid_nil))))"
  shows "fst (user_producer order j ob m l us ctx tp msg at w) = fst (base ctx tp msg at w)
    \<and> bw_state (snd (user_producer order j ob m l us ctx tp msg at w)) = bw_state (snd (base ctx tp msg at w))"
proof -
  have "\<forall>mw \<in> set (Middlewares (bp_baseConfig (messageBusProducerProvider order j ob m l))). observing mw"
    unfolding messageBusProducerProvider_def NewBusScheduledProducer_def apply_options_def bus_producer.simps fold_simps
    by (intro observing_options) simp
  from observing_all [OF this, of base ctx tp msg at w] show ?thesis
    by (simp add: buildProducer_def RegisterEvent_def assms)
qed

lemma storage_Store_one:
  assumes "storage_Store ctx at [m] db = (None, db')"
  shows "db_view (route_of ctx) db' = (db_view (route_of ctx) db)\<lparr>t_message_storage :=
    insert_row (row_of at m) (t_message_storage (db_view (route_of ctx) db))\<rparr>"
proof -
  obtain n where "ExecContext ctx (store_stmt at [m]) db = (Inr n, db')"
    using assms by (auto simp: storage_Store_def split: sum.splits prod.splits)
  from ExecContext_ok [OF this] show ?thesis by (simp add: store_stmt_def insert_rows_def)
qed

lemma produce_base_stores:
  assumes "produce_base (messageBusProducerProvider order j ob m l) builders kb ctx tp msg None w = (None, w')"
  shows "\<exists>payload at. storage_Store ctx at [\<lparr>msg_ID = sm_ID msg, msg_Topic = tp, msg_Key = kb msg, msg_Payload = payload\<rparr>]
      (bw_state w) = (None, bw_state w')"
  using assms
  by (auto simp: produce_base_def messageBusProducerProvider_def NewBusScheduledProducer_def NewMessageStorage_def Let_def
      split: sum.splits prod.splits) blast

lemma user_bus_calls:
  assumes "dispatch_events (user_bus order j ob m l kebab us) ctx [ev] (db, x) = (e, db', x')"
    and "sm_goType ev = ''domain.EventUserDeleted''"
  defines "P \<equiv> user_producer order j ob m l us ctx (TopicDomainEventUser kebab) ev None
      \<lparr>bw_state = db, bw_obs = en_obs x, bw_clock = en_clock x, bw_ticks = en_ticks x\<rparr>"
  shows "(e = None \<longleftrightarrow> fst P = None) \<and> db' = bw_state (snd P)"
  using assms
  by (auto simp: dispatch_events_def eventDispatcher_Dispatch_def bus_Produce_def scheduleImpl_def user_bus_simps Let_def
      split: prod.splits option.splits)

lemma user_bus_stays:
  "route_of ctx = ViaTx tx \<Longrightarrow> dispatch_events (user_bus order j ob m l kebab us) ctx evs (db, x) = (e, db', x') \<Longrightarrow>
   tx_stays tx db db'"
proof (rule bus_stays [OF user_bus_ok])
  let ?p = "messageBusProducerProvider order j ob m l"
  define base where "base = produce_base ?p (MetadataBuilders (bp_baseConfig ?p))
      (the (snd (RegisterEvent us (EventUserDeleted uuid_nil uuid_nil))))"
  have "stays_produce base"
    unfolding base_def by (rule produce_base_stays) (simp add: messageBusProducerProvider_def)
  then have "stays_produce (user_producer order j ob m l us)"
    using user_producer_base [OF base_def] unfolding stays_produce_def by metis
  then show "\<forall>k P. bp_producers (user_bus order j ob m l kebab us) k = Some P \<longrightarrow> stays_produce P"
    by (simp add: user_bus_simps)
qed

interpretation user_events: event_outbox "user_bus order j ob m l kebab us" "''domain.EventUserDeleted''"
    "TopicDomainEventUser kebab" "\<lambda>ev. us (sm_AggregateID ev)" for order j ob m l kebab us
proof unfold_locales
  fix ctx tx evs db x e db' x'
  assume "route_of ctx = ViaTx tx" "dispatch_events (user_bus order j ob m l kebab us) ctx evs (db, x) = (e, db', x')"
  then show "tx_stays tx db db'" by (rule user_bus_stays)
next
  fix ctx ev db x db' x'
  assume d: "dispatch_events (user_bus order j ob m l kebab us) ctx [ev] (db, x) = (None, db', x')"
    and ty: "sm_goType ev = ''domain.EventUserDeleted''"
  let ?p = "messageBusProducerProvider order j ob m l"
  let ?kb = "the (snd (RegisterEvent us (EventUserDeleted uuid_nil uuid_nil)))"
  define base where "base = produce_base ?p (MetadataBuilders (bp_baseConfig ?p)) ?kb"
  let ?w = "\<lparr>bw_state = db, bw_obs = en_obs x, bw_clock = en_clock x, bw_ticks = en_ticks x\<rparr>"
  obtain w' where b: "base ctx (TopicDomainEventUser kebab) ev None ?w = (None, w')" and w': "bw_state w' = db'"
    using user_bus_calls [OF d ty] user_producer_base [OF base_def, of ctx "TopicDomainEventUser kebab" ev None ?w]
    by (metis prod.collapse)
  obtain payload at where
    s: "storage_Store ctx at [\<lparr>msg_ID = sm_ID ev, msg_Topic = TopicDomainEventUser kebab, msg_Key = ?kb ev, msg_Payload = payload\<rparr>]
      db = (None, db')"
    using produce_base_stores [OF b [unfolded base_def]] w' by auto
  have "?kb ev = us (sm_AggregateID ev)" using ty by (simp add: RegisterEvent_def EventUserDeleted_def)
  with storage_Store_one [OF s] show "\<exists>rows. stored_event (TopicDomainEventUser kebab) (us (sm_AggregateID ev)) ev
      (t_message_storage (db_view (route_of ctx) db)) rows
      \<and> db_view (route_of ctx) db' = (db_view (route_of ctx) db)\<lparr>t_message_storage := rows\<rparr>"
    by (auto simp: stored_event_def row_of_def)
qed

section \<open>Deleting a user\<close>

lemma route_LockUpdate [simp]: "route_of (LockUpdate t ctx b opts) = route_of ctx"
  by (auto simp: LockUpdate_def Let_def route_of_def split: prod.splits option.splits)

definition set_deleted :: "uuid \<Rightarrow> time \<Rightarrow> user_row list \<Rightarrow> user_row list" where
  "set_deleted i now rows = map (\<lambda>r. if ur_id r = i then r\<lparr>ur_deleted_at := Some now\<rparr> else r) rows"

lemma upsert_set_deleted:
  assumes "users_ok rows" and "r \<in> set rows" and "ur_id r = i"
  shows "upsert_user (r\<lparr>ur_deleted_at := Some now\<rparr>) rows = set_deleted i now rows"
proof -
  have "\<forall>y \<in> set rows. ur_id y = i \<longrightarrow> y = r"
    using assms by (auto simp: users_ok_def distinct_map dest: inj_onD)
  then have "map (\<lambda>y. if ur_id y = i then r\<lparr>ur_deleted_at := Some now\<rparr> else y) rows = set_deleted i now rows"
    unfolding set_deleted_def by (intro map_cong refl) auto
  with assms show ?thesis by (auto simp: upsert_user_def)
qed

lemma set_deleted_gone: "\<forall>r \<in> set (set_deleted i now rows). ur_id r = i \<longrightarrow> ur_deleted_at r \<noteq> None"
  unfolding set_deleted_def by (induction rows) simp_all

text \<open>
  The tables after a deletion that took effect: the user, live before, has a deletion time, and the message storage has a message
  with the event's identifier in the user topic, keyed by the user; nothing else differs.
\<close>

definition deleted_with_event :: "(string \<Rightarrow> string) \<Rightarrow> (uuid \<Rightarrow> string) \<Rightarrow> uuid \<Rightarrow> tables \<Rightarrow> tables \<Rightarrow> bool" where
  "deleted_with_event kebab uuid_string userID t t' \<longleftrightarrow>
     (\<exists>r \<in> set (t_user t). ur_id r = userID \<and> ur_deleted_at r = None)
     \<and> (\<exists>now eid rows. stored_event (TopicDomainEventUser kebab) (uuid_string userID) (EventUserDeleted eid userID) (t_message_storage t) rows
          \<and> t' = t\<lparr>t_message_storage := rows, t_user := set_deleted userID now (t_user t)\<rparr>)"

definition user_gone :: "uuid \<Rightarrow> tables \<Rightarrow> bool" where
  "user_gone userID t \<longleftrightarrow> (\<forall>r \<in> set (t_user t). ur_id r = userID \<longrightarrow> ur_deleted_at r \<noteq> None)"

lemma deleted_with_event_gone: "deleted_with_event kebab uuid_string userID t t' \<Longrightarrow> user_gone userID t'"
proof -
  assume "deleted_with_event kebab uuid_string userID t t'"
  then obtain now rows where "t' = t\<lparr>t_message_storage := rows, t_user := set_deleted userID now (t_user t)\<rparr>"
    unfolding deleted_with_event_def by blast
  then show ?thesis by (simp add: user_gone_def set_deleted_gone)
qed

lemma delete_committed:
  assumes saw: "fn_saw T ctx (deleteUserImpl s userID) db x db2 x2" and b: "us_bus s = user_bus order j ob m l kebab uuid_string"
    and ok: "users_ok (t_user (db_tables db))" and honest: "honest_db db"
  defines "t \<equiv> db_view (ViaTx (db_next db)) db2"
  shows "t = db_tables db \<and> user_gone userID t \<or> deleted_with_event kebab uuid_string userID (db_tables db) t"
proof -
  obtain db1 where v: "db_view (ViaTx (db_next db)) db1 = db_tables db" "db_fault db1 = db_fault db"
    and f: "deleteUserImpl s userID (within_tx T ctx (db_next db)) (db1, x) = (Returns None, db2, x2)"
    using saw by (auto simp: fn_saw_def)
  have h: "honest_db db1" using honest v(2) by (simp add: honest_db_def)
  from user_events.deleteUserImpl_ok [OF f b refl] consider
    "t = db_tables db" "user_gone userID t"
    | r now eid rows where "r \<in> set (t_user (db_tables db))" "ur_id r = userID" "ur_deleted_at r = None"
      "stored_event (TopicDomainEventUser kebab) (uuid_string userID) (EventUserDeleted eid userID) (t_message_storage (db_tables db)) rows"
      "t = (db_tables db)\<lparr>t_message_storage := rows,
           t_user := upsert_user (r\<lparr>ur_deleted_at := Some now\<rparr>) (t_user (db_tables db))\<rparr>"
    using h ok v(1) unfolding t_def user_gone_def by (auto simp: EventUserDeleted_def)
  then show ?thesis
  proof cases
    case 2
    from 2(5) [unfolded upsert_set_deleted [OF ok 2(1,2)]] 2(1-4) show ?thesis unfolding deleted_with_event_def by blast
  qed simp
qed

text \<open>
  C8. Deleting a user commits the deletion and its event together or not at all.  In every outcome the
  tables are either unchanged or differ by exactly this: the user, live before, has a deletion time,
  and the message storage has a message with the event's identifier in the user topic, keyed by the user.
  When \<^verbatim>\<open>Delete\<close> returns without an error no live user with the identifier is left.  The bus is the
  one the container builds, with its observability, metrics and logging.
\<close>

theorem deletion_commits_with_event:
  assumes np: "\<not> has_parent_tx (us_transaction s) ctx"
    and bus: "eventDispatcherProvider kebab uuid_string (messageBusProducerProvider order j ob m l) = Returns (us_bus s)"
    and ok: "users_ok (t_user (db_tables db))" and honest: "honest_db db"
    and run: "user_Delete s ctx userID (db, x) = (Returns e, db', x')"
  shows "(db_tables db' = db_tables db \<or> deleted_with_event kebab uuid_string userID (db_tables db) (db_tables db'))
    \<and> (e = None \<longrightarrow> user_gone userID (db_tables db'))"
proof (cases "permission_Check (cx_auth ctx) (CanDeleteUser userID)")
  case (Some pe)
  then show ?thesis using run by (auto simp: user_Delete_def)
next
  case None
  have b: "us_bus s = user_bus order j ob m l kebab uuid_string" using bus by (simp add: user_bus_provided)
  have run': "WithinContext (us_transaction s) ctx (deleteUserImpl s userID) [] (db, x) = (Returns e, db', x')"
    using run None by (simp add: user_Delete_def)
  have conf: "\<forall>tx. confined tx (deleteUserImpl s userID (within_tx (us_transaction s) ctx tx))"
    using user_events.delete_confined [OF _ b] by simp
  from WithinContext_outcome [OF np conf run'] consider
    "e \<noteq> None" "db_tables db' = db_tables db"
    | db2 x2 where "fn_saw (us_transaction s) ctx (deleteUserImpl s userID) db x db2 x2" "db_tables db' = db_view (ViaTx (db_next db)) db2"
    by blast
  then show ?thesis
  proof cases
    case 2
    from delete_committed [OF 2(1) b ok honest] 2(2) deleted_with_event_gone show ?thesis by auto
  qed auto
qed

section \<open>An example\<close>

definition example_users :: user_service where
  "example_users = \<lparr>us_HashPassword = (\<lambda>p. Inr p),
     us_bus = user_bus (sort_key mr_scheduled_at) example_codec \<lparr>obs_logger = LoggerStub, obs_loggingFields = {}\<rparr>
       [] LoggerStub (\<lambda>s. s) (\<lambda>_. ''k''),
     us_transaction = user_transactionProvider\<rparr>"

definition example_tables :: tables where
  "example_tables = empty_tables\<lparr>t_user := [registered 7 ''bob'' ''pw'']\<rparr>"

definition as_user :: "uuid \<Rightarrow> sql_ctx" where
  "as_user i = background\<lparr>cx_auth := Some (Some \<lparr>p_UserID = Some i, p_AdminUserID = None, p_ServiceName = None\<rparr>)\<rparr>"

lemma example_delete:
  "let (r, db', x') = user_Delete example_users (as_user 7) 7 (calm_db example_tables, example_env)
   in r = Returns None \<and> map ur_deleted_at (t_user (db_tables db')) = [Some 0]
     \<and> map (\<lambda>m. (mr_id m, mr_key m)) (t_message_storage (db_tables db')) = [(2, ''k'')]"
  by code_simp

lemma example_ok: "users_ok (t_user (db_tables (calm_db example_tables)))" "honest_db (calm_db example_tables)"
  by (simp_all add: calm_db_def example_tables_def users_ok_def honest_db_def)

lemma example_top: "\<not> has_parent_tx (us_transaction example_users) (as_user i)"
  by (simp add: has_parent_tx_def as_user_def background_def)

theorem deletion_commits_with_event_witness:
  "\<exists>db' x' now eid rows. user_Delete example_users (as_user 7) 7 (calm_db example_tables, example_env) = (Returns None, db', x')
    \<and> stored_event (TopicDomainEventUser (\<lambda>s. s)) ''k'' (EventUserDeleted eid 7) [] rows
    \<and> db_tables db' = example_tables\<lparr>t_message_storage := rows, t_user := set_deleted 7 now (t_user example_tables)\<rparr>"
proof -
  let ?db = "calm_db example_tables"
  obtain r db' x' where run: "user_Delete example_users (as_user 7) 7 (?db, example_env) = (r, db', x')" by (metis surj_pair)
  with example_delete have r: "r = Returns None" and d: "map ur_deleted_at (t_user (db_tables db')) = [Some 0]" by auto
  have bus: "eventDispatcherProvider (\<lambda>s. s) (\<lambda>_. ''k'') (messageBusProducerProvider (sort_key mr_scheduled_at) example_codec
      \<lparr>obs_logger = LoggerStub, obs_loggingFields = {}\<rparr> [] LoggerStub) = Returns (us_bus example_users)"
    by (simp add: user_bus_provided example_users_def)
  have "db_tables db' \<noteq> db_tables ?db" using d by (auto simp: calm_db_def example_tables_def registered_def)
  with deletion_commits_with_event [OF example_top bus example_ok run [unfolded r]] r run
  show ?thesis by (auto simp: calm_db_def example_tables_def empty_tables_def deleted_with_event_def)
qed

end
