(* ===== verification/Event_Handling.thy ===== *)
theory Event_Handling
  imports Delivery User_Profile User_Deletion
begin

text \<open>
  The worker \<^verbatim>\<open>cmd/message-handler-worker\<close>: the bus listener of \<^verbatim>\<open>internal/pkg/cmd/container.go\<close> with its middlewares, the handlers that
  \<^verbatim>\<open>internal/userprofile/container.go\<close> registers, and the storage consumer behind them.  What the handlers do to the database is followed through
  every run: an event of a deleted user leaves the storage only when the profile is gone.

  The message table and the tables of the profile domain are disjoint and no transaction writes both; they are kept as two databases, each with
  faults of its own.
\<close>

section \<open>What handlers leave behind\<close>

text \<open>
  \<open>good\<close>: the messages and contexts with which handlers are called; \<open>J\<close>: an invariant of the handlers' world; \<open>K\<close>: what a success of a handler on a message
  brings about, and no handler takes back.
\<close>

definition group_of :: "('w, 'q) listener \<Rightarrow> consumer_message \<Rightarrow> phase \<Rightarrow> bool" where
  "group_of L m ph \<longleftrightarrow> (\<forall>msg meta sts ge. ph = PGroup msg meta sts ge \<longrightarrow> ln_Deserialize L (msg_Payload (cm_Message m)) = Inr (msg, meta)
     \<and> (\<forall>hs. ln_handlers L (sm_Type msg) = Some hs \<longrightarrow> length sts = length hs))"

definition keeps_effects :: "(consumer_message \<Rightarrow> handler_ctx \<Rightarrow> bool) \<Rightarrow> ('w \<Rightarrow> bool) \<Rightarrow> (consumer_message \<Rightarrow> 'w \<Rightarrow> bool) \<Rightarrow> ('w, 'q) listener \<Rightarrow> bool" where
  "keeps_effects good J K L \<longleftrightarrow> (\<forall>m c msg meta hs i e w w'. ln_Deserialize L (msg_Payload (cm_Message m)) = Inr (msg, meta) \<longrightarrow>
     ln_handlers L (sm_Type msg) = Some hs \<longrightarrow> i < length hs \<longrightarrow> good m c \<longrightarrow> J (hw_app w) \<longrightarrow>
     (hs ! i) (withHandlerMetadata c (cm_Message m) meta) msg w = (Returns e, w') \<longrightarrow>
     J (hw_app w') \<and> (\<forall>m'. K m' (hw_app w) \<longrightarrow> K m' (hw_app w')) \<and> (e = None \<longrightarrow> K m (hw_app w')))"

lemma step_effects:
  assumes eff: "keeps_effects good J K L" and step: "process_step L m c p p'" and "good m c" and "group_of L m (pr_phase p)" and "J (hw_app (pr_world p))"
  shows "group_of L m (pr_phase p') \<and> J (hw_app (pr_world p')) \<and> (\<forall>m'. K m' (hw_app (pr_world p)) \<longrightarrow> K m' (hw_app (pr_world p')))
    \<and> (\<forall>i. LHandled i None \<in> set (pr_trace p') \<longrightarrow> LHandled i None \<in> set (pr_trace p) \<or> K m (hw_app (pr_world p')))"
proof -
  have attempt: "J (hw_app w) \<and> (\<forall>m'. K m' (hw_app (pr_world p)) \<longrightarrow> K m' (hw_app w)) \<and> (e = None \<longrightarrow> K m (hw_app w))"
    if "pr_phase p = PGroup msg meta sts ge" "ln_handlers L (sm_Type msg) = Some hs" "i < length sts"
      "(hs ! i) (withHandlerMetadata c (cm_Message m) meta) msg (pr_world p) = (Returns e, w)" for msg meta sts ge hs i e w
    using eff [unfolded keeps_effects_def, rule_format, OF _ that(2) _ assms(3,5) that(4)] assms(4) that(1-3)
    unfolding group_of_def by metis
  from step show ?thesis
  proof cases
    case (handler_ok msg meta sts ge hs i w)
    with attempt [OF handler_ok(2,3,4,6)] assms(4) show ?thesis by (simp add: group_of_def)
  next
    case (handler_retry msg meta sts ge hs i e w)
    with attempt [OF handler_retry(2,3,4,6)] assms(4) show ?thesis by (simp add: group_of_def)
  next
    case (handler_failed msg meta sts ge hs i e w e')
    with attempt [OF handler_failed(2,3,4,6)] assms(4) show ?thesis by (simp add: group_of_def)
  qed (use assms(4,5) in \<open>auto simp: group_of_def split: if_splits\<close>)
qed

definition effects_ok :: "(consumer_message \<Rightarrow> handler_ctx \<Rightarrow> bool) \<Rightarrow> ('w \<Rightarrow> bool) \<Rightarrow> (consumer_message \<Rightarrow> 'w \<Rightarrow> bool) \<Rightarrow> ('w, 'q) listener \<Rightarrow> ('w, 'q) listener_run \<Rightarrow> bool" where
  "effects_ok good J K L s \<longleftrightarrow> J (hw_app (lr_world s)) \<and> (\<forall>(m, c, p) \<in> set (lr_procs s). good m c \<and> group_of L m (pr_phase p)
     \<and> (\<forall>i. LHandled i None \<in> set (pr_trace p) \<longrightarrow> K m (hw_app (lr_world s))))"

lemma effects_ok_start: "J (hw_app w) \<Longrightarrow> effects_ok good J K L (worker_start q w)"
  by (simp add: effects_ok_def worker_start_def)

lemma effects_ok_loop:
  "effects_ok good J K L s \<Longrightarrow> lr_world s' = lr_world s \<Longrightarrow> lr_procs s' = lr_procs s \<Longrightarrow> effects_ok good J K L s'"
  by (simp add: effects_ok_def)

lemma worker_effects:
  assumes eff: "keeps_effects good J K L" and step: "consumerWorker_step take_token add_processing refs L s s'" and ok: "effects_ok good J K L s"
    and new: "\<And>m c p. lr_procs s' = lr_procs s @ [(m, c, p)] \<Longrightarrow> good m c"
  shows "effects_ok good J K L s'"
  using step
proof cases
  case (receive m q c)
  with new have "good m c" by simp
  with receive ok show ?thesis by (auto simp: effects_ok_def group_of_def)
next
  case (goroutine i m c p p')
  let ?p = "resume (lr_queue s) (lr_world s) p"
  have app: "hw_app (pr_world ?p) = hw_app (lr_world s)" by (simp add: resume_def)
  have mem: "(m, c, p) \<in> set (lr_procs s)" using nth_mem [OF goroutine(2)] goroutine(3) by simp
  with ok have "good m c" "group_of L m (pr_phase ?p)" "J (hw_app (pr_world ?p))" by (auto simp: effects_ok_def app)
  note st = step_effects [OF eff goroutine(4) this]
  have tr: "K m (hw_app (pr_world p'))" if "LHandled j None \<in> set (pr_trace p')" for j
    using st that ok mem unfolding app by (fastforce simp: effects_ok_def)
  have "good m' c' \<and> group_of L m' (pr_phase p1) \<and> (\<forall>j. LHandled j None \<in> set (pr_trace p1) \<longrightarrow> K m' (hw_app (pr_world p')))"
    if el: "(m', c', p1) \<in> set ((lr_procs s)[i := (m, c, p')])" for m' c' p1
  proof (cases "(m', c', p1) = (m, c, p')")
    case True
    with st tr \<open>good m c\<close> show ?thesis by blast
  next
    case False
    with el have "(m', c', p1) \<in> set (lr_procs s)" using set_update_subset_insert [of "lr_procs s" i "(m, c, p')"] by blast
    with ok st show ?thesis unfolding app by (fastforce simp: effects_ok_def)
  qed
  with st goroutine(1) show ?thesis by (auto simp: effects_ok_def)
qed (use ok in \<open>auto intro: effects_ok_loop\<close>)


lemma delivery_received:
  assumes "delivery_step S tp batchSize ctx actx L r r'"
  shows "set (lr_received r) \<subseteq> set (lr_received r')"
  using assms
proof cases
  case listens
  then show ?thesis by (simp only: order_refl)
qed auto

context message_storage
begin

text \<open>Handlers get the messages that were received, with the context of the lock.\<close>

abbreviation given :: "(consumer_message \<Rightarrow> bool) \<Rightarrow> consumer_message \<Rightarrow> handler_ctx \<Rightarrow> bool" where
  "given M m c \<equiv> M m \<and> ok (hc_base c)"

lemma delivery_effects:
  assumes step: "delivery_step S tp batchSize ctx actx L r r'" and inv: "delivery_inv tp L r"
    and eff: "keeps_effects (given M) J K L" and e: "effects_ok (given M) J K L r" and M: "\<forall>m \<in> set (lr_received r'). M m"
  shows "effects_ok (given M) J K L r'"
  using step
proof cases
  case (consumes c)
  then show ?thesis using e by (simp add: effects_ok_def)
next
  case listens
  have "False" if "lr_procs r' = lr_procs r @ [g]" for g using listens(2) arg_cong [OF that, of length] by (metis length_append_singleton length_map n_not_Suc_n)
  then show ?thesis by (intro worker_effects [OF eff listens(1) e]) blast
next
  case (hands_over ctx' l cm ms n h p)
  have o: "given M cm h" using inv hands_over(1,2,4) M by (simp add: delivery_inv_def)
  have "effects_ok (given M) J K L (with_consumer c r)" for c using e by (simp add: effects_ok_def)
  from worker_effects [OF eff hands_over(3) this] show ?thesis using hands_over(4) o by simp
qed

lemma delivery_effects_runs:
  assumes "(delivery_step S tp batchSize ctx actx L)\<^sup>*\<^sup>* r r'" and L: "ln_ack L = broker_ack (ackq_AcknowledgeResult (consumer_Ack S actx))"
    and "delivery_inv tp L r" and okc: "ok ctx" "ok actx" "\<And>x. cx_tx x = None \<Longrightarrow> ok x"
    and eff: "keeps_effects (given M) J K L" and "effects_ok (given M) J K L r" and "\<forall>m \<in> set (lr_received r'). M m"
  shows "effects_ok (given M) J K L r'"
  using assms(1,9)
proof (induction rule: rtranclp_induct)
  case (step r1 r2)
  have "delivery_inv tp L r1" using delivery_reaches [OF step(1) L assms(3) okc] by blast
  moreover have "effects_ok (given M) J K L r1" using step.IH delivery_received [OF step(2)] step.prems by blast
  ultimately show ?case using delivery_effects [OF step(2) _ eff _ step.prems] by blast
qed (rule assms(8))

end

lemma cared_effect:
  assumes "effects_ok good J K L s" and "cared L s k" and "k < length (lr_procs s)"
    and "ln_Deserialize L (msg_Payload (cm_Message (lr_received s ! k))) = Inr (msg, meta)" and "ln_handlers L (sm_Type msg) = Some hs" "hs \<noteq> []"
  shows "K (lr_received s ! k) (hw_app (lr_world s))"
proof -
  obtain m c p where g: "lr_procs s ! k = (m, c, p)" by (metis surj_pair)
  have mem: "(m, c, p) \<in> set (lr_procs s)" using nth_mem [OF assms(3)] g by simp
  have "LHandled 0 None \<in> set (pr_trace p)" using assms(2-6) g by (simp add: cared_def taken_care_of_def all_handled_def)
  with mem assms(1) have "K m (hw_app (lr_world s))" by (fastforce simp: effects_ok_def)
  then show ?thesis using g assms(3) by simp
qed


section \<open>The configured listener\<close>

text \<open>The options of \<^verbatim>\<open>messageBusListenerProvider\<close>, as the middlewares they add; the first one is the outermost.\<close>

definition messageBusListenerProvider :: "observer \<Rightarrow> metrics \<Rightarrow> logger \<Rightarrow> 'w handler_middleware list" where
  "messageBusListenerProvider ob m l =
     [WithHandlerObservability ob [''requestID''], WithHandlerMetrics m, WithHandlerLogging_mw l LevelInfo LevelError,
      WithHandlerIdempotencyKeyErrorIgnoring]"

definition profile_SubscriberName :: "(string \<Rightarrow> string) \<Rightarrow> string" where
  "profile_SubscriberName kebab = NewSubscriberService kebab ''userProfile''"

text \<open>The event as the profile domain declares it: \<^verbatim>\<open>ID\<close>, \<^verbatim>\<open>Type\<close> and \<^verbatim>\<open>AggregateID\<close> of \<^verbatim>\<open>user.EventUserDeleted\<close>.\<close>

definition profile_event_message :: "profile_event_user_deleted \<Rightarrow> structured_message" where
  "profile_event_message ev =
     \<lparr>sm_goType = ''user.EventUserDeleted'', sm_ID = pe_EventID ev, sm_Type = ''user.deleted'', sm_AggregateID = pe_UserID ev, sm_Content = []\<rparr>"

definition profile_event_of :: "structured_message \<Rightarrow> profile_event_user_deleted" where
  "profile_event_of msg = \<lparr>pe_EventID = sm_ID msg, pe_UserID = sm_AggregateID msg\<rparr>"

lemma profile_event_of_message [simp]: "profile_event_of (profile_event_message ev) = ev"
  by (simp add: profile_event_of_def profile_event_message_def)

lemma profile_event_message_simps [simp]:
  "sm_goType (profile_event_message ev) = ''user.EventUserDeleted''" "sm_Type (profile_event_message ev) = ''user.deleted''"
  by (simp_all add: profile_event_message_def)

lemma profile_event_message_inject [simp]: "profile_event_message a = profile_event_message b \<longleftrightarrow> a = b"
  by (metis profile_event_of_message)

text \<open>
  \<^verbatim>\<open>HandleUserDeleted\<close> as a handler.  The world of the handlers is the database and what lies behind the user service; the time of an
  inserted key is the database's.
\<close>

definition user_deleted_handler ::
    "(sql_ctx \<Rightarrow> uuid \<Rightarrow> 'x \<Rightarrow> (go_error + profile_user_data) \<times> 'x) \<Rightarrow> (uuid \<Rightarrow> string \<Rightarrow> uuid) \<Rightarrow> ('x \<Rightarrow> time) \<Rightarrow> (dbms \<times> 'x) handler" where
  "user_deleted_handler userService newSHA1 clock ctx msg w =
     (case HandleUserDeleted (NewUserProfile userService newSHA1 (clock (snd (hw_app w)))) (hc_base ctx) (profile_event_of msg) (hw_app w) of
        (r, a) \<Rightarrow> (r, w\<lparr>hw_app := a\<rparr>))"

text \<open>\<open>unmarshal\<close> is \<^verbatim>\<open>json.Unmarshal\<close> into the event.\<close>

definition event_decoder :: "(string \<Rightarrow> go_error + profile_event_user_deleted) \<Rightarrow> string \<Rightarrow> go_error + structured_message" where
  "event_decoder unmarshal payload = map_sum id profile_event_message (unmarshal payload)"

definition profile_MustRegisterMessageHandlers ::
    "(string \<Rightarrow> string) \<Rightarrow> (string \<Rightarrow> go_error + profile_event_user_deleted) \<Rightarrow> (topic \<Rightarrow> string \<Rightarrow> go_error + 'k) \<Rightarrow> 'w handler
      \<Rightarrow> ('w, 'k) bus_listener \<Rightarrow> ('w, 'k) bus_listener outcome" where
  "profile_MustRegisterMessageHandlers kebab unmarshal consumers handleUserDeleted registry =
     (case RegisterHandlers consumers NewJSONSerializer (profile_SubscriberName kebab)
        [(TopicDomainEventUser kebab,
          [RegisterEventHandlers (event_decoder unmarshal) (profile_event_message \<lparr>pe_EventID = uuid_nil, pe_UserID = uuid_nil\<rparr>) [handleUserDeleted]])]
        [] registry of
        (None, registry') \<Rightarrow> Returns registry'
      | (Some e, registry') \<Rightarrow> Panics)"

text \<open>The listener that the worker runs for the user topic.\<close>

definition user_event_listener ::
    "json_codec \<Rightarrow> (string \<Rightarrow> string) \<Rightarrow> (string \<Rightarrow> go_error + profile_event_user_deleted) \<Rightarrow> observer \<Rightarrow> metrics \<Rightarrow> logger \<Rightarrow> 'w handler
      \<Rightarrow> (consumer_message \<Rightarrow> err \<Rightarrow> 'q \<Rightarrow> (err \<times> 'q) option) \<Rightarrow> ('w, 'q) listener option" where
  "user_event_listener j kebab unmarshal ob m l handleUserDeleted ack =
     (case profile_MustRegisterMessageHandlers kebab unmarshal (\<lambda>_ _. Inr ()) handleUserDeleted Map.empty of
        Panics \<Rightarrow> None
      | Returns b \<Rightarrow> map_option (listener_of j ack (messageBusListenerProvider ob m l)) (b (profile_SubscriberName kebab, TopicDomainEventUser kebab)))"

lemma user_event_listener_eq:
  "user_event_listener j kebab unmarshal ob m l h ack = Some (NewListener
     (Deserialize j [''user.deleted'' \<mapsto> PayloadDeserializerImpl (event_decoder unmarshal)])
     [''user.deleted'' \<mapsto> [typed_handler ''event'' (profile_event_message \<lparr>pe_EventID = uuid_nil, pe_UserID = uuid_nil\<rparr>) h]]
     ack (messageBusListenerProvider ob m l))"
  by (simp add: user_event_listener_def profile_MustRegisterMessageHandlers_def registerTopicHandlers_def RegisterEventHandlers_def
      RegisterDeserializer_def NewJSONSerializer_def profile_event_message_def listener_of_def Let_def)

lemma user_event_deserialized:
  assumes "Deserialize j [''user.deleted'' \<mapsto> PayloadDeserializerImpl (event_decoder unmarshal)] data = Inr (msg, meta)"
  shows "\<exists>ev. msg = profile_event_message ev"
  using assms
  by (auto simp: Deserialize_def PayloadDeserializerImpl_def event_decoder_def split: sum.splits option.splits if_splits)
    (metis map_sum.simps(1,2) sum.exhaust sum.inject(2) sum.distinct(1))

text \<open>A middleware that only observes: it calls the handler once, on the same application state and transaction, and passes on what it returns.\<close>

definition passes_on :: "'w handler_middleware \<Rightarrow> bool" where
  "passes_on mw \<longleftrightarrow> (\<forall>h ctx msg w e w'. mw h ctx msg w = (Returns e, w') \<longrightarrow>
     (\<exists>ctx' w0 w1. h ctx' msg w0 = (Returns e, w1) \<and> hw_app w0 = hw_app w \<and> hw_app w1 = hw_app w' \<and> cx_tx (hc_base ctx') = cx_tx (hc_base ctx)))"

lemma observe_app [simp]: "hw_app (observe os w) = hw_app w"
  by (simp add: observe_def)

lemma passes_onE:
  assumes "passes_on mw" and "mw h ctx msg w = (Returns e, w')"
  obtains ctx' w0 w1 where "h ctx' msg w0 = (Returns e, w1)" "hw_app w0 = hw_app w" "hw_app w1 = hw_app w'" "cx_tx (hc_base ctx') = cx_tx (hc_base ctx)"
  using assms unfolding passes_on_def by blast

lemma observer_WithField_tx [simp]: "cx_tx (observer_WithField ob c f v) = cx_tx c"
  by (simp add: observer_WithField_def Let_def)

lemma passes_on_observability: "passes_on (WithHandlerObservability ob [f])"
  unfolding passes_on_def
proof (intro allI impI)
  fix h ctx msg w e w' assume run: "WithHandlerObservability ob [f] h ctx msg w = (Returns e, w')"
  let ?v = "map_of (hm_MessageMetadata (GetHandlerMetadata ctx)) (observabilityMetaKeyPrefix @ f)"
  let ?ctx = "ctx\<lparr>hc_base := (case ?v of Some v \<Rightarrow> if v \<noteq> [] then observer_WithField ob (hc_base ctx) f v else hc_base ctx | None \<Rightarrow> hc_base ctx)\<rparr>"
  have "h ?ctx msg w = (Returns e, w')" using run by (simp add: WithHandlerObservability_def)
  then show "\<exists>ctx' w0 w1. h ctx' msg w0 = (Returns e, w1) \<and> hw_app w0 = hw_app w \<and> hw_app w1 = hw_app w' \<and> cx_tx (hc_base ctx') = cx_tx (hc_base ctx)"
    by (intro exI [of _ ?ctx] exI [of _ w] exI [of _ w']) (simp split: option.split)
qed

lemma passes_on_metrics: "passes_on (WithHandlerMetrics m)"
  by (fastforce simp: passes_on_def WithHandlerMetrics_def Let_def split: prod.splits outcome.splits)

lemma passes_on_logging: "passes_on (WithHandlerLogging_mw l il el)"
  unfolding passes_on_def
proof (intro allI impI)
  fix h ctx msg w e w' assume run: "WithHandlerLogging_mw l il el h ctx msg w = (Returns e, w')"
  let ?ctx = "ctx\<lparr>hc_base := (hc_base ctx)\<lparr>cx_log := log_WithContext l (cx_log (hc_base ctx)) [(''handlerCorrelation'', FUuid (hw_uuids w (hw_used w)))]\<rparr>\<rparr>"
  let ?w = "w\<lparr>hw_used := Suc (hw_used w)\<rparr>"
  obtain r w1 where h: "h ?ctx msg ?w = (r, w1)" by force
  then have "r = Returns e" "hw_app w1 = hw_app w'" using run
    by (cases r; auto simp: WithHandlerLogging_mw_def fresh_uuid_def Let_def)+
  with h show "\<exists>ctx' w0 w1. h ctx' msg w0 = (Returns e, w1) \<and> hw_app w0 = hw_app w \<and> hw_app w1 = hw_app w' \<and> cx_tx (hc_base ctx') = cx_tx (hc_base ctx)"
    by (intro exI [of _ ?ctx] exI [of _ ?w] exI [of _ w1]) simp
qed

lemma passes_on_all:
  assumes "\<forall>mw \<in> set mws. passes_on mw" and "foldr (\<lambda>mw h. mw h) mws h ctx msg w = (Returns e, w')"
  shows "\<exists>ctx' w0 w1. h ctx' msg w0 = (Returns e, w1) \<and> hw_app w0 = hw_app w \<and> hw_app w1 = hw_app w' \<and> cx_tx (hc_base ctx') = cx_tx (hc_base ctx)"
  using assms
proof (induction mws arbitrary: ctx w w')
  case (Cons mw mws)
  have "passes_on mw" "mw (foldr (\<lambda>mw h. mw h) mws h) ctx msg w = (Returns e, w')" using Cons.prems by simp_all
  then obtain ctx' w0 w1 where f: "foldr (\<lambda>mw h. mw h) mws h ctx' msg w0 = (Returns e, w1)"
    and eq: "hw_app w0 = hw_app w" "hw_app w1 = hw_app w'" "cx_tx (hc_base ctx') = cx_tx (hc_base ctx)" by (rule passes_onE)
  have "\<forall>mw \<in> set mws. passes_on mw" using Cons.prems(1) by simp
  from Cons.IH [OF this f] show ?case unfolding eq .
qed auto

text \<open>What the middlewares make of the handler's result: a key that was inserted before is a success.\<close>

lemma configured_handler:
  assumes "wrap_handler (messageBusListenerProvider ob m l) h ctx msg w = (Returns e, w')"
  shows "\<exists>ctx' w0 r w1. h ctx' msg w0 = (r, w1) \<and> hw_app w0 = hw_app w \<and> hw_app w1 = hw_app w' \<and> cx_tx (hc_base ctx') = cx_tx (hc_base ctx)
    \<and> (r = Panics \<longrightarrow> e \<noteq> None) \<and> (\<forall>f. r = Returns f \<longrightarrow> e = (if errors_is f (Some ErrAlreadyInserted) then None else f))"
proof -
  let ?mws = "[WithHandlerObservability ob [''requestID''], WithHandlerMetrics m, WithHandlerLogging_mw l LevelInfo LevelError]"
  let ?h = "WithHandlerIdempotencyKeyErrorIgnoring (wrapWithPanicHandler h)"
  have "\<forall>mw \<in> set ?mws. passes_on mw" by (simp add: passes_on_observability passes_on_metrics passes_on_logging)
  moreover have "foldr (\<lambda>mw h. mw h) ?mws ?h ctx msg w = (Returns e, w')"
    using assms by (simp add: wrap_handler_def messageBusListenerProvider_def)
  ultimately obtain ctx' w0 w1 where c: "?h ctx' msg w0 = (Returns e, w1)" "hw_app w0 = hw_app w" "hw_app w1 = hw_app w'"
    "cx_tx (hc_base ctx') = cx_tx (hc_base ctx)" using passes_on_all by blast
  obtain r w2 where h: "h ctx' msg w0 = (r, w2)" by force
  have "hw_app w2 = hw_app w1" "r = Panics \<longrightarrow> e \<noteq> None" "\<forall>f. r = Returns f \<longrightarrow> e = (if errors_is f (Some ErrAlreadyInserted) then None else f)"
    using c(1) h by (auto simp: WithHandlerIdempotencyKeyErrorIgnoring_def WithHandlerErrorMapping_def wrapWithPanicHandler_def
        split: outcome.splits if_splits)
  with h c show ?thesis by metis
qed


section \<open>Deleted users lose their profiles\<close>

abbreviation event_key :: "(uuid \<Rightarrow> string \<Rightarrow> uuid) \<Rightarrow> profile_event_user_deleted \<Rightarrow> uuid" where
  "event_key newSHA1 ev \<equiv> newSHA1 (pe_EventID ev) ''handle_user_deleted''"

definition key_recorded :: "uuid \<Rightarrow> tables \<Rightarrow> bool" where
  "key_recorded k t \<longleftrightarrow> k \<in> ir_key ` set (t_idempotency_key t)"

definition has_profile :: "uuid \<Rightarrow> tables \<Rightarrow> bool" where
  "has_profile i t \<longleftrightarrow> i \<in> pr_user_id ` set (t_user_profile t)"

text \<open>A driver whose errors are neither of the two the handler recognises, and a recorded key stands for a removed profile.\<close>

definition profile_tables_ok :: "uuid \<Rightarrow> uuid \<Rightarrow> dbms \<Rightarrow> bool" where
  "profile_tables_ok k i db \<longleftrightarrow> profile_honest_db db \<and> never_reports ErrAlreadyInserted db
     \<and> (key_recorded k (db_tables db) \<longrightarrow> \<not> has_profile i (db_tables db))"

abbreviation event_done :: "uuid \<Rightarrow> uuid \<Rightarrow> tables \<Rightarrow> bool" where
  "event_done k i t \<equiv> key_recorded k t \<and> \<not> has_profile i t"

lemma event_handled_effect:
  fixes t :: tables and now :: time
  assumes "event_key sha ev = k \<longrightarrow> pe_UserID ev = i"
  defines "t' \<equiv> event_handled sha now ev t"
  shows "(key_recorded k t' \<longleftrightarrow> key_recorded k t \<or> event_key sha ev = k) \<and> (has_profile i t' \<longrightarrow> has_profile i t)
    \<and> (event_key sha ev = k \<longrightarrow> event_done k i t')"
  using assms(1) by (auto simp: t'_def event_handled_def key_recorded_def has_profile_def)

text \<open>The user service answers that the user is deleted, or it fails in a way of its own.\<close>

definition answers_deleted :: "(sql_ctx \<Rightarrow> uuid \<Rightarrow> 'x \<Rightarrow> (go_error + profile_user_data) \<times> 'x) \<Rightarrow> uuid \<Rightarrow> bool" where
  "answers_deleted userService i \<longleftrightarrow> (\<forall>ctx x. reported_deleted userService ctx i x
     \<or> (\<exists>f. fst (userService ctx i x) = Inl f \<and> \<not> error_is f AppErrUserNotFound \<and> \<not> error_is f ErrAlreadyInserted))"

lemma HandleUserDeleted_effect:
  assumes run: "HandleUserDeleted (NewUserProfile userService newSHA1 now) ctx ev (db, x) = (Returns e, db', x')"
    and np: "cx_tx ctx = None" and ok: "profile_tables_ok k i db" and same: "event_key newSHA1 ev = k \<longrightarrow> pe_UserID ev = i"
  shows "profile_tables_ok k i db' \<and> (event_done k i (db_tables db) \<longrightarrow> event_done k i (db_tables db'))
    \<and> (event_key newSHA1 ev = k \<and> answers_deleted userService i \<and> (e = None \<or> errors_is e (Some ErrAlreadyInserted)) \<longrightarrow>
        event_done k i (db_tables db'))"
proof (cases "reported_deleted userService ctx (pe_UserID ev) x")
  case False
  from HandleUserDeleted_other [OF run False] obtain "db' = db" and
    f: "\<And>f. fst (userService ctx (pe_UserID ev) x) = Inl f \<Longrightarrow> e = (if error_is f AppErrUserNotFound then None else Some (errorf ''find user from userservice'' f))"
    by (auto split: if_splits)
  moreover have False if "event_key newSHA1 ev = k" "answers_deleted userService i" "e = None \<or> errors_is e (Some ErrAlreadyInserted)"
  proof -
    from that(1,2) same False obtain y where "fst (userService ctx (pe_UserID ev) x) = Inl y" "\<not> error_is y AppErrUserNotFound" "\<not> error_is y ErrAlreadyInserted"
      unfolding answers_deleted_def by metis
    with f that(3) show False by auto
  qed
  ultimately show ?thesis using ok by blast
next
  case True
  have h: "profile_honest_db db" "never_reports ErrAlreadyInserted db" using ok by (simp_all add: profile_tables_ok_def)
  have h': "profile_honest_db db'" "never_reports ErrAlreadyInserted db'" using h HandleUserDeleted_returns [OF run] by (simp_all add: never_reports_def)
  note eff = event_handled_effect [where sha = newSHA1 and now = now and t = "db_tables db", OF same]
  from HandleUserDeleted_commit [OF np h(1) run True]
  consider (kept) "db_tables db' = db_tables db" "e \<noteq> None" | (handled) "db_tables db' = event_handled newSHA1 now ev (db_tables db)" by blast
  then show ?thesis
  proof cases
    case kept
    have "key_recorded k (db_tables db)" if "event_key newSHA1 ev = k" "errors_is e (Some ErrAlreadyInserted)"
      using HandleUserDeleted_refused [OF np h(2) _ True] run kept(2) that by (cases e) (auto simp: key_recorded_def)
    then show ?thesis using kept ok h' by (auto simp: profile_tables_ok_def)
  next
    case handled
    then show ?thesis using eff ok h' by (auto simp: profile_tables_ok_def)
  qed
qed


lemma user_event_effects:
  assumes L: "user_event_listener j kebab unmarshal ob m l (user_deleted_handler userService newSHA1 clock) ack = Some L"
    and ans: "answers_deleted userService i"
  defines "ev_of \<equiv> \<lambda>cm ev. \<exists>meta. ln_Deserialize L (msg_Payload (cm_Message cm)) = Inr (profile_event_message ev, meta)"
  shows "keeps_effects (\<lambda>cm c. (\<forall>ev. ev_of cm ev \<and> event_key newSHA1 ev = k \<longrightarrow> pe_UserID ev = i) \<and> no_tx (hc_base c))
    (\<lambda>a. profile_tables_ok k i (fst a)) (\<lambda>cm a. (\<exists>ev. ev_of cm ev \<and> event_key newSHA1 ev = k) \<longrightarrow> event_done k i (db_tables (fst a))) L"
  unfolding keeps_effects_def
proof (intro allI impI)
  let ?h = "user_deleted_handler userService newSHA1 clock"
  let ?blank = "profile_event_message \<lparr>pe_EventID = uuid_nil, pe_UserID = uuid_nil\<rparr>"
  fix cm c msg meta hs n e w w'
  assume d: "ln_Deserialize L (msg_Payload (cm_Message cm)) = Inr (msg, meta)" and hs: "ln_handlers L (sm_Type msg) = Some hs" "n < length hs"
    and g: "(\<forall>ev. ev_of cm ev \<and> event_key newSHA1 ev = k \<longrightarrow> pe_UserID ev = i) \<and> no_tx (hc_base c)" and J: "profile_tables_ok k i (fst (hw_app w))"
    and run: "(hs ! n) (withHandlerMetadata c (cm_Message cm) meta) msg w = (Returns e, w')"
  have "Deserialize j [''user.deleted'' \<mapsto> PayloadDeserializerImpl (event_decoder unmarshal)] (msg_Payload (cm_Message cm)) = Inr (msg, meta)"
    using d L by (auto simp: user_event_listener_eq NewListener_def)
  from user_event_deserialized [OF this] obtain ev where msg: "msg = profile_event_message ev" by blast
  with d have evo: "ev_of cm ev' \<longleftrightarrow> ev' = ev" for ev' unfolding ev_of_def by auto
  have "hs ! n = wrap_handler (messageBusListenerProvider ob m l) (typed_handler ''event'' ?blank ?h)"
    using hs L msg by (auto simp: user_event_listener_eq NewListener_def profile_event_message_def)
  from configured_handler [OF run [unfolded this]] obtain ctx' w0 r w1 where t: "typed_handler ''event'' ?blank ?h ctx' msg w0 = (r, w1)"
    and eq: "hw_app w0 = hw_app w" "hw_app w1 = hw_app w'" "cx_tx (hc_base ctx') = cx_tx (hc_base (withHandlerMetadata c (cm_Message cm) meta))"
    and res: "\<forall>f. r = Returns f \<longrightarrow> e = (if errors_is f (Some ErrAlreadyInserted) then None else f)" by blast
  obtain db x db' x' where a: "hw_app w = (db, x)" "hw_app w' = (db', x')" by (metis surj_pair)
  have h: "HandleUserDeleted (NewUserProfile userService newSHA1 (clock x)) (hc_base ctx') ev (db, x) = (r, db', x')"
    using t eq a msg by (auto simp: typed_handler_def user_deleted_handler_def split: prod.splits)
  with HandleUserDeleted_returns obtain f where f: "r = Returns f" by metis
  have tx: "cx_tx (hc_base ctx') = None" using g eq(3) by (simp add: no_tx_def withHandlerMetadata_def)
  have same: "event_key newSHA1 ev = k \<longrightarrow> pe_UserID ev = i" using g evo by blast
  have ok: "profile_tables_ok k i db" using J a by simp
  note eff = HandleUserDeleted_effect [OF h [unfolded f] tx ok same]
  have "e = None \<Longrightarrow> f = None \<or> errors_is f (Some ErrAlreadyInserted)" using res f by (auto split: if_splits)
  with eff ans show "profile_tables_ok k i (fst (hw_app w'))
    \<and> (\<forall>m'. ((\<exists>ev. ev_of m' ev \<and> event_key newSHA1 ev = k) \<longrightarrow> event_done k i (db_tables (fst (hw_app w))))
        \<longrightarrow> (\<exists>ev. ev_of m' ev \<and> event_key newSHA1 ev = k) \<longrightarrow> event_done k i (db_tables (fst (hw_app w'))))
    \<and> (e = None \<longrightarrow> (\<exists>ev. ev_of cm ev \<and> event_key newSHA1 ev = k) \<longrightarrow> event_done k i (db_tables (fst (hw_app w'))))"
    unfolding a fst_conv evo by blast
qed

text \<open>
  C5. The worker of deleted users, from the storage to the profiles: a stored event of a deleted user leaves the storage only when its idempotency key is
  recorded and the profile of the user is gone, and both stays so - under every interleaving of the storage consumer, the listener and its goroutines,
  with retries, repeated deliveries, cancellation and database faults.  Assumed: the user service never takes the user for live or unknown, message identifiers are
  not used twice, no event of another user has the same key, a key that is recorded at the start stands for a removed profile, and the driver reports
  neither of the errors the handler recognises.
\<close>

theorem deleted_users_lose_their_profiles:
  assumes "orders_by_scheduled_at order" and "storage_inv s" and "cx_tx ctx = None" and "cx_tx actx = None"
    and L: "user_event_listener j kebab unmarshal ob m l (user_deleted_handler userService newSHA1 clock)
      (broker_ack (ackq_AcknowledgeResult (consumer_Ack (NewMessageStorage order) actx))) = Some L"
    and runs: "(delivery_step (NewMessageStorage order) (TopicDomainEventUser kebab) batchSize ctx actx L)\<^sup>*\<^sup>* (delivery_start s maxSize w) r"
      "(delivery_step (NewMessageStorage order) (TopicDomainEventUser kebab) batchSize ctx actx L)\<^sup>*\<^sup>* r r'"
    and "(msg, at) \<in> pending (sc_store (dl_consumer r))" and event: "ln_Deserialize L (msg_Payload msg) = Inr (profile_event_message ev, meta)"
    and ans: "answers_deleted userService (pe_UserID ev)" and "profile_tables_ok (event_key newSHA1 ev) (pe_UserID ev) (fst (hw_app w))"
    and unique: "\<forall>cm \<in> set (lr_received r'). (msg_ID (cm_Message cm) = msg_ID msg \<longrightarrow> cm_Message cm = msg)
      \<and> (\<forall>ev' meta'. ln_Deserialize L (msg_Payload (cm_Message cm)) = Inr (profile_event_message ev', meta')
           \<and> event_key newSHA1 ev' = event_key newSHA1 ev \<longrightarrow> pe_UserID ev' = pe_UserID ev)"
  shows "(msg, at) \<in> pending (sc_store (dl_consumer r'))
    \<or> event_done (event_key newSHA1 ev) (pe_UserID ev) (db_tables (fst (hw_app (lr_world r'))))"
proof -
  note sql = sql_message_storage [OF assms(1)]
  have ok: "no_tx ctx" "no_tx actx" "\<And>x. cx_tx x = None \<Longrightarrow> no_tx x" using assms(3,4) by (auto simp: no_tx_def)
  have ack: "ln_ack L = broker_ack (ackq_AcknowledgeResult (consumer_Ack (NewMessageStorage order) actx))"
    using L by (auto simp: user_event_listener_eq NewListener_def)
  have delivered: "message_storage.delivered_ok pending (msg, at) L r'"
    using message_storage.delivery_from_start [OF sql assms(2) ack ok runs, of "(msg, at)"] assms(8) by blast
  note eff = user_event_effects [OF L ans, of "event_key newSHA1 ev"]
  have "effects_ok good (\<lambda>a. profile_tables_ok (event_key newSHA1 ev) (pe_UserID ev) (fst a)) K L (delivery_start s maxSize w)" for good K
    using assms(11) unfolding delivery_start_def by (intro effects_ok_start) simp
  from message_storage.delivery_effects_runs [OF sql rtranclp_trans [OF runs] ack message_storage.delivery_inv_start [OF sql assms(2)] ok eff this]
  have e: "effects_ok (\<lambda>cm c. (\<forall>ev'. (\<exists>meta. ln_Deserialize L (msg_Payload (cm_Message cm)) = Inr (profile_event_message ev', meta))
        \<and> event_key newSHA1 ev' = event_key newSHA1 ev \<longrightarrow> pe_UserID ev' = pe_UserID ev) \<and> no_tx (hc_base c))
      (\<lambda>a. profile_tables_ok (event_key newSHA1 ev) (pe_UserID ev) (fst a))
      (\<lambda>cm a. (\<exists>ev'. (\<exists>meta. ln_Deserialize L (msg_Payload (cm_Message cm)) = Inr (profile_event_message ev', meta))
        \<and> event_key newSHA1 ev' = event_key newSHA1 ev) \<longrightarrow> event_done (event_key newSHA1 ev) (pe_UserID ev) (db_tables (fst a))) L r'"
    using unique by blast
  show ?thesis
  proof (cases "(msg, at) \<in> pending (sc_store (dl_consumer r'))")
    case False
    with delivered obtain k where k: "k < length (lr_procs r')" "msg_ID (cm_Message (lr_received r' ! k)) = msg_ID msg" "cared L r' k"
      unfolding message_storage.delivered_ok_def [OF sql] by (auto simp: entry_key_def)
    have "lr_received r' ! k \<in> set (lr_received r')" using k(1) by (simp only: nth_mem length_map)
    with unique k(2) have same: "cm_Message (lr_received r' ! k) = msg" by blast
    obtain hs where "ln_handlers L (sm_Type (profile_event_message ev)) = Some hs" "hs \<noteq> []"
      using L by (auto simp: user_event_listener_eq NewListener_def profile_event_message_def)
    from cared_effect [OF e k(3,1) _ this] same event show ?thesis by auto
  qed simp
qed


text \<open>An example: one stored event, a user service that knows every user as deleted, and a profile.\<close>

lemma example_handled_anywhere:
  assumes "cx_tx ctx = None"
  shows "fst (HandleUserDeleted (NewUserProfile all_deleted example_sha1 9) ctx example_deleted_event (calm_db profile_tables, 0)) = Returns None"
  using assms
  by (simp add: HandleUserDeleted_def NewUserProfile_def all_deleted_def WithinContext_def NewTransaction_def has_parent_tx_def begin_tx_def
      next_fault_def calm_db_def db_emit_def Let_def locks_then_def handleUserDeletedImpl_def idk_Insert_def idk_storage_Insert_def ExecContext_def run_exec_def
      run_call_def idk_insert_stmt_def tx_done_def route_of_def db_view_def db_write_def apply_log_def profile_DeleteByID_def profile_delete_stmt_def
      tx_Commit_def empty_tables_def example_profile_def example_deleted_event_def)

definition example_event_codec :: json_codec where
  "example_event_codec = example_codec\<lparr>unmarshal_envelope := \<lambda>_. Inr \<lparr>jm_Type = ''user.deleted'', jm_Payload = ''p'', jm_Meta = []\<rparr>\<rparr>"

definition example_event_row :: msg_row where
  "example_event_row = \<lparr>mr_id = 7, mr_topic = TopicDomainEventUser id, mr_key = [], mr_payload = ''p'', mr_scheduled_at = 5\<rparr>"

definition example_event_store :: dbms where
  "example_event_store = calm_db (empty_tables\<lparr>t_message_storage := [example_event_row]\<rparr>)"

definition example_event_world :: "(dbms \<times> nat) handler_world" where
  "example_event_world = \<lparr>hw_app = (calm_db profile_tables, 0), hw_panic = False, hw_obs = [], hw_uuids = (\<lambda>_. 0), hw_used = 0\<rparr>"

definition example_received :: consumer_message where
  "example_received = \<lparr>cm_ptr = 0, cm_Message = message_of example_event_row\<rparr>"

abbreviation example_event_ack where
  "example_event_ack \<equiv> broker_ack (ackq_AcknowledgeResult (consumer_Ack (NewMessageStorage (sort_key mr_scheduled_at)) background))"

abbreviation example_event_handler where
  "example_event_handler \<equiv> user_deleted_handler all_deleted example_sha1 (\<lambda>_. 9)"

definition example_event_listener :: "(dbms \<times> nat, (session_lock, dbms) storage_consumer \<times> ack_nack_queue) listener" where
  "example_event_listener = the (user_event_listener example_event_codec id (\<lambda>_. Inr example_deleted_event)
     \<lparr>obs_logger = LoggerStub, obs_loggingFields = {}\<rparr> [] (log_New LevelInfo) example_event_handler example_event_ack)"

lemma example_event_store_ok:
  "db_healthy example_event_store" "storage_inv example_event_store" "pending example_event_store = {(cm_Message example_received, 5)}"
  "msg_Topic (cm_Message example_received) = TopicDomainEventUser id"
  by (simp_all add: db_healthy_def example_event_store_def calm_db_def empty_tables_def storage_inv_def table_ok_def pending_def example_event_row_def
      message_of_def example_received_def)

lemma example_event_listener_eq:
  "user_event_listener example_event_codec id (\<lambda>_. Inr example_deleted_event) \<lparr>obs_logger = LoggerStub, obs_loggingFields = {}\<rparr> [] (log_New LevelInfo)
     example_event_handler example_event_ack = Some example_event_listener"
  by (simp add: example_event_listener_def user_event_listener_eq)

lemma example_event_deserialized:
  "ln_Deserialize example_event_listener data = Inr (profile_event_message example_deleted_event, [])"
  by (simp add: example_event_listener_def user_event_listener_eq NewListener_def Deserialize_def PayloadDeserializerImpl_def event_decoder_def
      example_event_codec_def)

lemma example_event_handles:
  assumes "no_tx (hc_base h)" and "ln_ack example_event_listener example_received None q = Some (None, q')"
  shows "\<exists>p'. (process_step example_event_listener example_received h)\<^sup>*\<^sup>* (processing_start (example_event_world\<lparr>hw_panic := False\<rparr>) q) p'
    \<and> pr_queue p' = q' \<and> \<not> pr_cancelled p'"
proof -
  let ?mws = "messageBusListenerProvider \<lparr>obs_logger = LoggerStub, obs_loggingFields = {}\<rparr> [] (log_New LevelInfo) :: (dbms \<times> nat) handler_middleware list"
  let ?h = "typed_handler ''event'' (profile_event_message \<lparr>pe_EventID = uuid_nil, pe_UserID = uuid_nil\<rparr>) example_event_handler"
  let ?c = "withHandlerMetadata h (cm_Message example_received) []" and ?msg = "profile_event_message example_deleted_event"
  have hs: "ln_handlers example_event_listener (sm_Type ?msg) = Some [wrap_handler ?mws ?h]"
    by (simp add: example_event_listener_def user_event_listener_eq NewListener_def)
  have "\<forall>mw \<in> set ?mws. library_middleware mw"
    by (simp add: messageBusListenerProvider_def WithHandlerIdempotencyKeyErrorIgnoring_def library_middleware.intros)
  then have "no_panic (wrap_handler ?mws ?h)" by (rule no_panic_wrap_handler)
  then obtain e w' where run: "wrap_handler ?mws ?h ?c ?msg example_event_world = (Returns e, w')" by (rule no_panicE)
  from configured_handler [OF run] obtain ctx' w0 r w1 where t: "?h ctx' ?msg w0 = (r, w1)" "hw_app w0 = hw_app example_event_world"
    "cx_tx (hc_base ctx') = cx_tx (hc_base ?c)" "\<forall>f. r = Returns f \<longrightarrow> e = (if errors_is f (Some ErrAlreadyInserted) then None else f)" by blast
  have "cx_tx (hc_base ctx') = None" using t(3) assms(1) by (simp add: no_tx_def withHandlerMetadata_def)
  from example_handled_anywhere [OF this] t(1,2) have "r = Returns None"
    by (auto simp: typed_handler_def user_deleted_handler_def example_event_world_def split: prod.splits)
  with t(4) have "e = None" by simp
  with run have "wrap_handler ?mws ?h ?c ?msg (example_event_world\<lparr>hw_panic := False\<rparr>) = (Returns None, w')" by (simp add: example_event_world_def)
  from single_handler_processing [OF example_event_deserialized hs this assms(2)] show ?thesis by force
qed

theorem deleted_users_lose_their_profiles_witness:
  "\<exists>r. (delivery_step (NewMessageStorage (sort_key mr_scheduled_at)) (TopicDomainEventUser id) 100 background background example_event_listener)\<^sup>*\<^sup>*
        (delivery_start example_event_store 1 example_event_world) r
      \<and> has_profile 1 (db_tables (fst (hw_app example_event_world)))
      \<and> \<not> has_profile 1 (db_tables (fst (hw_app (lr_world r))))"
proof -
  have ok: "no_tx background" using example_store_ok(4) by (simp add: no_tx_def)
  have ack: "ln_ack example_event_listener = example_event_ack" by (simp add: example_event_listener_def user_event_listener_eq NewListener_def)
  obtain r where r: "(delivery_step (NewMessageStorage (sort_key mr_scheduled_at)) (TopicDomainEventUser id) 100 background background example_event_listener)\<^sup>*\<^sup>*
      (delivery_start example_event_store 1 example_event_world) r"
    "pending (sc_store (dl_consumer r)) = {}" "lr_received r = [example_received]"
    using reliable_storage.delivers_one [OF sql_reliable_storage [OF example_store_ok(1)] example_event_store_ok(1,2) ok ok
        example_event_store_ok(3) order.refl example_event_store_ok(4) ack example_event_handles, of 100]
    by (auto simp: example_event_world_def)
  have start: "(cm_Message example_received, 5)
      \<in> pending (sc_store (dl_consumer (delivery_start example_event_store 1 example_event_world :: (dbms \<times> nat, session_lock, dbms) delivery)))"
    by (simp add: delivery_start_def worker_start_def consumer_start_def consumer_Process_def newStorageConsumer_def example_event_store_ok(3))
  have ans: "answers_deleted all_deleted (pe_UserID example_deleted_event)" by (simp add: answers_deleted_def reported_deleted_def all_deleted_def)
  have tables: "profile_tables_ok (event_key example_sha1 example_deleted_event) (pe_UserID example_deleted_event) (fst (hw_app example_event_world))"
    by (simp add: profile_tables_ok_def never_reports_def key_recorded_def example_event_world_def calm_db_def empty_tables_def)
  have unique: "\<forall>cm \<in> set (lr_received r). (msg_ID (cm_Message cm) = msg_ID (cm_Message example_received) \<longrightarrow> cm_Message cm = cm_Message example_received)
      \<and> (\<forall>ev' meta'. ln_Deserialize example_event_listener (msg_Payload (cm_Message cm)) = Inr (profile_event_message ev', meta')
           \<and> event_key example_sha1 ev' = event_key example_sha1 example_deleted_event \<longrightarrow> pe_UserID ev' = pe_UserID example_deleted_event)"
    unfolding r(3) by (simp add: example_event_deserialized)
  from deleted_users_lose_their_profiles [OF example_store_ok(1) example_event_store_ok(2) example_store_ok(4,4) example_event_listener_eq
      rtranclp.rtrancl_refl r(1) start example_event_deserialized ans tables unique] r(2)
  have "\<not> has_profile 1 (db_tables (fst (hw_app (lr_world r))))" by (simp add: example_deleted_event_def)
  moreover have "has_profile 1 (db_tables (fst (hw_app example_event_world)))"
    by (simp add: has_profile_def example_event_world_def calm_db_def empty_tables_def example_profile_def)
  ultimately show ?thesis using r(1) by blast
qed

end
