(* ===== verification/Worker.thy ===== *)
theory Worker
  imports Log_Model "HOL-Library.Multiset"
begin

text \<open>
  \<^verbatim>\<open>pkg/worker\<close> (pool, group, periodical jobs) and \<^verbatim>\<open>pkg/cmd/run.go\<close>.

  A pool with its group is a step relation over the callers of \<^verbatim>\<open>Do\<close> and the goroutines it starts.  A job
  is a name; when it returns, and what, is open.  The condition variable has its waiters: a caller that
  finds no worker goes to sleep under the lock, a signal wakes one sleeper, if there is one, and the woken
  caller looks at the counter again.  A goroutine's way from the return of its job to its end is a sequence of
  steps, each one visible to the others: the error of the job with the cancellation it brings, the
  \<^verbatim>\<open>Done\<close> of the group, the \<^verbatim>\<open>Done\<close> of the pool, the counter given back, the signal.
\<close>

section \<open>Pool\<close>

definition MaxWorkersCountNumCPU :: int where
  "MaxWorkersCountNumCPU = -1"

definition MaxWorkersCountUnlimited :: int where
  "MaxWorkersCountUnlimited = 0"

text \<open>
  The counters of the pool and where its callers and goroutines are: \<open>pl_waiting\<close> the callers of \<^verbatim>\<open>Do\<close> with
  no worker yet, \<open>pl_sleeping\<close> those of them asleep in \<^verbatim>\<open>workerAvailable.Wait()\<close>, \<open>pl_running\<close> the jobs
  inside \<^verbatim>\<open>job()\<close>, then the number of goroutines before \<^verbatim>\<open>jobCompleted.Done()\<close>, before the counter is given
  back, and before the signal.
\<close>

record 'j pool =
  pl_jobCompleted :: nat
  pl_currentWorkers :: int
  pl_maxWorkers :: int
  pl_waiting :: "'j multiset"
  pl_sleeping :: "'j multiset"
  pl_running :: "'j multiset"
  pl_returned :: nat
  pl_finishing :: nat
  pl_signalling :: nat

text \<open>\<open>numCPU\<close> is \<^verbatim>\<open>runtime.NumCPU()\<close>.\<close>

definition NewPool :: "int \<Rightarrow> int \<Rightarrow> 'j pool" where
  "NewPool numCPU maxWorkers =
     \<lparr>pl_jobCompleted = 0, pl_currentWorkers = 0,
      pl_maxWorkers = (if maxWorkers \<le> MaxWorkersCountNumCPU then numCPU else maxWorkers),
      pl_waiting = {#}, pl_sleeping = {#}, pl_running = {#}, pl_returned = 0, pl_finishing = 0, pl_signalling = 0\<rparr>"

text \<open>\<^verbatim>\<open>Do\<close> is entered; it goes on when a worker is available and starts the goroutine, else it sleeps.\<close>

definition pool_Do :: "'j \<Rightarrow> 'j pool \<Rightarrow> 'j pool" where
  "pool_Do j p = p\<lparr>pl_jobCompleted := Suc (pl_jobCompleted p), pl_waiting := add_mset j (pl_waiting p)\<rparr>"

definition worker_available :: "'j pool \<Rightarrow> bool" where
  "worker_available p \<longleftrightarrow> \<not> (0 < pl_maxWorkers p \<and> pl_maxWorkers p \<le> pl_currentWorkers p)"

definition pool_awake :: "'j pool \<Rightarrow> 'j multiset" where
  "pool_awake p = pl_waiting p - pl_sleeping p"

definition pool_sleep :: "'j \<Rightarrow> 'j pool \<Rightarrow> 'j pool" where
  "pool_sleep j p = p\<lparr>pl_sleeping := add_mset j (pl_sleeping p)\<rparr>"

definition pool_start :: "'j \<Rightarrow> 'j pool \<Rightarrow> 'j pool" where
  "pool_start j p =
     p\<lparr>pl_currentWorkers := (if 0 < pl_maxWorkers p then pl_currentWorkers p + 1 else pl_currentWorkers p),
       pl_waiting := pl_waiting p - {#j#}, pl_running := add_mset j (pl_running p)\<rparr>"

definition pool_job_returned :: "'j \<Rightarrow> 'j pool \<Rightarrow> 'j pool" where
  "pool_job_returned j p = p\<lparr>pl_running := pl_running p - {#j#}, pl_returned := Suc (pl_returned p)\<rparr>"

definition pool_completed :: "'j pool \<Rightarrow> 'j pool" where
  "pool_completed p =
     p\<lparr>pl_jobCompleted := pl_jobCompleted p - 1, pl_returned := pl_returned p - 1,
       pl_finishing := (if 0 < pl_maxWorkers p then Suc (pl_finishing p) else pl_finishing p)\<rparr>"

definition pool_release :: "'j pool \<Rightarrow> 'j pool" where
  "pool_release p = p\<lparr>pl_currentWorkers := pl_currentWorkers p - 1, pl_finishing := pl_finishing p - 1,
     pl_signalling := Suc (pl_signalling p)\<rparr>"

text \<open>\<^verbatim>\<open>Signal\<close> wakes the sleeper \<open>woken\<close>, nobody if all are awake; which one is the runtime's choice.\<close>

definition pool_signal :: "'j option \<Rightarrow> 'j pool \<Rightarrow> 'j pool" where
  "pool_signal woken p = p\<lparr>pl_signalling := pl_signalling p - 1,
     pl_sleeping := (case woken of None \<Rightarrow> pl_sleeping p | Some j \<Rightarrow> pl_sleeping p - {#j#})\<rparr>"

definition may_wake :: "'j option \<Rightarrow> 'j pool \<Rightarrow> bool" where
  "may_wake woken p \<longleftrightarrow> (case woken of None \<Rightarrow> pl_sleeping p = {#} | Some j \<Rightarrow> j \<in># pl_sleeping p)"

section \<open>Group\<close>

text \<open>
  \<open>gr_errChan\<close> is the channel of capacity one, \<open>gr_completed\<close> the jobs that returned, in order, and
  \<open>gr_handled\<close> those of them that have not called \<^verbatim>\<open>wg.Done()\<close> yet.
\<close>

record 'j group =
  gr_pool :: "'j pool"
  gr_wg :: nat
  gr_cancelled :: bool
  gr_errChan :: err
  gr_closed :: bool
  gr_errResult :: err
  gr_handled :: "'j multiset"
  gr_completed :: "('j \<times> err) list"

definition WithinGroup :: "'j pool \<Rightarrow> 'j group" where
  "WithinGroup p = \<lparr>gr_pool = p, gr_wg = 0, gr_cancelled = False, gr_errChan = None, gr_closed = False,
     gr_errResult = None, gr_handled = {#}, gr_completed = []\<rparr>"

definition NewGroup :: "int \<Rightarrow> 'j group" where
  "NewGroup numCPU = WithinGroup (NewPool numCPU MaxWorkersCountUnlimited)"

text \<open>\<^verbatim>\<open>handleErr\<close>: the first error goes into the channel and cancels the context.\<close>

definition handleErr :: "err \<Rightarrow> 'j group \<Rightarrow> 'j group" where
  "handleErr e g = (if e = None \<or> gr_errChan g \<noteq> None then g else g\<lparr>gr_errChan := e, gr_cancelled := True\<rparr>)"

definition group_Do :: "'j \<Rightarrow> 'j group \<Rightarrow> 'j group" where
  "group_Do j g = g\<lparr>gr_wg := Suc (gr_wg g), gr_pool := pool_Do j (gr_pool g)\<rparr>"

text \<open>The function handed to the pool: \<^verbatim>\<open>handleErr(job())\<close>, then \<^verbatim>\<open>wg.Done()\<close> and back to the pool's goroutine.\<close>

definition group_job_returns :: "'j \<Rightarrow> err \<Rightarrow> 'j group \<Rightarrow> 'j group" where
  "group_job_returns j e g =
     (let g' = handleErr e g
      in g'\<lparr>gr_handled := add_mset j (gr_handled g'), gr_completed := gr_completed g' @ [(j, e)]\<rparr>)"

definition group_job_done :: "'j \<Rightarrow> 'j group \<Rightarrow> 'j group" where
  "group_job_done j g = g\<lparr>gr_wg := gr_wg g - 1, gr_handled := gr_handled g - {#j#},
     gr_pool := pool_job_returned j (gr_pool g)\<rparr>"

text \<open>\<^verbatim>\<open>Wait\<close>, once the wait group is at zero; the first call reads the channel.\<close>

definition group_Wait :: "'j group \<Rightarrow> err \<times> 'j group" where
  "group_Wait g =
     (if gr_closed g then (gr_errResult g, g)
      else (gr_errChan g, g\<lparr>gr_closed := True, gr_cancelled := True, gr_errResult := gr_errChan g, gr_errChan := None\<rparr>))"

text \<open>The steps of the callers inside \<^verbatim>\<open>Do\<close> and of the goroutines; with \<open>do\<close>, a new call, the steps of a group.\<close>

inductive group_work :: "'j group \<Rightarrow> 'j group \<Rightarrow> bool" where
  start: "j \<in># pool_awake (gr_pool g) \<Longrightarrow> worker_available (gr_pool g) \<Longrightarrow>
    group_work g (g\<lparr>gr_pool := pool_start j (gr_pool g)\<rparr>)"
| sleep: "j \<in># pool_awake (gr_pool g) \<Longrightarrow> \<not> worker_available (gr_pool g) \<Longrightarrow>
    group_work g (g\<lparr>gr_pool := pool_sleep j (gr_pool g)\<rparr>)"
| returns: "j \<in># pl_running (gr_pool g) - gr_handled g \<Longrightarrow> group_work g (group_job_returns j e g)"
| wg_done: "j \<in># gr_handled g \<Longrightarrow> group_work g (group_job_done j g)"
| completed: "0 < pl_returned (gr_pool g) \<Longrightarrow> group_work g (g\<lparr>gr_pool := pool_completed (gr_pool g)\<rparr>)"
| release: "0 < pl_finishing (gr_pool g) \<Longrightarrow> group_work g (g\<lparr>gr_pool := pool_release (gr_pool g)\<rparr>)"
| signal: "0 < pl_signalling (gr_pool g) \<Longrightarrow> may_wake woken (gr_pool g) \<Longrightarrow>
    group_work g (g\<lparr>gr_pool := pool_signal woken (gr_pool g)\<rparr>)"

inductive group_step :: "'j group \<Rightarrow> 'j group \<Rightarrow> bool" where
  do: "group_step g (group_Do j g)"
| work: "group_work g g' \<Longrightarrow> group_step g g'"

section \<open>Invariant\<close>

text \<open>
  The last part says that no wake-up is lost: while somebody sleeps, every free worker has a signal on
  its way or an awake caller that has still to look at the counter.
\<close>

definition pool_inv :: "'j pool \<Rightarrow> bool" where
  "pool_inv p \<longleftrightarrow>
     pl_jobCompleted p = size (pl_waiting p) + size (pl_running p) + pl_returned p
     \<and> pl_sleeping p \<subseteq># pl_waiting p
     \<and> (if 0 < pl_maxWorkers p
        then pl_currentWorkers p = int (size (pl_running p) + pl_returned p + pl_finishing p)
          \<and> pl_currentWorkers p \<le> pl_maxWorkers p
          \<and> (pl_sleeping p \<noteq> {#} \<longrightarrow>
              pl_maxWorkers p - pl_currentWorkers p \<le> int (pl_signalling p + size (pool_awake p)))
        else pl_currentWorkers p = 0 \<and> pl_finishing p = 0 \<and> pl_signalling p = 0 \<and> pl_sleeping p = {#})"

text \<open>The first error among the results.\<close>

fun first_error :: "('j \<times> err) list \<Rightarrow> err" where
  "first_error [] = None"
| "first_error ((j, e) # rs) = (if e = None then first_error rs else e)"

definition group_inv :: "'j group \<Rightarrow> bool" where
  "group_inv g \<longleftrightarrow> pool_inv (gr_pool g) \<and> gr_wg g = size (pl_waiting (gr_pool g)) + size (pl_running (gr_pool g))
     \<and> gr_handled g \<subseteq># pl_running (gr_pool g)
     \<and> \<not> gr_closed g \<and> gr_errChan g = first_error (gr_completed g)
     \<and> (gr_cancelled g \<longleftrightarrow> first_error (gr_completed g) \<noteq> None)"

lemma first_error_snoc:
  "first_error (rs @ [(j, e)]) = (if first_error rs = None then e else first_error rs)"
  by (induction rs rule: first_error.induct) auto

lemma first_error_None: "first_error rs = None \<longleftrightarrow> (\<forall>r \<in> set rs. snd r = None)"
  by (induction rs rule: first_error.induct) auto

lemmas pool_defs = pool_Do_def pool_start_def pool_sleep_def pool_job_returned_def pool_completed_def pool_release_def
  pool_signal_def

lemma size_remove: "j \<in># M \<Longrightarrow> Suc (size (M - {#j#})) = size M"
  by (metis insert_DiffM size_add_mset)

text \<open>A part \<open>S\<close> of \<open>W\<close> and the rest of it, when an element of the rest, or of the part, moves.\<close>

lemma rest_remove:
  assumes "j \<in># W - S" and "S \<subseteq># W"
  shows "W - S = add_mset j (W - add_mset j S) \<and> add_mset j S \<subseteq># W \<and> S \<subseteq># W - {#j#}"
proof -
  from assms(2) obtain R where W: "W = S + R" by (auto simp: mset_subset_eq_exists_conv)
  with assms(1) obtain R' where "R = add_mset j R'" by (metis add_diff_cancel_left' multi_member_split)
  with W show ?thesis by simp
qed

lemma rest_add:
  assumes "S \<subseteq># W"
  shows "S \<subseteq># add_mset j W \<and> add_mset j W - S = add_mset j (W - S)"
proof -
  from assms obtain R where W: "W = S + R" by (auto simp: mset_subset_eq_exists_conv)
  then have "add_mset j W = S + add_mset j R" by simp
  with W show ?thesis by (metis add_diff_cancel_left' mset_subset_eq_add_left)
qed

lemma part_to_rest:
  assumes "j \<in># S" and "S \<subseteq># W"
  shows "S - {#j#} \<subseteq># W \<and> W - (S - {#j#}) = add_mset j (W - S)"
proof -
  from assms(2) obtain R where W: "W = S + R" by (auto simp: mset_subset_eq_exists_conv)
  with assms(1) have "W = (S - {#j#}) + add_mset j R" by simp
  with W show ?thesis by (metis add_diff_cancel_left' mset_subset_eq_add_left)
qed

lemma part_remove:
  assumes "j \<in># S" and "S \<subseteq># W"
  shows "j \<in># W \<and> S - {#j#} \<subseteq># W - {#j#} \<and> W - {#j#} - (S - {#j#}) = W - S"
proof -
  from assms(2) obtain R where W: "W = S + R" by (auto simp: mset_subset_eq_exists_conv)
  from assms(1) obtain S' where "S = add_mset j S'" by (metis multi_member_split)
  with W show ?thesis by simp
qed

lemma pool_awake_waiting: "j \<in># pool_awake p \<Longrightarrow> j \<in># pl_waiting p"
  by (auto simp: pool_awake_def dest: in_diffD)

lemma pool_inv_Do: "pool_inv p \<Longrightarrow> pool_inv (pool_Do j p)"
  using rest_add [of "pl_sleeping p" "pl_waiting p" j]
  by (auto simp: pool_inv_def pool_Do_def pool_awake_def split: if_splits)

lemma pool_inv_start:
  assumes "pool_inv p" and j: "j \<in># pool_awake p" and "worker_available p"
  shows "pool_inv (pool_start j p)"
  using assms rest_remove [of j "pl_waiting p" "pl_sleeping p"] size_remove [OF pool_awake_waiting [OF j]]
  by (auto simp: pool_inv_def pool_start_def pool_awake_def worker_available_def split: if_splits)

lemma pool_inv_sleep:
  assumes "pool_inv p" and "j \<in># pool_awake p" and "\<not> worker_available p"
  shows "pool_inv (pool_sleep j p)"
  using assms rest_remove [of j "pl_waiting p" "pl_sleeping p"]
  by (auto simp: pool_inv_def pool_sleep_def pool_awake_def worker_available_def)

lemma pool_inv_returned: "pool_inv p \<Longrightarrow> j \<in># pl_running p \<Longrightarrow> pool_inv (pool_job_returned j p)"
  using size_remove [of j "pl_running p"] by (auto simp: pool_inv_def pool_job_returned_def pool_awake_def split: if_splits)

lemma pool_inv_completed: "pool_inv p \<Longrightarrow> 0 < pl_returned p \<Longrightarrow> pool_inv (pool_completed p)"
  by (auto simp: pool_inv_def pool_completed_def pool_awake_def split: if_splits)

lemma pool_inv_release: "pool_inv p \<Longrightarrow> 0 < pl_finishing p \<Longrightarrow> pool_inv (pool_release p)"
  by (auto simp: pool_inv_def pool_release_def pool_awake_def split: if_splits)

lemma pool_inv_signal:
  assumes "pool_inv p" and "0 < pl_signalling p" and "may_wake woken p"
  shows "pool_inv (pool_signal woken p)"
  using assms part_to_rest [of _ "pl_sleeping p" "pl_waiting p"]
  by (cases woken) (auto simp: pool_inv_def pool_signal_def may_wake_def pool_awake_def split: if_splits)

lemma group_work_inv:
  assumes "group_work g g'" and "group_inv g"
  shows "group_inv g'"
  using assms
proof (induction rule: group_work.induct)
  case (start j g)
  then show ?case
    using pool_inv_start [of "gr_pool g" j] size_remove [OF pool_awake_waiting [OF start(1)]]
      rest_add [of "gr_handled g" "pl_running (gr_pool g)" j] by (simp add: group_inv_def pool_start_def)
next
  case (sleep j g)
  then show ?case using pool_inv_sleep [of "gr_pool g" j] by (simp add: group_inv_def pool_sleep_def)
next
  case (returns j g e)
  then show ?case using rest_remove [OF returns(1)]
    by (auto simp: group_inv_def group_job_returns_def handleErr_def Let_def first_error_snoc)
next
  case (wg_done j g)
  then have "j \<in># pl_running (gr_pool g)" "gr_handled g - {#j#} \<subseteq># pl_running (gr_pool g) - {#j#}"
    using part_remove [OF wg_done(1)] by (simp_all add: group_inv_def)
  with wg_done pool_inv_returned [of "gr_pool g" j] size_remove [of j "pl_running (gr_pool g)"] show ?case
    by (simp add: group_inv_def group_job_done_def pool_job_returned_def)
next
  case (completed g)
  then show ?case using pool_inv_completed [of "gr_pool g"] by (simp add: group_inv_def pool_completed_def)
next
  case (release g)
  then show ?case using pool_inv_release [of "gr_pool g"] by (simp add: group_inv_def pool_release_def)
next
  case (signal g woken)
  then show ?case using pool_inv_signal [of "gr_pool g" woken] by (simp add: group_inv_def pool_signal_def)
qed

lemma group_step_inv:
  assumes "group_step g g'" and "group_inv g"
  shows "group_inv g'"
  using assms
proof (induction rule: group_step.induct)
  case (do g j)
  then show ?case using pool_inv_Do [of "gr_pool g" j] by (simp add: group_inv_def group_Do_def pool_Do_def)
next
  case (work g g')
  then show ?case by (rule group_work_inv)
qed

lemma group_reaches_inv:
  assumes "group_step\<^sup>*\<^sup>* (WithinGroup (NewPool numCPU maxWorkers)) g" and "0 < numCPU"
  shows "group_inv g"
  using assms(1)
proof (induction rule: rtranclp_induct)
  case base
  show ?case by (auto simp: group_inv_def pool_inv_def WithinGroup_def NewPool_def)
next
  case (step y z)
  then show ?case by (blast intro: group_step_inv)
qed

lemma group_reaches_max:
  assumes "group_step\<^sup>*\<^sup>* (WithinGroup p) g"
  shows "pl_maxWorkers (gr_pool g) = pl_maxWorkers p"
  using assms
proof (induction rule: rtranclp_induct)
  case base
  show ?case by (simp add: WithinGroup_def)
next
  case (step y z)
  then show ?case
    by (auto elim!: group_step.cases group_work.cases
        simp: group_Do_def group_job_returns_def group_job_done_def handleErr_def pool_defs Let_def)
qed

text \<open>
  C29. In every run of a group over a pool: at most \<open>maxWorkers\<close> jobs run at a time when the pool has a limit,
  the wait group counts the jobs handed in that have not called \<^verbatim>\<open>Done\<close>, and when it is at zero \<^verbatim>\<open>Wait\<close> returns the
  error of the first job that failed - nil exactly if none has - and again the same on the next
  call.  The context of the group is cancelled as soon as one job failed, not before.
\<close>

theorem worker_group_correct:
  assumes "group_step\<^sup>*\<^sup>* (WithinGroup (NewPool numCPU maxWorkers)) g" and "0 < numCPU"
  shows "(0 < pl_maxWorkers (gr_pool g) \<longrightarrow> int (size (pl_running (gr_pool g))) \<le> pl_maxWorkers (gr_pool g))
    \<and> pl_maxWorkers (gr_pool g) = (if maxWorkers \<le> -1 then numCPU else maxWorkers)
    \<and> gr_wg g = size (pl_waiting (gr_pool g)) + size (pl_running (gr_pool g))
    \<and> (gr_cancelled g \<longleftrightarrow> (\<exists>r \<in> set (gr_completed g). snd r \<noteq> None))
    \<and> fst (group_Wait g) = first_error (gr_completed g)
    \<and> fst (group_Wait (snd (group_Wait g))) = fst (group_Wait g)
    \<and> (fst (group_Wait g) = None \<longleftrightarrow> (\<forall>r \<in> set (gr_completed g). snd r = None))"
proof -
  note inv = group_reaches_inv [OF assms] and mx = group_reaches_max [OF assms(1)]
  have p: "pool_inv (gr_pool g)" using inv by (simp add: group_inv_def)
  have b: "0 < pl_maxWorkers (gr_pool g) \<longrightarrow> int (size (pl_running (gr_pool g))) \<le> pl_maxWorkers (gr_pool g)"
    using p by (auto simp: pool_inv_def)
  have m: "pl_maxWorkers (gr_pool g) = (if maxWorkers \<le> -1 then numCPU else maxWorkers)"
    using mx by (simp add: NewPool_def MaxWorkersCountNumCPU_def)
  have w: "gr_wg g = size (pl_waiting (gr_pool g)) + size (pl_running (gr_pool g))"
    using inv by (simp add: group_inv_def)
  have c: "gr_cancelled g \<longleftrightarrow> (\<exists>r \<in> set (gr_completed g). snd r \<noteq> None)"
    using inv by (simp add: group_inv_def first_error_None)
  have r: "fst (group_Wait g) = first_error (gr_completed g)" "fst (group_Wait (snd (group_Wait g))) = fst (group_Wait g)"
    using inv by (simp_all add: group_inv_def group_Wait_def)
  show ?thesis using b m w c r by (simp add: first_error_None)
qed

section \<open>Progress\<close>

text \<open>What is left to do: every step of the work lowers it.\<close>

definition group_left :: "'j group \<Rightarrow> nat" where
  "group_left g = (let p = gr_pool g
     in 8 * size (pool_awake p) + 7 * size (pl_sleeping p) + 6 * size (pl_running p - gr_handled g) + 5 * size (gr_handled g)
        + 4 * pl_returned p + 3 * pl_finishing p + 2 * pl_signalling p)"

text \<open>The jobs that have not returned.\<close>

definition group_open :: "'j group \<Rightarrow> 'j multiset" where
  "group_open g = pl_waiting (gr_pool g) + (pl_running (gr_pool g) - gr_handled g)"

lemma group_work_left:
  assumes "group_work g g'" and "group_inv g"
  shows "group_left g' < group_left g
    \<and> mset (map fst (gr_completed g')) + group_open g' = mset (map fst (gr_completed g)) + group_open g"
  using assms
proof (induction rule: group_work.induct)
  case (start j g)
  let ?p = "gr_pool g"
  have s: "pl_sleeping ?p \<subseteq># pl_waiting ?p" "gr_handled g \<subseteq># pl_running ?p" using start(3) by (simp_all add: group_inv_def pool_inv_def)
  note a = start(1) [unfolded pool_awake_def]
  have aw: "pool_awake ?p = add_mset j (pool_awake (pool_start j ?p))"
    using rest_remove [OF a s(1)] by (simp add: pool_awake_def pool_start_def)
  have r: "pl_running (pool_start j ?p) - gr_handled g = add_mset j (pl_running ?p - gr_handled g)"
    using rest_add [OF s(2)] by (simp add: pool_start_def)
  have w: "pl_waiting ?p = add_mset j (pl_waiting (pool_start j ?p))"
    using pool_awake_waiting [OF start(1)] by (simp add: pool_start_def)
  have o: "pl_sleeping (pool_start j ?p) = pl_sleeping ?p" "pl_returned (pool_start j ?p) = pl_returned ?p"
    "pl_finishing (pool_start j ?p) = pl_finishing ?p" "pl_signalling (pool_start j ?p) = pl_signalling ?p" by (simp_all add: pool_start_def)
  show ?case by (simp add: group_left_def group_open_def Let_def aw r w o)
next
  case (sleep j g)
  then show ?case using rest_remove [of j "pl_waiting (gr_pool g)" "pl_sleeping (gr_pool g)"]
    by (simp add: group_left_def group_open_def Let_def pool_sleep_def pool_awake_def group_inv_def pool_inv_def)
next
  case (returns j g e)
  then have h: "pl_running (gr_pool g) - gr_handled g = add_mset j (pl_running (gr_pool g) - add_mset j (gr_handled g))"
    using rest_remove [OF returns(1)] by (simp add: group_inv_def)
  have "gr_pool (group_job_returns j e g) = gr_pool g" "gr_handled (group_job_returns j e g) = add_mset j (gr_handled g)"
    "gr_completed (group_job_returns j e g) = gr_completed g @ [(j, e)]"
    by (simp_all add: group_job_returns_def handleErr_def Let_def)
  then show ?case by (simp add: group_left_def group_open_def Let_def h)
next
  case (wg_done j g)
  then show ?case using part_remove [OF wg_done(1)] size_remove [OF wg_done(1)]
    by (simp add: group_left_def group_open_def Let_def group_job_done_def pool_job_returned_def pool_awake_def group_inv_def)
next
  case (completed g)
  then show ?case by (simp add: group_left_def group_open_def Let_def pool_completed_def pool_awake_def) arith
next
  case (release g)
  then show ?case by (simp add: group_left_def group_open_def Let_def pool_release_def pool_awake_def)
next
  case (signal g woken)
  then show ?case
    using part_to_rest [of "the woken" "pl_sleeping (gr_pool g)" "pl_waiting (gr_pool g)"] size_remove [of "the woken" "pl_sleeping (gr_pool g)"]
    by (cases woken) (auto simp: group_left_def group_open_def Let_def pool_signal_def pool_awake_def may_wake_def group_inv_def pool_inv_def)
qed

lemma group_works:
  assumes "group_work\<^sup>*\<^sup>* g g'" and "group_inv g"
  shows "group_inv g' \<and> mset (map fst (gr_completed g')) + group_open g' = mset (map fst (gr_completed g)) + group_open g"
  using assms(1)
proof (induction rule: rtranclp_induct)
  case base
  show ?case using assms(2) by simp
next
  case (step y z)
  then show ?case using group_work_inv [of y z] group_work_left [of y z] by simp
qed

text \<open>A group in which nobody can move has nothing left: a caller can look or sleep, and who sleeps is not forgotten.\<close>

lemma group_stuck_done:
  assumes "group_inv g" and stuck: "\<nexists>g'. group_work g g'"
  shows "group_open g = {#} \<and> gr_wg g = 0 \<and> pl_jobCompleted (gr_pool g) = 0 \<and> pl_currentWorkers (gr_pool g) = 0"
proof -
  let ?p = "gr_pool g"
  have p: "pool_inv ?p" and sub: "pl_sleeping ?p \<subseteq># pl_waiting ?p" using assms(1) unfolding group_inv_def pool_inv_def by blast+
  have handled: "gr_handled g = {#}" using stuck group_work.wg_done by (metis multiset_nonemptyE)
  have run: "pl_running ?p = {#}" using stuck group_work.returns [of _ g None] handled by (metis diff_empty multiset_nonemptyE)
  have awake: "pool_awake ?p = {#}" using stuck group_work.start [of _ g] group_work.sleep [of _ g] by (metis multiset_nonemptyE)
  have ret: "pl_returned ?p = 0" and fin: "pl_finishing ?p = 0" using stuck group_work.completed [of g] group_work.release [of g] by auto
  have "\<exists>woken. may_wake woken ?p" by (metis may_wake_def multiset_nonemptyE option.case)
  then have sig: "pl_signalling ?p = 0" using stuck group_work.signal [of g] by blast
  have sl: "pl_sleeping ?p = {#}"
    using p run awake ret fin sig unfolding pool_inv_def by (auto split: if_splits)
  with awake have w: "pl_waiting ?p = {#}" by (simp add: pool_awake_def)
  show ?thesis using assms(1) p run w ret fin by (auto simp: group_inv_def pool_inv_def group_open_def split: if_splits)
qed

lemma group_work_ends:
  assumes "group_inv g"
  shows "\<exists>g'. group_work\<^sup>*\<^sup>* g g' \<and> (\<nexists>g''. group_work g' g'')"
  using assms
proof (induction "group_left g" arbitrary: g rule: less_induct)
  case less
  show ?case
  proof (cases "\<exists>g'. group_work g g'")
    case True
    then obtain g1 where g1: "group_work g g1" by blast
    with less.hyps [of g1] group_work_left [OF g1 less.prems] group_work_inv [OF g1 less.prems]
    obtain g' where "group_work\<^sup>*\<^sup>* g1 g'" "\<nexists>g''. group_work g' g''" by blast
    with g1 show ?thesis by (meson converse_rtranclp_into_rtranclp)
  qed auto
qed

lemma group_work_finite:
  assumes "group_inv (f 0)" and "\<And>i. group_work (f i) (f (Suc i))"
  shows False
proof -
  have inv: "group_inv (f i)" for i using assms by (induction i) (auto intro: group_work_inv)
  have "group_left (f i) + i \<le> group_left (f 0)" for i
  proof (induction i)
    case (Suc i)
    then show ?case using group_work_left [OF assms(2) [of i] inv [of i]] by simp
  qed simp
  from this [of "Suc (group_left (f 0))"] show False by simp
qed

text \<open>
  C30. No caller of \<^verbatim>\<open>Do\<close> waits for ever, whatever the interleaving and whoever a signal wakes: once no new jobs
  come, from every reachable state each run of the callers and goroutines ends - it has no infinite
  continuation, and one that ends exists - and where it ends, with nobody able to move, every job that
  waited or ran has returned, each once, the wait groups are at zero and all workers are given back.
  A counter not given back, a missing signal or a signal nobody hears would leave a caller asleep.
\<close>

theorem worker_pool_progress:
  assumes "group_step\<^sup>*\<^sup>* (WithinGroup (NewPool numCPU maxWorkers)) g" and "0 < numCPU"
  shows "(\<nexists>f. f 0 = g \<and> (\<forall>i. group_work (f i) (f (Suc i))))
    \<and> (\<exists>g'. group_work\<^sup>*\<^sup>* g g' \<and> (\<nexists>g''. group_work g' g''))
    \<and> (\<forall>g'. group_work\<^sup>*\<^sup>* g g' \<and> (\<nexists>g''. group_work g' g'') \<longrightarrow>
         mset (map fst (gr_completed g')) = mset (map fst (gr_completed g)) + pl_waiting (gr_pool g) + (pl_running (gr_pool g) - gr_handled g)
         \<and> pl_waiting (gr_pool g') = {#} \<and> pl_running (gr_pool g') = {#}
         \<and> gr_wg g' = 0 \<and> pl_jobCompleted (gr_pool g') = 0 \<and> pl_currentWorkers (gr_pool g') = 0)"
proof (intro conjI allI impI)
  note inv = group_reaches_inv [OF assms]
  show "\<nexists>f. f 0 = g \<and> (\<forall>i. group_work (f i) (f (Suc i)))" using group_work_finite inv by blast
  show "\<exists>g'. group_work\<^sup>*\<^sup>* g g' \<and> (\<nexists>g''. group_work g' g'')" by (rule group_work_ends [OF inv])
  fix g' assume g': "group_work\<^sup>*\<^sup>* g g' \<and> (\<nexists>g''. group_work g' g'')"
  note works = group_works [OF conjunct1 [OF g'] inv]
  note fin = group_stuck_done [OF conjunct1 [OF works] conjunct2 [OF g']]
  show "mset (map fst (gr_completed g')) = mset (map fst (gr_completed g)) + pl_waiting (gr_pool g) + (pl_running (gr_pool g) - gr_handled g)"
    using works fin by (simp add: group_open_def [of g] ac_simps)
  show "pl_waiting (gr_pool g') = {#}" "pl_running (gr_pool g') = {#}" using works fin by (simp_all add: group_inv_def)
  show "gr_wg g' = 0" "pl_jobCompleted (gr_pool g') = 0" "pl_currentWorkers (gr_pool g') = 0" using fin by simp_all
qed

definition example_group :: "nat group" where
  "example_group = group_Do 1 (group_Do 0 (WithinGroup (NewPool 4 1)))"

lemma example_group_reached: "group_step\<^sup>*\<^sup>* (WithinGroup (NewPool 4 1)) example_group"
  unfolding example_group_def by (meson group_step.do rtranclp.rtrancl_into_rtrancl rtranclp.rtrancl_refl)

text \<open>One worker, two jobs: the first runs, the caller of the second sleeps.\<close>

definition example_asleep :: "nat group" where
  "example_asleep = (let g = example_group\<lparr>gr_pool := pool_start 0 (gr_pool example_group)\<rparr>
     in g\<lparr>gr_pool := pool_sleep 1 (gr_pool g)\<rparr>)"

lemma example_group_starts: "group_step example_group (example_group\<lparr>gr_pool := pool_start 0 (gr_pool example_group)\<rparr>)"
  by (rule group_step.work, rule group_work.start)
    (simp_all add: example_group_def group_Do_def WithinGroup_def NewPool_def pool_Do_def pool_awake_def
        worker_available_def MaxWorkersCountNumCPU_def)

lemma example_asleep_reached: "group_step\<^sup>*\<^sup>* (WithinGroup (NewPool 4 1)) example_asleep"
proof -
  let ?g = "example_group\<lparr>gr_pool := pool_start 0 (gr_pool example_group)\<rparr>"
  have "group_step ?g example_asleep" unfolding example_asleep_def Let_def
    by (rule group_step.work, rule group_work.sleep)
      (simp_all add: example_group_def group_Do_def WithinGroup_def NewPool_def pool_Do_def pool_awake_def pool_start_def
        worker_available_def MaxWorkersCountNumCPU_def)
  with example_group_reached example_group_starts show ?thesis by (meson rtranclp.rtrancl_into_rtrancl)
qed

theorem worker_pool_progress_witness:
  "pl_sleeping (gr_pool example_asleep) = {#1#} \<and> gr_completed example_asleep = []
    \<and> (\<exists>g'. group_work\<^sup>*\<^sup>* example_asleep g' \<and> mset (map fst (gr_completed g')) = {#0, 1#} \<and> pl_currentWorkers (gr_pool g') = 0)"
proof -
  have e: "pl_sleeping (gr_pool example_asleep) = {#1#}" "pl_waiting (gr_pool example_asleep) = {#1#}"
    "pl_running (gr_pool example_asleep) = {#0#}" "gr_handled example_asleep = {#}" "gr_completed example_asleep = []"
    by (simp_all add: example_asleep_def example_group_def Let_def group_Do_def WithinGroup_def NewPool_def pool_Do_def
        pool_start_def pool_sleep_def)
  note p = worker_pool_progress [OF example_asleep_reached, simplified]
  then obtain g' where "group_work\<^sup>*\<^sup>* example_asleep g'" "\<forall>g''. \<not> group_work g' g''" by blast
  with p have "group_work\<^sup>*\<^sup>* example_asleep g' \<and> mset (map fst (gr_completed g')) = {#0, 1#} \<and> pl_currentWorkers (gr_pool g') = 0"
    by (simp add: e add_mset_commute)
  with e show ?thesis by blast
qed

theorem worker_group_correct_witness:
  "gr_wg example_group = 2 \<and> fst (group_Wait (group_job_returns 0 (Some (Sentinel ErrInvalidToken))
      (example_group\<lparr>gr_pool := pool_start 0 (gr_pool example_group)\<rparr>))) = Some (Sentinel ErrInvalidToken)"
proof -
  let ?e = "Some (Sentinel ErrInvalidToken)"
  let ?g = "example_group\<lparr>gr_pool := pool_start 0 (gr_pool example_group)\<rparr>"
  have "group_step ?g (group_job_returns 0 ?e ?g)"
    by (rule group_step.work, rule group_work.returns) (simp add: pool_start_def example_group_def group_Do_def WithinGroup_def)
  then have r: "group_step\<^sup>*\<^sup>* (WithinGroup (NewPool 4 1)) (group_job_returns 0 ?e ?g)"
    using example_group_reached example_group_starts by (meson rtranclp.rtrancl_into_rtrancl)
  have "gr_completed (group_job_returns 0 ?e ?g) = [(0, ?e)]"
    by (simp add: group_job_returns_def handleErr_def Let_def example_group_def group_Do_def WithinGroup_def)
  with worker_group_correct [OF r] have "fst (group_Wait (group_job_returns 0 ?e ?g)) = ?e" by simp
  moreover have "gr_wg example_group = 2"
    using worker_group_correct [OF example_group_reached]
    by (simp add: example_group_def group_Do_def WithinGroup_def NewPool_def pool_Do_def)
  ultimately show ?thesis by simp
qed

section \<open>Periodical jobs\<close>

text \<open>What the select of the loop takes next: a tick, or the end of the context with its error.\<close>

datatype tick = Tick | CtxDone sentinel

text \<open>The loop over the choices made so far; \<^const>\<open>None\<close> while it waits for the next.\<close>

fun periodicalImpl :: "('w \<Rightarrow> 'w) \<Rightarrow> tick list \<Rightarrow> 'w \<Rightarrow> go_error option \<times> 'w" where
  "periodicalImpl job [] w = (None, w)"
| "periodicalImpl job (Tick # ts) w = periodicalImpl job ts (job w)"
| "periodicalImpl job (CtxDone e # ts) w = (Some (Sentinel e), w)"

definition PeriodicalJob :: "('w \<Rightarrow> 'w) \<Rightarrow> tick list \<Rightarrow> 'w \<Rightarrow> go_error option \<times> 'w" where
  "PeriodicalJob job = periodicalImpl job"

text \<open>A context job's error is logged, and the next tick runs it again.\<close>

definition PeriodicalContextJob ::
    "('w \<Rightarrow> err \<times> 'w) \<Rightarrow> logger \<Rightarrow> fields \<Rightarrow> tick list \<Rightarrow> 'w \<times> obs list \<Rightarrow> go_error option \<times> 'w \<times> obs list" where
  "PeriodicalContextJob job l ctx =
     periodicalImpl (\<lambda>(w, os). case job w of
         (None, w') \<Rightarrow> (w', os)
       | (Some e, w') \<Rightarrow>
           (w', os @ (case log_Error (log_WithError l (Some e)) (Some ctx) ''periodical job completed with error'' of
                        Returns os' \<Rightarrow> os' | Panics \<Rightarrow> [])))"

section \<open>Running the jobs of a process\<close>

text \<open>
  \<^verbatim>\<open>loggingAdapter\<close> of \<^verbatim>\<open>cmd.Run\<close>, on what the job returned and \<open>ctxErr\<close>, the error of the group's context at that
  moment; \<open>ErrJobCompleted\<close> stands for the local error value \<^verbatim>\<open>errCompleted\<close>.
\<close>

definition loggingAdapter :: "logger \<Rightarrow> fields \<Rightarrow> sentinel option \<Rightarrow> err \<Rightarrow> err \<times> obs list" where
  "loggingAdapter l ctx ctxErr e =
     (if e = None \<or> errors_is e ctxErr then (Some (Sentinel ErrJobCompleted), [])
      else (e, case log_Error (log_WithError l e) (Some ctx) ''running job completed with error'' of
                 Returns os \<Rightarrow> os | Panics \<Rightarrow> []))"

definition Run_result :: "'j group \<Rightarrow> err" where
  "Run_result g =
     (let e = fst (group_Wait g) in if \<not> errors_is e (Some ErrJobCompleted) then e else None)"

definition MustRun :: "'j group \<Rightarrow> unit outcome" where
  "MustRun g = (if Run_result g \<noteq> None then Panics else Returns ())"

text \<open>
  C40. A process runs until its first job returns: that return cancels the context of all the jobs, and
  when all have returned \<^verbatim>\<open>Run\<close> gives the error of that first job, nil if it ended without an error or
  with the error of the context; errors of later jobs are logged only.  \<^verbatim>\<open>MustRun\<close> panics exactly on such
  an error.
\<close>

theorem first_job_decides_run:
  assumes "group_step\<^sup>*\<^sup>* (NewGroup numCPU) g" and "0 < numCPU"
    and completed: "gr_completed g = map (\<lambda>(j, e, c). (j, fst (loggingAdapter l ctx c e))) rs"
    and own: "\<forall>(j, e, c) \<in> set rs. \<not> errors_is e (Some ErrJobCompleted) \<and> c \<noteq> Some ErrJobCompleted"
  shows "Run_result g = (case rs of [] \<Rightarrow> None | (j, e, c) # _ \<Rightarrow> if e = None \<or> errors_is e c then None else e)
    \<and> (gr_cancelled g \<longleftrightarrow> rs \<noteq> []) \<and> (MustRun g = Panics \<longleftrightarrow> Run_result g \<noteq> None)"
proof -
  have inv: "group_inv g" using group_reaches_inv [of numCPU MaxWorkersCountUnlimited g] assms(1,2) by (simp add: NewGroup_def)
  have wait: "fst (group_Wait g) = first_error (gr_completed g)" using inv by (simp add: group_inv_def group_Wait_def)
  have canc: "gr_cancelled g \<longleftrightarrow> first_error (gr_completed g) \<noteq> None" using inv by (simp add: group_inv_def)
  have must: "MustRun g = Panics \<longleftrightarrow> Run_result g \<noteq> None" by (simp add: MustRun_def)
  show ?thesis
  proof (cases rs)
    case Nil
    with wait canc completed must show ?thesis by (simp add: Run_result_def)
  next
    case (Cons r rest)
    obtain j e c where r: "r = (j, e, c)" by (metis surj_pair)
    have some: "fst (loggingAdapter l ctx c e) \<noteq> None" by (simp add: loggingAdapter_def)
    then have "first_error (gr_completed g) = fst (loggingAdapter l ctx c e)" using completed Cons r by auto
    with wait canc must some Cons r own show ?thesis
      by (auto simp: Run_result_def loggingAdapter_def Let_def)
  qed
qed

definition example_run :: "nat group" where
  "example_run = group_job_returns 0 (Some (Sentinel ErrJobCompleted))
     (let g = group_Do 0 (NewGroup 4) in g\<lparr>gr_pool := pool_start 0 (gr_pool g)\<rparr>)"

theorem first_job_decides_run_witness: "Run_result example_run = None \<and> gr_cancelled example_run"
proof -
  let ?g = "group_Do 0 (NewGroup 4) :: nat group"
  let ?h = "?g\<lparr>gr_pool := pool_start 0 (gr_pool ?g)\<rparr>"
  have "group_step (NewGroup 4) ?g" by (rule group_step.do)
  moreover have "group_step ?g ?h"
    by (rule group_step.work, rule group_work.start) (simp_all add: group_Do_def NewGroup_def WithinGroup_def NewPool_def pool_Do_def
        pool_awake_def worker_available_def MaxWorkersCountUnlimited_def MaxWorkersCountNumCPU_def)
  moreover have "group_step ?h example_run"
    unfolding example_run_def Let_def by (rule group_step.work, rule group_work.returns)
      (simp add: pool_start_def group_Do_def NewGroup_def WithinGroup_def)
  ultimately have r: "group_step\<^sup>*\<^sup>* (NewGroup 4) example_run"
    by (meson rtranclp.rtrancl_into_rtrancl rtranclp.rtrancl_refl)
  have c: "gr_completed example_run = map (\<lambda>(j, e, c). (j, fst (loggingAdapter LoggerStub [] c e))) [(0, None, None)]"
    by (simp add: example_run_def group_job_returns_def handleErr_def Let_def group_Do_def NewGroup_def WithinGroup_def
        loggingAdapter_def)
  from first_job_decides_run [OF r _ c] show ?thesis by simp
qed

end
