(* ===== verification/Message_Hooks.thy ===== *)
theory Message_Hooks
  imports Listener_Worker Storage_Consumer Worker
begin

text \<open>
  The options of \<^verbatim>\<open>listener.go\<close> and \<^verbatim>\<open>storageconsumer.go\<close>: numbers of workers and messages, and the hooks for logging and metrics.  A hook gets
  what happened and writes a log line or a metric; that none of them panics is what lets the step relations leave them out.
\<close>

section \<open>Options of a listener\<close>

type_synonym hook_result = "obs list outcome"

record 'w ListenerImpl =
  MaxProcessedMessages :: int
  Middlewares :: "'w handler_middleware list"
  ListenerWorkers :: "nat pool"
  OnHandlerNotFound :: "(sql_ctx \<Rightarrow> message \<Rightarrow> hook_result) list"
  OnBeforeHandleMessage :: "(handler_ctx \<Rightarrow> message \<Rightarrow> 'w handler_world \<Rightarrow> handler_ctx \<times> 'w handler_world) list"
  OnHandlerResult :: "(sql_ctx \<Rightarrow> message \<Rightarrow> err \<Rightarrow> hook_result) list"
  OnAcknowledgeResult :: "(sql_ctx \<Rightarrow> message \<Rightarrow> err \<Rightarrow> err \<Rightarrow> hook_result) list"
  OnDeserializedUnknownMsg :: "(sql_ctx \<Rightarrow> message \<Rightarrow> go_error \<Rightarrow> hook_result) list"
  OnDeserializedError :: "(sql_ctx \<Rightarrow> message \<Rightarrow> go_error \<Rightarrow> hook_result) list"

type_synonym 'w ListenerOption = "'w ListenerImpl \<Rightarrow> 'w ListenerImpl"

definition defaultWorkersCount :: int where
  "defaultWorkersCount = 1"

text \<open>What \<^verbatim>\<open>NewListener\<close> sets up before it wraps the handlers; \<open>numCPU\<close> is \<^verbatim>\<open>runtime.NumCPU()\<close>.\<close>

definition new_ListenerImpl :: "int \<Rightarrow> 'w ListenerOption list \<Rightarrow> 'w ListenerImpl" where
  "new_ListenerImpl numCPU opts = fold (\<lambda>opt l. opt l) opts
     \<lparr>MaxProcessedMessages = defaultWorkersCount, Middlewares = [], ListenerWorkers = NewPool numCPU defaultWorkersCount, OnHandlerNotFound = [],
      OnBeforeHandleMessage = [], OnHandlerResult = [], OnAcknowledgeResult = [], OnDeserializedUnknownMsg = [], OnDeserializedError = []\<rparr>"

definition with_middleware :: "'w handler_middleware \<Rightarrow> 'w ListenerOption" where
  "with_middleware mw l = l\<lparr>Middlewares := Middlewares l @ [mw]\<rparr>"

definition message_fields :: "message \<Rightarrow> fields" where
  "message_fields msg = [(''messageID'', FUuid (msg_ID msg)), (''topic'', FStr (msg_Topic msg))]"

definition correlate :: "logger \<Rightarrow> handler_ctx \<Rightarrow> message \<Rightarrow> 'w handler_world \<Rightarrow> handler_ctx \<times> 'w handler_world" where
  "correlate l ctx msg w =
     (let (u, w') = fresh_uuid w
      in (ctx\<lparr>hc_base := (hc_base ctx)\<lparr>cx_log := log_WithContext l (cx_log (hc_base ctx)) [(''consumerCorrelation'', FUuid u)]\<rparr>\<rparr>, w'))"

definition WithHandlerLogging :: "logger \<Rightarrow> level \<Rightarrow> level \<Rightarrow> 'w ListenerOption" where
  "WithHandlerLogging logger infoLevel errorLevel l =
     l\<lparr>Middlewares := Middlewares l @ [WithHandlerLogging_mw logger infoLevel errorLevel],
       OnHandlerNotFound := OnHandlerNotFound l @
         [\<lambda>ctx msg. log_Log (log_With logger (message_fields msg)) (Some (cx_log ctx)) errorLevel ''message handler not found''],
       OnBeforeHandleMessage := OnBeforeHandleMessage l @ [correlate logger],
       OnAcknowledgeResult := OnAcknowledgeResult l @
         [\<lambda>ctx msg handlerResult e.
            if e = None then Returns []
            else log_Log (log_WithError (log_With logger (message_fields msg @ [(''handleResult'', FOptErr handlerResult)])) e)
                   (Some (cx_log ctx)) errorLevel ''failed to acknowledge handled message''],
       OnDeserializedUnknownMsg := OnDeserializedUnknownMsg l @
         [\<lambda>ctx msg e. log_Log (log_WithError (log_With logger (message_fields msg)) (Some e)) (Some (cx_log ctx)) errorLevel ''failed to deserialize message''],
       OnDeserializedError := OnDeserializedError l @
         [\<lambda>ctx msg e. log_Log (log_WithError (log_With logger (message_fields msg)) (Some e)) (Some (cx_log ctx)) errorLevel ''failed to deserialize message'']\<rparr>"

definition WithHandlerMultipleWorkers :: "int \<Rightarrow> int \<Rightarrow> 'w ListenerOption" where
  "WithHandlerMultipleWorkers numCPU workersCount l =
     (let n = (if workersCount \<le> MaxWorkersCountNumCPU then numCPU else workersCount);
          n = (if n = 0 then 1 else n)
      in l\<lparr>ListenerWorkers := NewPool numCPU n, MaxProcessedMessages := n\<rparr>)"

definition WithHandlerWorkerPool :: "nat pool \<Rightarrow> int \<Rightarrow> 'w ListenerOption" where
  "WithHandlerWorkerPool pool maxProcessedMessagesLimit l = l\<lparr>ListenerWorkers := pool, MaxProcessedMessages := maxProcessedMessagesLimit\<rparr>"

section \<open>What is reported while a message is processed\<close>

text \<open>
  The hooks that a step of the processing calls.  \<open>ctx\<close> is the context of the worker, \<open>mctx\<close> the one of the message; a message that is skipped
  is acknowledged with the former.
\<close>

definition hooks_called :: "'w ListenerImpl \<Rightarrow> ('w, 'q) listener \<Rightarrow> consumer_message \<Rightarrow> sql_ctx \<Rightarrow> sql_ctx \<Rightarrow> ('w, 'q) processing
    \<Rightarrow> ('w, 'q) processing \<Rightarrow> hook_result list" where
  "hooks_called li L m ctx mctx p p' =
     (let msg = cm_Message m in
      case pr_phase p of
        PStart \<Rightarrow>
          if pr_phase p' \<noteq> PSkip then []
          else (case ln_Deserialize L (msg_Payload msg) of
                  Inl e \<Rightarrow> map (\<lambda>fn. fn ctx msg e) (if error_is e ErrDeserializeUnknownMessage then OnDeserializedUnknownMsg li else OnDeserializedError li)
                | Inr _ \<Rightarrow> map (\<lambda>fn. fn ctx msg) (OnHandlerNotFound li))
      | PGroup _ _ _ _ \<Rightarrow> (case pr_phase p' of PAck b r \<Rightarrow> map (\<lambda>fn. fn mctx msg r) (OnHandlerResult li) | _ \<Rightarrow> [])
      | PAck b r \<Rightarrow>
          concat (map (\<lambda>ev. case ev of LAck r' e \<Rightarrow> map (\<lambda>fn. fn (if b then mctx else ctx) msg r' e) (OnAcknowledgeResult li) | _ \<Rightarrow> [])
            (drop (length (pr_trace p)) (pr_trace p')))
      | _ \<Rightarrow> [])"

text \<open>The options the package offers.\<close>

inductive library_option :: "'w ListenerOption \<Rightarrow> bool" where
  "library_option (with_middleware mw)"
| "library_option (WithHandlerLogging l il el)"
| "library_option (WithHandlerMultipleWorkers numCPU n)"
| "library_option (WithHandlerWorkerPool pool n)"

definition hooks_return :: "'w ListenerImpl \<Rightarrow> bool" where
  "hooks_return li \<longleftrightarrow> (\<forall>fn \<in> set (OnHandlerNotFound li). \<forall>ctx msg. fn ctx msg \<noteq> Panics) \<and> (\<forall>fn \<in> set (OnHandlerResult li). \<forall>ctx msg e. fn ctx msg e \<noteq> Panics)
     \<and> (\<forall>fn \<in> set (OnAcknowledgeResult li). \<forall>ctx msg r e. fn ctx msg r e \<noteq> Panics)
     \<and> (\<forall>fn \<in> set (OnDeserializedUnknownMsg li @ OnDeserializedError li). \<forall>ctx msg e. fn ctx msg e \<noteq> Panics)"

lemma log_returns [simp]: "log_Log l (Some fs) lvl msg \<noteq> Panics"
  using log_Log_ctx [of l fs lvl msg] by auto

lemma option_hooks_return: "library_option opt \<Longrightarrow> hooks_return li \<Longrightarrow> hooks_return (opt li)"
  by (induction rule: library_option.induct)
    (auto simp: hooks_return_def with_middleware_def WithHandlerLogging_def WithHandlerMultipleWorkers_def WithHandlerWorkerPool_def Let_def)

lemma library_hooks_return:
  assumes "\<forall>opt \<in> set opts. library_option opt"
  shows "hooks_return (new_ListenerImpl numCPU opts)"
proof -
  have "hooks_return li \<Longrightarrow> hooks_return (fold (\<lambda>opt l. opt l) opts li)" for li :: "'a ListenerImpl"
    using assms by (induction opts arbitrary: li) (simp_all add: option_hooks_return)
  note keep = this
  show ?thesis unfolding new_ListenerImpl_def by (rule keep) (simp add: hooks_return_def)
qed

text \<open>No hook panics, so that a goroutine of the listener ends only as its steps say.\<close>

lemma called_hooks_return:
  assumes "\<forall>opt \<in> set opts. library_option opt"
  shows "Panics \<notin> set (hooks_called (new_ListenerImpl numCPU opts) L m ctx mctx p p')"
  using library_hooks_return [OF assms, of numCPU]
  by (cases "pr_phase p")
    (auto simp: hooks_called_def hooks_return_def Let_def eq_commute [of Panics] split: phase.splits sum.splits levent.splits if_splits)

lemma log_Log_written:
  assumes "lvl \<noteq> LevelDisabled" and "el \<noteq> LevelDisabled" and "slog_level lvl \<le> slog_level el"
  shows "written (log_Log (log_With (log_New lvl) fs) (Some ctx) el msg) \<noteq> []"
    and "written (log_Log (log_WithError (log_With (log_New lvl) fs) e) (Some ctx) el msg) \<noteq> []"
  using assms by (cases e; cases fs; auto simp: log_Log_def log_New_def written_def)+

text \<open>With logging at an enabled level the listener writes a line for every message it skips and every acknowledgement that fails, and only for them.\<close>

lemma listener_logs_failures:
  fixes il :: level
  assumes step: "process_step L m c p p'" and lvl: "lvl \<noteq> LevelDisabled" "el \<noteq> LevelDisabled" "slog_level lvl \<le> slog_level el"
  defines "li \<equiv> new_ListenerImpl 1 [WithHandlerLogging (log_New lvl) il el]"
  shows "concat (map written (hooks_called li L m ctx mctx p p')) \<noteq> [] \<longleftrightarrow>
    pr_phase p = PStart \<and> pr_phase p' = PSkip \<or> (\<exists>r e. pr_trace p' = pr_trace p @ [LAck r (Some e)])"
proof -
  note hooks = li_def new_ListenerImpl_def WithHandlerLogging_def hooks_called_def Let_def
  show ?thesis using step
    by cases (auto simp: hooks log_Log_written [OF lvl] written_def [of "Returns []"] split: phase.splits)
qed


section \<open>Options of the storage consumer\<close>

definition WithStorageConsumerLogging :: "logger \<Rightarrow> level \<Rightarrow> level \<Rightarrow> StorageConsumerProviderImpl \<Rightarrow> StorageConsumerProviderImpl" where
  "WithStorageConsumerLogging logger infoLevel errorLevel p =
     p\<lparr>OnMessageProcessing := OnMessageProcessing p @
         [\<lambda>ctx tp msg. log_Log (log_With logger [(''topic'', FStr tp), (''messageID'', FUuid (msg_ID msg))]) (Some (cx_log ctx)) infoLevel
            ''storage message is being processed''],
       OnAcknowledge := OnAcknowledge p @
         [\<lambda>ctx ctxErr tp msg e.
            let l = log_With logger [(''topic'', FStr tp), (''messageID'', FUuid (msg_ID msg))] in
            if e \<noteq> None \<and> errors_is e ctxErr then Returns []
            else if e \<noteq> None then log_Log (log_WithError l e) (Some (cx_log ctx)) errorLevel ''failed to delete acknowledged message''
            else log_Log l (Some (cx_log ctx)) infoLevel ''acknowledged message deleted from storage''],
       OnMessageBatchProcessed := OnMessageBatchProcessed p @
         [\<lambda>ctx ctxErr tp n e.
            if e = None then Returns []
            else if errors_is e ctxErr then Returns []
            else log_Log (log_WithError logger e) (Some (cx_log ctx)) errorLevel ''failed to process storage messages to consume'']\<rparr>"

definition WithStorageConsumerMetrics :: "metrics \<Rightarrow> StorageConsumerProviderImpl \<Rightarrow> StorageConsumerProviderImpl" where
  "WithStorageConsumerMetrics m p =
     p\<lparr>OnMessageProcessing := OnMessageProcessing p @
         [\<lambda>ctx tp msg. Returns (met_Increment (met_With m [(''topic'', FStr tp)]) ''msg_storage_consumer_processing_total'')],
       OnAcknowledge := OnAcknowledge p @
         [\<lambda>ctx ctxErr tp msg e. Returns (met_Increment (met_With m [(''topic'', FStr tp)])
            (if e \<noteq> None then ''msg_storage_consumer_delete_acked_error_total'' else ''msg_storage_consumer_delete_acked_total''))],
       OnMessageBatchProcessed := OnMessageBatchProcessed p @
         [\<lambda>ctx ctxErr tp n e. Returns (if e = None then [] else met_Increment (met_With m [(''topic'', FStr tp)]) ''msg_storage_consumer_internal_errors_total'')]\<rparr>"

definition messageStorageConsumerProvider :: "metrics \<Rightarrow> logger \<Rightarrow> StorageConsumerProviderImpl" where
  "messageStorageConsumerProvider m l = NewStorageConsumerProvider [WithStorageConsumerMetrics m, WithStorageConsumerLogging l LevelDebug LevelWarn]"

text \<open>
  The configured consumer reports what its acknowledgements did: every call returns, each is counted, and the log has a warning exactly for a
  failure that is not the cancellation of the context.
\<close>

lemma configured_acknowledge_reports:
  assumes "slog_level lvl \<le> slog_level LevelWarn" and "lvl \<noteq> LevelDisabled"
    and calls_def: "calls = map (\<lambda>fn. fn ctx ctxErr tp msg e) (OnAcknowledge (messageStorageConsumerProvider m (log_New lvl)))"
  shows "Panics \<notin> set calls \<and> length (filter (\<lambda>o'. case o' of ObsIncrement _ _ \<Rightarrow> True | _ \<Rightarrow> False) (concat (map written calls))) = 1
    \<and> ((\<exists>fs. ObsLog LevelWarn ''failed to delete acknowledged message'' fs \<in> set (concat (map written calls))) \<longleftrightarrow> e \<noteq> None \<and> \<not> errors_is e ctxErr)"
  using assms(1,2)
  by (cases e) (auto simp: calls_def messageStorageConsumerProvider_def NewStorageConsumerProvider_def WithStorageConsumerMetrics_def
      WithStorageConsumerLogging_def met_Increment_def written_def log_Log_def log_New_def Let_def split: if_splits)

end
