(* ===== verification/Typed_Value.thy ===== *)
theory Typed_Value
  imports Go_Prelude
begin

text \<open>
  \<^verbatim>\<open>pkg/strings/utils.go\<close> (\<^verbatim>\<open>ParseTypedValue\<close>) and \<^verbatim>\<open>pkg/env\<close>.

  A value in an interface is tagged with its dynamic type, since the final type assertion \<^verbatim>\<open>v.(T)\<close>
  depends on it: \<open>VPtr ty v\<close> is a pointer to a variable of static type \<open>ty\<close>.  Integer parsing is
  \<^verbatim>\<open>strconv\<close>'s; floats, times and durations are parsed by the standard library and UUIDs by a third-party package,
  all four arguments here (\<open>value_parsers\<close>).
\<close>

section \<open>Integers of package strconv\<close>

definition digit :: "char \<Rightarrow> nat option" where
  "digit c = (let n = code_point c in if 48 \<le> n \<and> n \<le> 57 then Some (n - 48) else None)"

fun digits_value :: "string \<Rightarrow> nat \<Rightarrow> nat option" where
  "digits_value [] acc = Some acc"
| "digits_value (c # cs) acc =
     (case digit c of None \<Rightarrow> None | Some d \<Rightarrow> digits_value cs (10 * acc + d))"

definition strconv_error :: go_error where
  "strconv_error = errors_new ''strconv''"

text \<open>\<^verbatim>\<open>ParseUint(s, 10, bits)\<close> and \<^verbatim>\<open>ParseInt(s, 10, bits)\<close>: syntax and range errors.\<close>

definition ParseUint :: "nat \<Rightarrow> string \<Rightarrow> go_error + int" where
  "ParseUint bits s =
     (if s = [] then Inl strconv_error
      else case digits_value s 0 of
             None \<Rightarrow> Inl strconv_error
           | Some n \<Rightarrow> if int n < 2 ^ bits then Inr (int n) else Inl strconv_error)"

definition ParseInt :: "nat \<Rightarrow> string \<Rightarrow> go_error + int" where
  "ParseInt bits s =
     (let (neg, ds) = (case s of c # cs \<Rightarrow> if c = CHR ''-'' then (True, cs) else if c = CHR ''+'' then (False, cs) else (False, s)
                              | [] \<Rightarrow> (False, []))
      in if ds = [] then Inl strconv_error
         else case digits_value ds 0 of
                None \<Rightarrow> Inl strconv_error
              | Some n \<Rightarrow>
                  if neg then (if int n \<le> 2 ^ (bits - 1) then Inr (- int n) else Inl strconv_error)
                  else (if int n < 2 ^ (bits - 1) then Inr (int n) else Inl strconv_error))"

definition Atoi :: "string \<Rightarrow> go_error + int" where
  "Atoi s = ParseInt 64 s"

definition ParseBool :: "string \<Rightarrow> go_error + bool" where
  "ParseBool s =
     (if s \<in> {''1'', ''t'', ''T'', ''TRUE'', ''true'', ''True''} then Inr True
      else if s \<in> {''0'', ''f'', ''F'', ''FALSE'', ''false'', ''False''} then Inr False
      else Inl strconv_error)"

section \<open>Typed values\<close>

datatype gty = TBool | TInt | TUint | TUint64 | TFloat64 | TString | TTime | TDuration | TUuid | TAny | TPtr gty

datatype dyn =
    VBool bool
  | VInt int
  | VUint int
  | VUint64 int
  | VFloat "64 word"
  | VString string
  | VTime time
  | VDuration int
  | VUuid uuid
  | VPtr gty dyn

fun dyn_type :: "dyn \<Rightarrow> gty" where
  "dyn_type (VBool b) = TBool"
| "dyn_type (VInt i) = TInt"
| "dyn_type (VUint i) = TUint"
| "dyn_type (VUint64 i) = TUint64"
| "dyn_type (VFloat w) = TFloat64"
| "dyn_type (VString s) = TString"
| "dyn_type (VTime t) = TTime"
| "dyn_type (VDuration d) = TDuration"
| "dyn_type (VUuid u) = TUuid"
| "dyn_type (VPtr ty v) = TPtr ty"

record value_parsers =
  vp_Float :: "string \<Rightarrow> go_error + 64 word"
  vp_RFC3339 :: "string \<Rightarrow> go_error + time"
  vp_RFC3339Nano :: "string \<Rightarrow> go_error + time"
  vp_Duration :: "string \<Rightarrow> go_error + int"
  vp_Uuid :: "string \<Rightarrow> go_error + uuid"

definition map_right :: "('b \<Rightarrow> 'c) \<Rightarrow> 'a + 'b \<Rightarrow> 'a + 'c" where
  "map_right f r = (case r of Inl e \<Rightarrow> Inl e | Inr x \<Rightarrow> Inr (f x))"

definition parseTimeImpl :: "value_parsers \<Rightarrow> string \<Rightarrow> go_error + dyn" where
  "parseTimeImpl P value =
     (case vp_RFC3339 P value of
        Inr t \<Rightarrow> Inr (VTime t)
      | Inl _ \<Rightarrow>
          (case vp_RFC3339Nano P value of
             Inr t \<Rightarrow> Inr (VTime t)
           | Inl _ \<Rightarrow>
               (case ParseInt 32 value of
                  Inl _ \<Rightarrow> Inl (errors_new ''possible formats RFC3339 or RFC3339Nano or UnixTime'')
                | Inr unixTime \<Rightarrow>
                    if unixTime < 0 then Inl (errors_new ''possible formats RFC3339 or RFC3339Nano or UnixTime'')
                    else Inr (VTime (unixTime * 1000000000)))))"

text \<open>\<^verbatim>\<open>wrapWithPointer[T]\<close>, the static type of the parsed value given.\<close>

definition wrapWithPointer :: "gty \<Rightarrow> go_error + dyn \<Rightarrow> go_error + dyn" where
  "wrapWithPointer ty r = map_right (VPtr ty) r"

text \<open>The switch: for each type the call it makes, \<^const>\<open>None\<close> for a type it does not have.\<close>

fun parse_switch :: "value_parsers \<Rightarrow> gty \<Rightarrow> string \<Rightarrow> (go_error + dyn) option" where
  "parse_switch P TBool s = Some (map_right VBool (ParseBool s))"
| "parse_switch P (TPtr TBool) s = Some (wrapWithPointer TBool (map_right VBool (ParseBool s)))"
| "parse_switch P TInt s = Some (map_right VInt (Atoi s))"
| "parse_switch P (TPtr TInt) s = Some (wrapWithPointer TInt (map_right VInt (Atoi s)))"
| "parse_switch P TUint s = Some (map_right VUint64 (ParseUint 64 s))"
| "parse_switch P (TPtr TUint) s = Some (wrapWithPointer TUint64 (map_right VUint64 (ParseUint 64 s)))"
| "parse_switch P TFloat64 s = Some (map_right VFloat (vp_Float P s))"
| "parse_switch P (TPtr TFloat64) s = Some (wrapWithPointer TFloat64 (map_right VFloat (vp_Float P s)))"
| "parse_switch P TString s = Some (Inr (VString s))"
| "parse_switch P (TPtr TString) s = Some (Inr (VPtr TString (VString s)))"
| "parse_switch P TTime s = Some (parseTimeImpl P s)"
| "parse_switch P (TPtr TTime) s = Some (wrapWithPointer TAny (parseTimeImpl P s))"
| "parse_switch P TDuration s = Some (map_right VDuration (vp_Duration P s))"
| "parse_switch P (TPtr TDuration) s = Some (wrapWithPointer TDuration (map_right VDuration (vp_Duration P s)))"
| "parse_switch P TUuid s = Some (map_right VUuid (vp_Uuid P s))"
| "parse_switch P (TPtr TUuid) s = Some (wrapWithPointer TUuid (map_right VUuid (vp_Uuid P s)))"
| "parse_switch P _ s = None"

text \<open>\<^verbatim>\<open>ParseTypedValue[T]\<close> ends in the assertion \<^verbatim>\<open>v.(T)\<close>, which panics on another dynamic type.\<close>

definition ParseTypedValue :: "value_parsers \<Rightarrow> gty \<Rightarrow> string \<Rightarrow> (go_error + dyn) outcome" where
  "ParseTypedValue P T value =
     (case parse_switch P T value of
        None \<Rightarrow> Returns (Inl (errors_new ''unsupported value type''))
      | Some (Inl e) \<Rightarrow> Returns (Inl (errorf ''convert to type'' e))
      | Some (Inr v) \<Rightarrow> if dyn_type v = T then Returns (Inr v) else Panics)"

text \<open>The types the constraint admits.\<close>

definition value_types :: "gty list" where
  "value_types = [TBool, TInt, TUint, TFloat64, TString, TTime, TDuration, TUuid]"

definition supported :: "gty \<Rightarrow> bool" where
  "supported T \<longleftrightarrow> T \<in> set value_types \<or> T \<in> set (map TPtr value_types)"

section \<open>Environment\<close>

text \<open>\<^verbatim>\<open>strings.Split\<close>; with the empty separator it gives the single characters.\<close>

fun cut_at :: "string \<Rightarrow> string \<Rightarrow> (string \<times> string) option" where
  "cut_at sep [] = None"
| "cut_at sep (c # cs) =
     (if take (length sep) (c # cs) = sep then Some ([], drop (length sep) (c # cs))
      else map_option (\<lambda>(a, b). (c # a, b)) (cut_at sep cs))"

lemma cut_at_shorter: "cut_at sep s = Some (a, b) \<Longrightarrow> sep \<noteq> [] \<Longrightarrow> length b < length s"
  by (induction s arbitrary: a) (auto split: if_splits)

function split_on :: "string \<Rightarrow> string \<Rightarrow> string list" where
  "split_on sep s =
     (if sep = [] then map (\<lambda>c. [c]) s
      else case cut_at sep s of None \<Rightarrow> [s] | Some (a, b) \<Rightarrow> a # split_on sep b)"
  by auto
termination by (relation "measure (\<lambda>(sep, s). length s)") (auto dest: cut_at_shorter)

declare split_on.simps [simp del]

definition notFoundError :: go_error where
  "notFoundError = errors_new ''env not found''"

definition invalidValueError :: "go_error \<Rightarrow> go_error" where
  "invalidValueError e = errorf ''env is invalid'' e"

definition env_Parse :: "value_parsers \<Rightarrow> (string \<rightharpoonup> string) \<Rightarrow> gty \<Rightarrow> string \<Rightarrow> (go_error + dyn) outcome" where
  "env_Parse P environ T key =
     (case environ key of
        None \<Rightarrow> Returns (Inl notFoundError)
      | Some str \<Rightarrow>
          (case ParseTypedValue P T str of
             Panics \<Rightarrow> Panics
           | Returns (Inl e) \<Rightarrow> Returns (Inl (invalidValueError e))
           | Returns (Inr v) \<Rightarrow> Returns (Inr v)))"

text \<open>The nil pointer is \<^const>\<open>None\<close>.\<close>

definition env_ParseOptional ::
    "value_parsers \<Rightarrow> (string \<rightharpoonup> string) \<Rightarrow> gty \<Rightarrow> string \<Rightarrow> (go_error + dyn option) outcome" where
  "env_ParseOptional P environ T key =
     (case environ key of
        None \<Rightarrow> Returns (Inr None)
      | Some str \<Rightarrow>
          (case ParseTypedValue P T str of
             Panics \<Rightarrow> Panics
           | Returns (Inl e) \<Rightarrow> Returns (Inl (invalidValueError e))
           | Returns (Inr v) \<Rightarrow> Returns (Inr (Some v))))"

fun parse_elements :: "value_parsers \<Rightarrow> gty \<Rightarrow> string list \<Rightarrow> (go_error + dyn list) outcome" where
  "parse_elements P T [] = Returns (Inr [])"
| "parse_elements P T (value # values) =
     (let value = trim_space value in
      if value = [] then parse_elements P T values
      else case ParseTypedValue P T value of
             Panics \<Rightarrow> Panics
           | Returns (Inl e) \<Rightarrow> Returns (Inl (invalidValueError e))
           | Returns (Inr t) \<Rightarrow>
               (case parse_elements P T values of
                  Returns (Inr ts) \<Rightarrow> Returns (Inr (t # ts))
                | other \<Rightarrow> other))"

definition parseListImpl :: "value_parsers \<Rightarrow> gty \<Rightarrow> string \<Rightarrow> string \<Rightarrow> (go_error + dyn list) outcome" where
  "parseListImpl P T value delimiter = parse_elements P T (split_on delimiter value)"

definition env_ParseList ::
    "value_parsers \<Rightarrow> (string \<rightharpoonup> string) \<Rightarrow> gty \<Rightarrow> string \<Rightarrow> string \<Rightarrow> (go_error + dyn list) outcome" where
  "env_ParseList P environ T key delimiter =
     (case environ key of
        None \<Rightarrow> Returns (Inl notFoundError)
      | Some str \<Rightarrow>
          (case parseListImpl P T str delimiter of
             Returns (Inr []) \<Rightarrow> Returns (Inl (errors_new ''env is empty''))
           | other \<Rightarrow> other))"

definition env_ParseListOptional ::
    "value_parsers \<Rightarrow> (string \<rightharpoonup> string) \<Rightarrow> gty \<Rightarrow> string \<Rightarrow> string \<Rightarrow> (go_error + dyn list) outcome" where
  "env_ParseListOptional P environ T key delimiter =
     (case environ key of None \<Rightarrow> Returns (Inr []) | Some str \<Rightarrow> parseListImpl P T str delimiter)"

definition env_Must :: "(go_error + 'a) outcome \<Rightarrow> 'a outcome" where
  "env_Must r = (case r of Returns (Inr v) \<Rightarrow> Returns v | _ \<Rightarrow> Panics)"

section \<open>Which types can be parsed\<close>

lemma parse_switch_type:
  assumes "supported T" and "parse_switch P T s = Some (Inr v)"
  shows "dyn_type v = (if T = TUint then TUint64 else if T = TPtr TUint then TPtr TUint64
     else if T = TPtr TTime then TPtr TAny else T)"
  using assms
  by (auto simp: supported_def value_types_def wrapWithPointer_def map_right_def parseTimeImpl_def
      split: sum.splits if_splits)

text \<open>
  C34. \<^verbatim>\<open>ParseTypedValue\<close> has a case for each type its constraint admits and returns a value of that type or an
  error, never both and never a panic - except for \<^verbatim>\<open>uint\<close>, \<^verbatim>\<open>*uint\<close> and \<^verbatim>\<open>*time.Time\<close>, for which every
  well-formed value makes it panic.
\<close>

theorem typed_values_parse_or_panic:
  assumes "supported T"
  shows "if T \<in> {TUint, TPtr TUint, TPtr TTime}
    then (case parse_switch P T s of Some (Inr v) \<Rightarrow> ParseTypedValue P T s = Panics
            | Some (Inl e) \<Rightarrow> ParseTypedValue P T s = Returns (Inl (errorf ''convert to type'' e)) | None \<Rightarrow> False)
    else (case parse_switch P T s of Some (Inr v) \<Rightarrow> ParseTypedValue P T s = Returns (Inr v) \<and> dyn_type v = T
            | Some (Inl e) \<Rightarrow> ParseTypedValue P T s = Returns (Inl (errorf ''convert to type'' e)) | None \<Rightarrow> False)"
proof (cases "parse_switch P T s")
  case None
  then show ?thesis using assms by (auto simp: supported_def value_types_def)
next
  case (Some r)
  then show ?thesis
    using parse_switch_type [OF assms, of P s] by (cases r) (auto simp: ParseTypedValue_def)
qed

definition no_parsers :: value_parsers where
  "no_parsers = \<lparr>vp_Float = (\<lambda>_. Inl strconv_error), vp_RFC3339 = (\<lambda>_. Inl strconv_error),
     vp_RFC3339Nano = (\<lambda>_. Inl strconv_error), vp_Duration = (\<lambda>_. Inl strconv_error), vp_Uuid = (\<lambda>_. Inl strconv_error)\<rparr>"

theorem typed_values_parse_or_panic_witness:
  "ParseTypedValue no_parsers TUint ''7'' = Panics \<and> ParseTypedValue no_parsers TInt ''-7'' = Returns (Inr (VInt (-7)))
   \<and> ParseTypedValue no_parsers (TPtr TTime) ''7'' = Panics"
proof -
  have s: "parse_switch no_parsers TUint ''7'' = Some (Inr (VUint64 7))"
    "parse_switch no_parsers TInt ''-7'' = Some (Inr (VInt (-7)))"
    "parse_switch no_parsers (TPtr TTime) ''7'' = Some (Inr (VPtr TAny (VTime 7000000000)))"
    by code_simp+
  have "supported TUint" "supported TInt" "supported (TPtr TTime)" by (simp_all add: supported_def value_types_def)
  note t = this [THEN typed_values_parse_or_panic]
  show ?thesis
    using t(1) [of no_parsers "''7''"] t(2) [of no_parsers "''-7''"] t(3) [of no_parsers "''7''"] s by simp
qed

section \<open>Printing and parsing integers\<close>

text \<open>\<^verbatim>\<open>strconv.Itoa\<close>, the reference.\<close>

function utoa :: "nat \<Rightarrow> string" where
  "utoa n = (if n < 10 then [char_of (48 + n)] else utoa (n div 10) @ [char_of (48 + n mod 10)])"
  by auto
termination by (relation "measure id") auto

declare utoa.simps [simp del]

definition itoa :: "int \<Rightarrow> string" where
  "itoa i = (if i < 0 then CHR ''-'' # utoa (nat (- i)) else utoa (nat i))"

lemma digit_of: "d < 10 \<Longrightarrow> digit (char_of (48 + d)) = Some d"
  by (simp add: digit_def Let_def)

lemma digits_value_snoc:
  "digits_value s acc = Some n \<Longrightarrow> digits_value (s @ [c]) acc = (case digit c of None \<Rightarrow> None | Some d \<Rightarrow> Some (10 * n + d))"
  by (induction s acc rule: digits_value.induct) (auto split: option.splits)

lemma digits_value_utoa: "digits_value (utoa n) 0 = Some n"
proof (induction n rule: utoa.induct)
  case (1 n)
  show ?case
  proof (cases "n < 10")
    case True
    then show ?thesis using digit_of [of n] by (simp add: utoa.simps [of n])
  next
    case False
    then have "utoa n = utoa (n div 10) @ [char_of (48 + n mod 10)]" by (simp add: utoa.simps [of n])
    with digits_value_snoc [OF 1 [OF False], of "char_of (48 + n mod 10)"] digit_of [of "n mod 10"]
    show ?thesis by simp
  qed
qed

lemma utoa_neq_Nil [simp]: "utoa n \<noteq> []"
  by (simp add: utoa.simps [of n])

lemma utoa_digits: "c \<in> set (utoa n) \<Longrightarrow> 48 \<le> code_point c \<and> code_point c \<le> (57 :: nat)"
proof (induction n rule: utoa.induct)
  case (1 n)
  then show ?case by (cases "n < 10") (auto simp: utoa.simps [of n])
qed

lemma ParseInt_itoa:
  assumes "- (2 ^ (bits - 1)) \<le> i" and "i < 2 ^ (bits - 1)"
  shows "ParseInt bits (itoa i) = Inr i"
proof (cases "i < 0")
  case True
  then show ?thesis using assms(1) by (simp add: ParseInt_def itoa_def digits_value_utoa)
next
  case False
  have "int (nat i) < 2 ^ (bits - 1)" using assms(2) False by simp
  obtain c cs where u: "utoa (nat i) = c # cs" using utoa_neq_Nil [of "nat i"] by (cases "utoa (nat i)") auto
  then have "c \<in> set (utoa (nat i))" by simp
  from utoa_digits [OF this] have "c \<noteq> CHR ''-''" "c \<noteq> CHR ''+''" by auto
  then have "ParseInt bits (utoa (nat i)) = Inr (int (nat i))"
    using u digits_value_utoa [of "nat i"] \<open>int (nat i) < 2 ^ (bits - 1)\<close> by (simp add: ParseInt_def)
  with False show ?thesis by (simp add: itoa_def)
qed

lemma ParseInt_range:
  assumes "ParseInt bits s = Inr i"
  shows "- (2 ^ (bits - 1)) \<le> i \<and> i < 2 ^ (bits - 1)"
proof -
  obtain n where n: "i = - int n \<and> int n \<le> 2 ^ (bits - 1) \<or> i = int n \<and> int n < 2 ^ (bits - 1)"
    using assms by (auto simp: ParseInt_def Let_def split: list.splits if_splits option.splits)
  moreover have "(0 :: int) < 2 ^ (bits - 1)" by simp
  ultimately show ?thesis by linarith
qed

section \<open>Lists in the environment\<close>

lemma cut_at_none: "d \<notin> set s \<Longrightarrow> cut_at [d] s = None"
  by (induction s) auto

lemma cut_at_first: "d \<notin> set s \<Longrightarrow> cut_at [d] (s @ d # t) = Some (s, t)"
  by (induction s) auto

lemma split_join:
  assumes "xs \<noteq> []" and "\<forall>x \<in> set xs. d \<notin> set x"
  shows "split_on [d] (join xs [d]) = xs"
  using assms
proof (induction xs "[d]" rule: join.induct)
  case 1
  then show ?case by simp
next
  case (2 x)
  then show ?case by (simp add: split_on.simps [of "[d]" x] cut_at_none)
next
  case (3 x y xs)
  then have "cut_at [d] (join (x # y # xs) [d]) = Some (x, join (y # xs) [d])" by (simp add: cut_at_first)
  then have "split_on [d] (join (x # y # xs) [d]) = x # split_on [d] (join (y # xs) [d])"
    by (subst split_on.simps) simp
  with 3 show ?case by simp
qed

lemma trim_space_visible:
  assumes "\<forall>c \<in> set s. \<not> is_space c"
  shows "trim_space s = s"
proof -
  have "dropWhile is_space s = s" "dropWhile is_space (rev s) = rev s"
    using assms by (auto simp: dropWhile_eq_self_iff hd_rev)
  then show ?thesis by (simp add: trim_space_def)
qed

lemma itoa_visible: "c \<in> set (itoa i) \<Longrightarrow> \<not> is_space c \<and> c \<noteq> CHR '',''"
  using utoa_digits [of c "nat i"] utoa_digits [of c "nat (- i)"]
  by (fastforce simp: itoa_def is_space_def split: if_splits)

lemma parse_elements_ints:
  "\<forall>i \<in> set is. - (2 ^ 63) \<le> i \<and> i < 2 ^ 63 \<Longrightarrow>
   parse_elements P TInt (map itoa is) = Returns (Inr (map VInt is))"
proof (induction "is")
  case Nil
  then show ?case by simp
next
  case (Cons i "is")
  have "trim_space (itoa i) = itoa i" by (rule trim_space_visible) (simp add: itoa_visible)
  moreover have "itoa i \<noteq> []" by (simp add: itoa_def)
  moreover have "Atoi (itoa i) = Inr i" unfolding Atoi_def using Cons.prems by (intro ParseInt_itoa) auto
  ultimately show ?case using Cons by (simp add: ParseTypedValue_def map_right_def)
qed

text \<open>
  C35. An environment variable that holds integers of 64 bits, printed in decimal and joined by commas, reads
  back as that list; a missing variable is an error for \<^verbatim>\<open>ParseList\<close> and the empty list for \<^verbatim>\<open>ParseListOptional\<close>.
\<close>

theorem env_int_lists_round_trip:
  assumes "is \<noteq> []" and "\<forall>i \<in> set is. - (2 ^ 63) \<le> i \<and> i < 2 ^ 63"
    and "environ key = Some (join (map itoa is) '','')"
  shows "env_ParseList P environ TInt key '','' = Returns (Inr (map VInt is))
    \<and> env_ParseListOptional P environ TInt key '','' = Returns (Inr (map VInt is))
    \<and> env_ParseList P (environ(key := None)) TInt key '','' = Returns (Inl notFoundError)
    \<and> env_ParseListOptional P (environ(key := None)) TInt key '','' = Returns (Inr [])"
proof -
  have "split_on '','' (join (map itoa is) '','') = map itoa is"
    using assms(1) by (intro split_join) (auto dest: itoa_visible)
  then have "parseListImpl P TInt (join (map itoa is) '','') '','' = Returns (Inr (map VInt is))"
    using parse_elements_ints [OF assms(2), of P] by (simp add: parseListImpl_def)
  with assms(1,3) show ?thesis
    by (cases "is") (simp_all add: env_ParseList_def env_ParseListOptional_def)
qed

theorem env_int_lists_round_trip_witness:
  "env_ParseList no_parsers [''PORTS'' \<mapsto> join (map itoa [80, -1]) '',''] TInt ''PORTS'' '',''
     = Returns (Inr [VInt 80, VInt (-1)])"
  using env_int_lists_round_trip [of "[80, -1]" "[''PORTS'' \<mapsto> join (map itoa [80, -1]) '','']" "''PORTS''" no_parsers]
  by simp

lemma parse_elements_range:
  "parse_elements P TInt vs = Returns (Inr ts) \<Longrightarrow> t \<in> set ts \<Longrightarrow> \<exists>i. t = VInt i \<and> - (2 ^ 63) \<le> i \<and> i < 2 ^ 63"
proof (induction vs arbitrary: ts)
  case Nil
  then show ?case by simp
next
  case (Cons v vs)
  show ?case
  proof (cases "trim_space v = []")
    case True
    with Cons show ?thesis by simp
  next
    case False
    with Cons.prems(1) obtain x xs where x: "ParseTypedValue P TInt (trim_space v) = Returns (Inr x)"
      and xs: "parse_elements P TInt vs = Returns (Inr xs)" "ts = x # xs"
      by (auto split: outcome.splits sum.splits)
    from x obtain i where "x = VInt i" "Atoi (trim_space v) = Inr i"
      by (auto simp: ParseTypedValue_def map_right_def split: sum.splits if_splits)
    moreover from ParseInt_range [OF this(2) [unfolded Atoi_def]] have "- (2 ^ 63) \<le> i \<and> i < 2 ^ 63" by simp
    ultimately show ?thesis using Cons xs by auto
  qed
qed

text \<open>
  What \<^verbatim>\<open>ParseList\<close> returns for integers is never empty, and every element is within 64 bits; it never
  panics.
\<close>

theorem env_int_lists_bounded:
  "case env_ParseList P environ TInt key delimiter of
     Panics \<Rightarrow> False
   | Returns (Inl e) \<Rightarrow> True
   | Returns (Inr ts) \<Rightarrow> ts \<noteq> [] \<and> list_all (\<lambda>t. \<exists>i. t = VInt i \<and> - (2 ^ 63) \<le> i \<and> i < 2 ^ 63) ts"
proof -
  have no_panic: "parse_elements P TInt vs \<noteq> Panics" for vs
    by (induction vs) (auto simp: Let_def ParseTypedValue_def map_right_def split: outcome.splits sum.splits if_splits)
  show ?thesis
  proof (cases "environ key")
    case None
    then show ?thesis by (simp add: env_ParseList_def)
  next
    case (Some str)
    obtain r where r: "parse_elements P TInt (split_on delimiter str) = Returns r"
      using no_panic [of "split_on delimiter str"] by (cases "parse_elements P TInt (split_on delimiter str)") auto
    with Some parse_elements_range [of P "split_on delimiter str"] show ?thesis
      by (cases r) (auto simp: env_ParseList_def parseListImpl_def list_all_iff split: list.splits)
  qed
qed

end
