(* ===== verification/Http_Parser.thy ===== *)
theory Http_Parser
  imports Typed_Value Sql_Client
begin

text \<open>
  Requests, headers and cookies as the sources use them of \<^verbatim>\<open>net/http\<close>, and \<^verbatim>\<open>pkg/http/parser.go\<close>: the data
  extractors of requests and responses.

  A request holds what \<^verbatim>\<open>net/http\<close> and the router have parsed: the path variables of \<^verbatim>\<open>mux.Vars\<close>, the query
  values, the cookies.  The context of a request is the one of theory \<open>Sql_Client\<close>; the pointer it may carry
  under \<^verbatim>\<open>handlerMetaContextKey\<close> is an index into the list of metadata records of the server.  The syntax of JSON
  is \<^verbatim>\<open>encoding/json\<close>'s (\<open>body_codec\<close>); how an object fills the fields of a struct is modelled.
\<close>

section \<open>Headers and cookies\<close>

record cookie =
  ck_Name :: string
  ck_Value :: string
  ck_Path :: string
  ck_Expires :: "time option"
  ck_HttpOnly :: bool

text \<open>A header map; the lines of \<^verbatim>\<open>Set-Cookie\<close> are kept as the cookies they were made from.\<close>

record header =
  hd_values :: "string \<rightharpoonup> string list"
  hd_cookies :: "cookie list"

definition header_empty :: header where
  "header_empty = \<lparr>hd_values = (\<lambda>_. None), hd_cookies = []\<rparr>"

text \<open>\<^verbatim>\<open>textproto.CanonicalMIMEHeaderKey\<close>: a key with a byte that is no token character is kept.\<close>

definition ascii_upper :: "char \<Rightarrow> char" where
  "ascii_upper c = (let n = code_point c in if 97 \<le> n \<and> n \<le> 122 then char_of (n - 32) else c)"

definition ascii_lower :: "char \<Rightarrow> char" where
  "ascii_lower c = (let n = code_point c in if 65 \<le> n \<and> n \<le> 90 then char_of (n + 32) else c)"

definition is_token_char :: "char \<Rightarrow> bool" where
  "is_token_char c =
     (let n = code_point c in
      48 \<le> n \<and> n \<le> 57 \<or> 65 \<le> n \<and> n \<le> 90 \<or> 97 \<le> n \<and> n \<le> 122
      \<or> n \<in> {33, 35, 36, 37, 38, 39, 42, 43, 45, 46, 94, 95, 96, 124, 126})"

fun canonical_chars :: "bool \<Rightarrow> string \<Rightarrow> string" where
  "canonical_chars upper [] = []"
| "canonical_chars upper (c # cs) =
     (if upper then ascii_upper c else ascii_lower c) # canonical_chars (c = CHR ''-'') cs"

definition canonical_key :: "string \<Rightarrow> string" where
  "canonical_key k = (if list_all is_token_char k then canonical_chars True k else k)"

definition header_Get :: "header \<Rightarrow> string \<Rightarrow> string" where
  "header_Get h k = (case hd_values h (canonical_key k) of Some (v # _) \<Rightarrow> v | _ \<Rightarrow> [])"

definition header_Set :: "string \<Rightarrow> string \<Rightarrow> header \<Rightarrow> header" where
  "header_Set k v h = h\<lparr>hd_values := (hd_values h)(canonical_key k \<mapsto> [v])\<rparr>"

text \<open>\<^verbatim>\<open>http.SetCookie\<close> adds no line for a cookie whose name is not a token.\<close>

definition http_SetCookie :: "cookie \<Rightarrow> header \<Rightarrow> header" where
  "http_SetCookie ck h =
     (if ck_Name ck \<noteq> [] \<and> list_all is_token_char (ck_Name ck) then h\<lparr>hd_cookies := hd_cookies h @ [ck]\<rparr> else h)"

lemma header_Get_Set: "header_Get (header_Set k v h) k' = (if canonical_key k' = canonical_key k then v else header_Get h k')"
  by (simp add: header_Get_def header_Set_def)

section \<open>Requests and data providers\<close>

record request =
  rq_Method :: string
  rq_Scheme :: string
  rq_Host :: string
  rq_Path :: string
  rq_RawQuery :: string
  rq_Vars :: "string \<rightharpoonup> string"
  rq_Query :: "string \<rightharpoonup> string list"
  rq_Header :: header
  rq_Cookies :: "cookie list"
  rq_Body :: string
  rq_Route :: string
  rq_ctx :: sql_ctx
  rq_meta :: "nat option"

record data_provider =
  dp_PathParameters :: "string \<rightharpoonup> string"
  dp_QueryParameters :: "string \<rightharpoonup> string list"
  dp_Header :: header
  dp_Cookies :: "cookie list outcome"
  dp_Body :: string

type_synonym 'a data_extractor = "data_provider \<Rightarrow> (go_error + 'a) outcome"

definition requestDataProvider :: "request \<Rightarrow> data_provider" where
  "requestDataProvider r =
     \<lparr>dp_PathParameters = rq_Vars r, dp_QueryParameters = rq_Query r, dp_Header = rq_Header r,
      dp_Cookies = Returns (rq_Cookies r), dp_Body = rq_Body r\<rparr>"

text \<open>A raw response, with the request it answers where there is one; the cookies are those it sets, and asking a nil response for them
  panics (the method is the embedded one).\<close>

record raw_response =
  rp_StatusCode :: int
  rp_Header :: header
  rp_Body :: string
  rp_Request :: "request option"

definition responseDataProvider :: "raw_response option \<Rightarrow> data_provider" where
  "responseDataProvider p =
     \<lparr>dp_PathParameters = (case p of Some rp \<Rightarrow> (case rp_Request rp of Some r \<Rightarrow> rq_Vars r | None \<Rightarrow> \<lambda>_. None) | None \<Rightarrow> \<lambda>_. None),
      dp_QueryParameters = (case p of Some rp \<Rightarrow> (case rp_Request rp of Some r \<Rightarrow> rq_Query r | None \<Rightarrow> \<lambda>_. None) | None \<Rightarrow> \<lambda>_. None),
      dp_Header = (case p of Some rp \<Rightarrow> rp_Header rp | None \<Rightarrow> header_empty),
      dp_Cookies = (case p of Some rp \<Rightarrow> Returns (hd_cookies (rp_Header rp)) | None \<Rightarrow> Panics),
      dp_Body = (case p of Some rp \<Rightarrow> rp_Body rp | None \<Rightarrow> [])\<rparr>"

definition ParseRequest :: "request \<Rightarrow> 'a data_extractor \<Rightarrow> err \<Rightarrow> (go_error + 'a) outcome" where
  "ParseRequest r extractor lastErr =
     (case lastErr of Some e \<Rightarrow> Returns (Inl e) | None \<Rightarrow> extractor (requestDataProvider r))"

definition ParseRequestOptional :: "request \<Rightarrow> 'a data_extractor \<Rightarrow> err \<Rightarrow> 'a option outcome" where
  "ParseRequestOptional r extractor lastErr =
     (case lastErr of
        Some e \<Rightarrow> Returns None
      | None \<Rightarrow> (case extractor (requestDataProvider r) of
                   Panics \<Rightarrow> Panics
                 | Returns (Inl e) \<Rightarrow> Returns None
                 | Returns (Inr v) \<Rightarrow> Returns (Some v)))"

definition ParseResponse :: "raw_response option \<Rightarrow> 'a data_extractor \<Rightarrow> err \<Rightarrow> (go_error + 'a) outcome" where
  "ParseResponse rp extractor lastErr =
     (case lastErr of Some e \<Rightarrow> Returns (Inl e) | None \<Rightarrow> extractor (responseDataProvider rp))"

definition ParseResponseOptional :: "raw_response option \<Rightarrow> 'a data_extractor \<Rightarrow> err \<Rightarrow> 'a option outcome" where
  "ParseResponseOptional rp extractor lastErr =
     (case lastErr of
        Some e \<Rightarrow> Returns None
      | None \<Rightarrow> (case extractor (responseDataProvider rp) of
                   Panics \<Rightarrow> Panics
                 | Returns (Inl e) \<Rightarrow> Returns None
                 | Returns (Inr v) \<Rightarrow> Returns (Some v)))"

section \<open>Extractors\<close>

abbreviation parsing_error :: "string \<Rightarrow> go_error" where
  "parsing_error m \<equiv> errorf m (Sentinel ErrParsingError)"

definition parseTypedValueImpl :: "value_parsers \<Rightarrow> gty \<Rightarrow> string \<Rightarrow> (go_error + dyn) outcome" where
  "parseTypedValueImpl P T v =
     (case ParseTypedValue P T v of
        Returns (Inl e) \<Rightarrow> Returns (Inl (Errorf '''' [Sentinel ErrParsingError, e]))
      | other \<Rightarrow> other)"

definition PathParameter :: "value_parsers \<Rightarrow> gty \<Rightarrow> string \<Rightarrow> dyn data_extractor" where
  "PathParameter P T param p =
     (case dp_PathParameters p param of
        None \<Rightarrow> Returns (Inl (parsing_error ''path parameter not found''))
      | Some paramValue \<Rightarrow> parseTypedValueImpl P T paramValue)"

definition QueryParameter :: "value_parsers \<Rightarrow> gty \<Rightarrow> string \<Rightarrow> dyn data_extractor" where
  "QueryParameter P T param p =
     (let v = (case dp_QueryParameters p param of Some (v # _) \<Rightarrow> v | _ \<Rightarrow> []) in
      if v = [] then Returns (Inl (parsing_error ''query parameter not found''))
      else parseTypedValueImpl P T v)"

fun parse_values :: "value_parsers \<Rightarrow> gty \<Rightarrow> string list \<Rightarrow> (go_error + dyn list) outcome" where
  "parse_values P T [] = Returns (Inr [])"
| "parse_values P T (v # vs) =
     (case parseTypedValueImpl P T v of
        Panics \<Rightarrow> Panics
      | Returns (Inl e) \<Rightarrow> Returns (Inl e)
      | Returns (Inr x) \<Rightarrow>
          (case parse_values P T vs of Returns (Inr xs) \<Rightarrow> Returns (Inr (x # xs)) | other \<Rightarrow> other))"

definition QueryParameters :: "value_parsers \<Rightarrow> gty \<Rightarrow> string \<Rightarrow> dyn list data_extractor" where
  "QueryParameters P T param p =
     (case dp_QueryParameters p param of
        None \<Rightarrow> Returns (Inl (parsing_error ''query parameter not found''))
      | Some vs \<Rightarrow> parse_values P T vs)"

definition parser_Header :: "value_parsers \<Rightarrow> gty \<Rightarrow> string \<Rightarrow> dyn data_extractor" where
  "parser_Header P T key p =
     (let h = header_Get (dp_Header p) key in
      if h = [] then Returns (Inl (parsing_error ''header with key not found''))
      else parseTypedValueImpl P T h)"

text \<open>The loop over the cookies keeps the last one with the name.\<close>

fun last_cookie :: "string \<Rightarrow> cookie option \<Rightarrow> cookie list \<Rightarrow> cookie option" where
  "last_cookie name acc [] = acc"
| "last_cookie name acc (c # cs) = last_cookie name (if ck_Name c = name then Some c else acc) cs"

definition parser_Cookie :: "string \<Rightarrow> cookie data_extractor" where
  "parser_Cookie name p =
     (case dp_Cookies p of
        Panics \<Rightarrow> Panics
      | Returns cookies \<Rightarrow>
          (case last_cookie name None cookies of
             Some c \<Rightarrow> Returns (Inr c)
           | None \<Rightarrow> Returns (Inl (parsing_error ''cookie with name not found''))))"

definition CookieValue :: "value_parsers \<Rightarrow> gty \<Rightarrow> string \<Rightarrow> dyn data_extractor" where
  "CookieValue P T name p =
     (case dp_Cookies p of
        Panics \<Rightarrow> Panics
      | Returns cookies \<Rightarrow>
          (case last_cookie name None cookies of
             Some c \<Rightarrow> parseTypedValueImpl P T (ck_Value c)
           | None \<Rightarrow> Returns (Inl (parsing_error ''cookie with name not found''))))"

section \<open>JSON bodies\<close>

text \<open>JSON values; a \<^verbatim>\<open>time.Time\<close> is only ever encoded, and its encoding can fail.\<close>

datatype json =
    JNull
  | JTime time
  | JBool bool
  | JNumber string
  | JString string
  | JArray "json list"
  | JObject "(string \<times> json) list"

record body_codec =
  bc_Decode :: "string \<Rightarrow> go_error + json"
  bc_Marshal :: "json \<Rightarrow> go_error + string"

text \<open>
  Filling a struct whose fields are strings: a member of the object goes to the field of its name, or else to one of that name
  up to case; a null changes nothing; a value of another type is an error that is reported after the rest has been read.
\<close>

definition field_for :: "string list \<Rightarrow> string \<Rightarrow> string option" where
  "field_for names key =
     (if key \<in> set names then Some key else find (\<lambda>n. to_lower n = to_lower key) names)"

fun fill_fields :: "string list \<Rightarrow> (string \<times> json) list \<Rightarrow> (string \<Rightarrow> string) \<times> bool \<Rightarrow> (string \<Rightarrow> string) \<times> bool" where
  "fill_fields names [] st = st"
| "fill_fields names ((key, v) # ms) (vals, bad) =
     fill_fields names ms
       (case field_for names key of
          None \<Rightarrow> (vals, bad)
        | Some n \<Rightarrow> (case v of JString s \<Rightarrow> (vals(n := s), bad) | JNull \<Rightarrow> (vals, bad) | _ \<Rightarrow> (vals, True)))"

definition unmarshal_type_error :: go_error where
  "unmarshal_type_error = errors_new ''json: cannot unmarshal''"

definition decode_strings :: "string list \<Rightarrow> json \<Rightarrow> go_error + (string \<Rightarrow> string)" where
  "decode_strings names j =
     (case j of
        JNull \<Rightarrow> Inr (\<lambda>_. [])
      | JObject ms \<Rightarrow> (case fill_fields names ms (\<lambda>_. [], False) of
                        (vals, bad) \<Rightarrow> if bad then Inl unmarshal_type_error else Inr vals)
      | _ \<Rightarrow> Inl unmarshal_type_error)"

text \<open>\<^verbatim>\<open>JSONBody[T]\<close>, with the filling of a \<^verbatim>\<open>T\<close> given.\<close>

definition JSONBody :: "body_codec \<Rightarrow> (json \<Rightarrow> go_error + 'a) \<Rightarrow> 'a data_extractor" where
  "JSONBody C fill p =
     (case bc_Decode C (dp_Body p) of
        Inl e \<Rightarrow> Returns (Inl (Errorf ''encode json body'' [Sentinel ErrParsingError, e]))
      | Inr j \<Rightarrow>
          (case fill j of
             Inl e \<Rightarrow> Returns (Inl (Errorf ''encode json body'' [Sentinel ErrParsingError, e]))
           | Inr v \<Rightarrow> Returns (Inr v)))"

section \<open>The contract of the extractors\<close>

text \<open>
  An extractor reports every failure as a parsing error, which is what the server turns into the status 400.
  Chained calls of \<^verbatim>\<open>ParseRequest\<close> return the first error.
\<close>

locale extractor =
  fixes xtr :: "'a data_extractor"
  assumes fails_parsing: "xtr p = Returns (Inl e) \<Longrightarrow> error_is e ErrParsingError"
begin

lemma ParseRequest_first_error: "ParseRequest r xtr (Some e) = Returns (Inl e)"
  by (simp add: ParseRequest_def)

lemma ParseRequest_fails_parsing:
  "ParseRequest r xtr None = Returns (Inl e) \<Longrightarrow> error_is e ErrParsingError"
  by (simp add: ParseRequest_def fails_parsing)

lemma ParseResponse_fails_parsing:
  "ParseResponse rp xtr None = Returns (Inl e) \<Longrightarrow> error_is e ErrParsingError"
  by (simp add: ParseResponse_def fails_parsing)

lemma ParseRequestOptional_agrees:
  "ParseRequestOptional r xtr None =
    (case ParseRequest r xtr None of Panics \<Rightarrow> Panics | Returns (Inl e) \<Rightarrow> Returns None | Returns (Inr v) \<Rightarrow> Returns (Some v))"
  by (simp add: ParseRequestOptional_def ParseRequest_def)

end

lemma parseTypedValueImpl_fails: "parseTypedValueImpl P T v = Returns (Inl e) \<Longrightarrow> error_is e ErrParsingError"
  by (auto simp: parseTypedValueImpl_def split: outcome.splits sum.splits)

lemma parse_values_fails: "parse_values P T vs = Returns (Inl e) \<Longrightarrow> error_is e ErrParsingError"
  by (induction vs) (auto split: outcome.splits sum.splits dest: parseTypedValueImpl_fails)

interpretation path: extractor "PathParameter P T param" for P T param
  by unfold_locales (auto simp: PathParameter_def split: option.splits dest: parseTypedValueImpl_fails)

interpretation query: extractor "QueryParameter P T param" for P T param
  by unfold_locales (auto simp: QueryParameter_def Let_def split: if_splits dest: parseTypedValueImpl_fails)

interpretation queries: extractor "QueryParameters P T param" for P T param
  by unfold_locales (auto simp: QueryParameters_def split: option.splits dest: parse_values_fails)

interpretation head: extractor "parser_Header P T key" for P T key
  by unfold_locales (auto simp: parser_Header_def Let_def split: if_splits dest: parseTypedValueImpl_fails)

interpretation cook: extractor "parser_Cookie name" for name
  by unfold_locales (auto simp: parser_Cookie_def split: option.splits outcome.splits)

interpretation cookval: extractor "CookieValue P T name" for P T name
  by unfold_locales (auto simp: CookieValue_def split: option.splits outcome.splits dest: parseTypedValueImpl_fails)

interpretation body: extractor "JSONBody C fill" for C fill
  by unfold_locales (auto simp: JSONBody_def split: sum.splits)

text \<open>Strings and UUIDs are parsed without panic.\<close>

lemma parse_string: "parseTypedValueImpl P TString v = Returns (Inr (VString v))"
  by (simp add: parseTypedValueImpl_def ParseTypedValue_def)

lemma parse_uuid:
  "parseTypedValueImpl P TUuid v = Returns (case vp_Uuid P v of
     Inl e \<Rightarrow> Inl (Errorf '''' [Sentinel ErrParsingError, errorf ''convert to type'' e]) | Inr u \<Rightarrow> Inr (VUuid u))"
  by (simp add: parseTypedValueImpl_def ParseTypedValue_def map_right_def split: sum.splits)

lemma JSONBody_returns: "\<exists>x. JSONBody C fill p = Returns x"
  by (simp add: JSONBody_def split: sum.splits)

lemma last_cookie_append: "last_cookie name acc (cs @ ds) = last_cookie name (last_cookie name acc cs) ds"
  by (induction cs arbitrary: acc) auto

end
