(* ===== verification/Http_Server.thy ===== *)
theory Http_Server
  imports Http_Parser Bus_Producer
begin

text \<open>
  The server side of \<^verbatim>\<open>pkg/http\<close>: deferred response writers, the handler wrapper, handler metadata, the
  middlewares (error mapping, authentication, logging, metrics, observability) and the server.

  A handler of \<^verbatim>\<open>net/http\<close> takes a writer and a request and changes the state of the process: the metadata records
  that contexts point to, the observations and the state of the application.  The interface \<^verbatim>\<open>ResponseWriter\<close> of the repository
  can only be written to, so what a \<^verbatim>\<open>HandlerFunc\<close> does with it is the list of the calls it makes.  The router
  (gorilla/mux) is outside the repository: routes carry their middlewares, outermost first, in the order in which they are
  registered.
\<close>

section \<open>Writers\<close>

text \<open>
  The connection's writer: the first status code is sent with the header of that moment, an informational one does not count,
  a code that is not of three digits panics; writing a body sends 200 first when nothing was sent.
\<close>

record conn =
  cn_header :: header
  cn_sent :: "(int \<times> header) option"
  cn_informational :: "int list"
  cn_body :: string
  cn_fault :: err

datatype writer = Conn conn | Deferring deferred
and deferred = DeferredResponseWriter (dw_w: writer) (dw_r: request) (dw_httpCode: int) (dw_data: string)

definition conn_WriteHeader :: "int \<Rightarrow> conn \<Rightarrow> conn outcome" where
  "conn_WriteHeader code c =
     (if code < 100 \<or> 999 < code then Panics
      else if cn_sent c \<noteq> None then Returns c
      else if code < 200 \<and> code \<noteq> 101 then Returns (c\<lparr>cn_informational := cn_informational c @ [code]\<rparr>)
      else Returns (c\<lparr>cn_sent := Some (code, cn_header c)\<rparr>))"

definition body_allowed :: "int \<Rightarrow> bool" where
  "body_allowed code \<longleftrightarrow> 200 \<le> code \<and> code \<noteq> 204 \<and> code \<noteq> 304"

definition conn_Write :: "string \<Rightarrow> conn \<Rightarrow> err \<times> conn" where
  "conn_Write bytes c =
     (let c1 = (if cn_sent c = None then c\<lparr>cn_sent := Some (200, cn_header c)\<rparr> else c)
      in if \<not> body_allowed (fst (the (cn_sent c1))) then (Some (errors_new ''http: request method or response status code does not allow body''), c1)
         else if cn_fault c1 \<noteq> None then (cn_fault c1, c1)
         else (None, c1\<lparr>cn_body := cn_body c1 @ bytes\<rparr>))"

text \<open>The status the client sees at the end.\<close>

definition client_status :: "conn \<Rightarrow> int" where
  "client_status c = (case cn_sent c of Some (code, _) \<Rightarrow> code | None \<Rightarrow> 200)"

fun writer_Header :: "writer \<Rightarrow> header" where
  "writer_Header (Conn c) = cn_header c"
| "writer_Header (Deferring (DeferredResponseWriter w r code d)) = writer_Header w"

fun writer_update_header :: "(header \<Rightarrow> header) \<Rightarrow> writer \<Rightarrow> writer" where
  "writer_update_header f (Conn c) = Conn (c\<lparr>cn_header := f (cn_header c)\<rparr>)"
| "writer_update_header f (Deferring (DeferredResponseWriter w r code d)) =
     Deferring (DeferredResponseWriter (writer_update_header f w) r code d)"

definition newDeferredResponseWriter :: "writer \<Rightarrow> request \<Rightarrow> deferred" where
  "newDeferredResponseWriter w r = DeferredResponseWriter w r 0 []"

definition deferred_Header :: "deferred \<Rightarrow> header" where
  "deferred_Header d = writer_Header (dw_w d)"

fun deferred_update_header :: "(header \<Rightarrow> header) \<Rightarrow> deferred \<Rightarrow> deferred" where
  "deferred_update_header f (DeferredResponseWriter w r code d) = DeferredResponseWriter (writer_update_header f w) r code d"

fun deferred_Write :: "string \<Rightarrow> deferred \<Rightarrow> deferred" where
  "deferred_Write bytes (DeferredResponseWriter w r code d) = DeferredResponseWriter w r code bytes"

fun deferred_WriteHeader :: "int \<Rightarrow> deferred \<Rightarrow> deferred" where
  "deferred_WriteHeader statusCode (DeferredResponseWriter w r code d) = DeferredResponseWriter w r statusCode d"

definition IsStatusCodeExplicitlyWritten :: "deferred \<Rightarrow> bool" where
  "IsStatusCodeExplicitlyWritten d \<longleftrightarrow> dw_httpCode d \<noteq> 0"

definition deferred_StatusCode :: "deferred \<Rightarrow> int" where
  "deferred_StatusCode d = (if IsStatusCodeExplicitlyWritten d then dw_httpCode d else 200)"

fun ClearData :: "deferred \<Rightarrow> deferred" where
  "ClearData (DeferredResponseWriter w r code d) = DeferredResponseWriter w r code []"

text \<open>The methods of the interface \<^verbatim>\<open>http.ResponseWriter\<close>.\<close>

fun writer_WriteHeader :: "int \<Rightarrow> writer \<Rightarrow> writer outcome" where
  "writer_WriteHeader code (Conn c) = (case conn_WriteHeader code c of Returns c' \<Rightarrow> Returns (Conn c') | Panics \<Rightarrow> Panics)"
| "writer_WriteHeader code (Deferring d) = Returns (Deferring (deferred_WriteHeader code d))"

fun writer_Write :: "string \<Rightarrow> writer \<Rightarrow> err \<times> writer" where
  "writer_Write bytes (Conn c) = (case conn_Write bytes c of (e, c') \<Rightarrow> (e, Conn c'))"
| "writer_Write bytes (Deferring d) = (None, Deferring (deferred_Write bytes d))"

section \<open>Metadata and the state of the process\<close>

record http_handler_metadata =
  hm_Auth :: "authentication option"
  hm_Code :: int
  hm_Panic :: bool
  hm_Error :: err

definition empty_metadata :: http_handler_metadata where
  "empty_metadata = \<lparr>hm_Auth = None, hm_Code = 0, hm_Panic = False, hm_Error = None\<rparr>"

record 'x srv =
  sv_metas :: "http_handler_metadata list"
  sv_obs :: "obs list"
  sv_uuids :: "nat \<Rightarrow> uuid"
  sv_used :: nat
  sv_app :: 'x

type_synonym 'x http_handler = "writer \<Rightarrow> request \<Rightarrow> 'x srv \<Rightarrow> unit outcome \<times> writer \<times> 'x srv"
type_synonym 'x handler_mw = "'x http_handler \<Rightarrow> 'x http_handler"

text \<open>Without a pointer in the context \<^verbatim>\<open>getHandlerMetadata\<close> returns a fresh record, and writes to it are lost.\<close>

definition getHandlerMetadata :: "request \<Rightarrow> 'x srv \<Rightarrow> http_handler_metadata" where
  "getHandlerMetadata r s = (case rq_meta r of Some p \<Rightarrow> sv_metas s ! p | None \<Rightarrow> empty_metadata)"

definition update_metadata :: "request \<Rightarrow> (http_handler_metadata \<Rightarrow> http_handler_metadata) \<Rightarrow> 'x srv \<Rightarrow> 'x srv" where
  "update_metadata r f s =
     (case rq_meta r of Some p \<Rightarrow> s\<lparr>sv_metas := (sv_metas s)[p := f (sv_metas s ! p)]\<rparr> | None \<Rightarrow> s)"

definition http_withHandlerMetadata :: "'x handler_mw" where
  "http_withHandlerMetadata handler w r s =
     handler w (r\<lparr>rq_meta := Some (length (sv_metas s))\<rparr>) (s\<lparr>sv_metas := sv_metas s @ [empty_metadata]\<rparr>)"

definition PersistWrite :: "deferred \<Rightarrow> 'x srv \<Rightarrow> unit outcome \<times> deferred \<times> 'x srv" where
  "PersistWrite d s =
     (case d of DeferredResponseWriter w r code bytes \<Rightarrow>
      (case (if IsStatusCodeExplicitlyWritten d then writer_WriteHeader code w else Returns w) of
         Panics \<Rightarrow> (Panics, d, s)
       | Returns w1 \<Rightarrow>
           if bytes = [] then (Returns (), DeferredResponseWriter w1 r code bytes, s)
           else (case writer_Write bytes w1 of
                   (None, w2) \<Rightarrow> (Returns (), DeferredResponseWriter w2 r code bytes, s)
                 | (Some e, w2) \<Rightarrow>
                     (Returns (), DeferredResponseWriter w2 r code bytes,
                      update_metadata r (\<lambda>m. if hm_Error m = None then m\<lparr>hm_Error := Some (errorf ''write body'' e)\<rparr> else m) s))))"

section \<open>Response writer and handler wrapper\<close>

record response_writer =
  rs_deferred :: deferred
  rs_bodyEncoder :: "(header \<Rightarrow> (go_error + string) \<times> header) option"

datatype resp_call =
    SetHeader string string
  | SetStatusCode int
  | SetCookie cookie
  | SetJSONBody "go_error + string"

text \<open>\<^verbatim>\<open>SetJSONBody\<close> is given what \<^verbatim>\<open>json.Marshal\<close> returns for its data; the closure runs it when the response is written.\<close>

definition json_encoder :: "go_error + string \<Rightarrow> header \<Rightarrow> (go_error + string) \<times> header" where
  "json_encoder marshalled h =
     (case marshalled of
        Inl e \<Rightarrow> (Inl (errorf ''encode body'' e), h)
      | Inr bodyEncoded \<Rightarrow> (Inr bodyEncoded, header_Set ''Content-Type'' ''application/json'' h))"

fun apply_call :: "resp_call \<Rightarrow> response_writer \<Rightarrow> response_writer" where
  "apply_call (SetHeader key v) w = w\<lparr>rs_deferred := deferred_update_header (header_Set key v) (rs_deferred w)\<rparr>"
| "apply_call (SetStatusCode httpCode) w = w\<lparr>rs_deferred := deferred_WriteHeader httpCode (rs_deferred w)\<rparr>"
| "apply_call (SetCookie ck) w = w\<lparr>rs_deferred := deferred_update_header (http_SetCookie ck) (rs_deferred w)\<rparr>"
| "apply_call (SetJSONBody marshalled) w = w\<lparr>rs_bodyEncoder := Some (json_encoder marshalled)\<rparr>"

type_synonym 'x handler_func = "request \<Rightarrow> 'x \<Rightarrow> err outcome \<times> resp_call list \<times> 'x"

definition write_status :: "err \<Rightarrow> deferred \<Rightarrow> deferred" where
  "write_status e d =
     (if IsStatusCodeExplicitlyWritten d then d
      else if errors_is e (Some ErrParsingError) then deferred_WriteHeader 400 d
      else if errors_is e (Some ErrUnauthenticated) then deferred_WriteHeader 401 d
      else if errors_is e (Some ErrPermissionDenied) then deferred_WriteHeader 403 d
      else if e \<noteq> None then deferred_WriteHeader 500 d
      else d)"

definition encode_body :: "response_writer \<Rightarrow> err \<Rightarrow> deferred \<Rightarrow> string \<times> err \<times> deferred" where
  "encode_body w e d =
     (case rs_bodyEncoder w of
        None \<Rightarrow> ([], e, d)
      | Some bodyEncoder \<Rightarrow>
          (case bodyEncoder (deferred_Header d) of
             (Inl encodingErr, h) \<Rightarrow>
               ([], if e = None then Some encodingErr else e,
                deferred_WriteHeader 500 (deferred_update_header (\<lambda>_. h) d))
           | (Inr bodyEncoded, h) \<Rightarrow> (bodyEncoded, e, deferred_update_header (\<lambda>_. h) d)))"

definition responseWriter_Write :: "response_writer \<Rightarrow> request \<Rightarrow> err \<Rightarrow> 'x srv \<Rightarrow> unit outcome \<times> response_writer \<times> 'x srv" where
  "responseWriter_Write w r e s =
     (case encode_body w e (write_status e (rs_deferred w)) of (bodyEncoded, e', d) \<Rightarrow>
      (let d1 = (if bodyEncoded \<noteq> [] then deferred_Write bodyEncoded d else d)
       in case PersistWrite d1 (update_metadata r (\<lambda>m. m\<lparr>hm_Code := deferred_StatusCode d1, hm_Error := e'\<rparr>) s) of
            (res, d2, s') \<Rightarrow> (res, w\<lparr>rs_deferred := d2\<rparr>, s')))"

definition WritePanic :: "response_writer \<Rightarrow> request \<Rightarrow> 'x srv \<Rightarrow> unit outcome \<times> response_writer \<times> 'x srv" where
  "WritePanic w r s =
     (case PersistWrite (ClearData (deferred_WriteHeader 500 (rs_deferred w)))
             (update_metadata r (\<lambda>m. m\<lparr>hm_Code := 500, hm_Panic := True\<rparr>) s) of
        (res, d, s') \<Rightarrow> (res, w\<lparr>rs_deferred := d\<rparr>, s'))"

definition httpHandlerWrapper :: "'x handler_func \<Rightarrow> 'x http_handler" where
  "httpHandlerWrapper handler w r s =
     (case handler r (sv_app s) of (res, calls, x) \<Rightarrow>
      (let respWriter = fold apply_call calls \<lparr>rs_deferred = newDeferredResponseWriter w r, rs_bodyEncoder = None\<rparr>;
           s1 = s\<lparr>sv_app := x\<rparr>;
           (out, w', s') =
             (case res of
                Panics \<Rightarrow> WritePanic respWriter r s1
              | Returns e \<Rightarrow>
                  (case responseWriter_Write respWriter r e s1 of
                     (Returns u, w2, s2) \<Rightarrow> (Returns u, w2, s2)
                   | (Panics, w2, s2) \<Rightarrow> WritePanic w2 r s2))
       in (out, dw_w (rs_deferred w'), s')))"

section \<open>Options\<close>

text \<open>\<^verbatim>\<open>healthPath\<close> and the default health handler; its header field is spelt \<^verbatim>\<open>ContentType\<close>.\<close>

definition healthPath :: string where
  "healthPath = ''/healthz''"

definition health_handler :: "'x http_handler" where
  "health_handler w r s =
     (case writer_WriteHeader 200 (writer_update_header (header_Set ''ContentType'' ''application/json'') w) of
        Panics \<Rightarrow> (Panics, w, s)
      | Returns w1 \<Rightarrow>
          (Returns (), snd (writer_Write ([CHR 0x7B] @ [CHR 0x22] @ ''status'' @ [CHR 0x22] @ '':'' @ [CHR 0x22] @ ''OK'' @ [CHR 0x22]
             @ [CHR 0x7D] @ [CHR 0x0A]) w1), s))"

text \<open>The entries of a Go map come in the order in which the loop happens to visit them.\<close>

definition WithErrorMappingPredicate :: "(int \<times> (err \<Rightarrow> bool)) list \<Rightarrow> 'x handler_mw" where
  "WithErrorMappingPredicate preds handler w r s =
     (if preds = [] then handler w r s
      else case handler (Deferring (newDeferredResponseWriter w r)) r s of
             (res, Conn c, s1) \<Rightarrow> (Panics, Conn c, s1)
           | (res, Deferring d, s1) \<Rightarrow>
               (let meta = getHandlerMetadata r s1;
                    (d2, s2) =
                      (if res = Panics \<or> hm_Error meta = None \<or> hm_Panic meta then (d, s1)
                       else case find (\<lambda>(statusCode, predicate). predicate (hm_Error meta)) preds of
                              None \<Rightarrow> (d, s1)
                            | Some (statusCode, _) \<Rightarrow>
                                (deferred_WriteHeader statusCode d, update_metadata r (\<lambda>m. m\<lparr>hm_Code := statusCode\<rparr>) s1));
                    (res', d3, s3) = PersistWrite d2 s2
                in (if res = Panics then Panics else res', dw_w d3, s3)))"

definition WithErrorMapping :: "(int \<times> sentinel list) list \<Rightarrow> 'x handler_mw" where
  "WithErrorMapping statusCodes =
     WithErrorMappingPredicate
       (map (\<lambda>(statusCode, errs). (statusCode, \<lambda>e. list_ex (\<lambda>expected. errors_is e (Some expected)) errs)) statusCodes)"

section \<open>Authentication\<close>

definition setHandlerAuthentication :: "request \<Rightarrow> authentication \<Rightarrow> 'x srv \<Rightarrow> request \<times> 'x srv" where
  "setHandlerAuthentication r a s =
     (r\<lparr>rq_ctx := (rq_ctx r)\<lparr>cx_auth := WithAuthentication a (cx_auth (rq_ctx r))\<rparr>\<rparr>,
      update_metadata r (\<lambda>m. m\<lparr>hm_Auth := Some a\<rparr>) s)"

definition writeHandlerResult :: "request \<Rightarrow> writer \<Rightarrow> int \<Rightarrow> go_error \<Rightarrow> 'x srv \<Rightarrow> unit outcome \<times> writer \<times> 'x srv" where
  "writeHandlerResult r w httpCode e s =
     (let s1 = update_metadata r (\<lambda>m. m\<lparr>hm_Code := httpCode, hm_Error := Some e\<rparr>) s
      in case writer_WriteHeader httpCode w of Panics \<Rightarrow> (Panics, w, s1) | Returns w1 \<Rightarrow> (Returns (), w1, s1))"

type_synonym auth_token_provider = "request \<Rightarrow> token option outcome"

fun first_token :: "auth_token_provider list \<Rightarrow> request \<Rightarrow> token option outcome" where
  "first_token [] r = Returns None"
| "first_token (tokenProvider # ps) r =
     (case tokenProvider r of Returns None \<Rightarrow> first_token ps r | other \<Rightarrow> other)"

definition WithAuth :: "(token \<Rightarrow> go_error + authentication) \<Rightarrow> auth_token_provider list \<Rightarrow> 'x handler_mw" where
  "WithAuth authenticate tokenProviders handler w r s =
     (case first_token tokenProviders r of
        Panics \<Rightarrow> (Panics, w, s)
      | Returns None \<Rightarrow> (case setHandlerAuthentication r None s of (r', s') \<Rightarrow> handler w r' s')
      | Returns (Some tok) \<Rightarrow>
          (case authenticate tok of
             Inl e \<Rightarrow> writeHandlerResult r w 500 e s
           | Inr authData \<Rightarrow> (case setHandlerAuthentication r authData s of (r', s') \<Rightarrow> handler w r' s')))"

definition WithAuthenticationRequirement :: "'x handler_mw" where
  "WithAuthenticationRequirement handler w r s =
     (case ctx_IsAuthenticated (cx_auth (rq_ctx r)) of
        Inl e \<Rightarrow> writeHandlerResult r w 500 e s
      | Inr isAuthenticated \<Rightarrow>
          if \<not> isAuthenticated then writeHandlerResult r w 401 (Sentinel ErrUnauthenticated) s
          else handler w r s)"

text \<open>\<^verbatim>\<open>internal/pkg/http/authtoken.go\<close>.\<close>

definition HeaderAuthUserID :: string where "HeaderAuthUserID = ''X-Auth-User-ID''"
definition HeaderAuthAdminUserID :: string where "HeaderAuthAdminUserID = ''X-Auth-AdminUser-ID''"
definition HeaderAuthServiceName :: string where "HeaderAuthServiceName = ''X-Auth-Service-Name''"
definition HeaderRequestID :: string where "HeaderRequestID = ''X-Request-ID''"

definition UserIDTokenProvider :: "value_parsers \<Rightarrow> auth_token_provider" where
  "UserIDTokenProvider P r =
     (case ParseRequest r (parser_Header P TUuid HeaderAuthUserID) None of
        Panics \<Rightarrow> Panics
      | Returns (Inr (VUuid userID)) \<Rightarrow> Returns (if userID = uuid_nil then None else Some (UserIDToken userID))
      | Returns _ \<Rightarrow> Returns None)"

definition AdminUserIDTokenProvider :: "value_parsers \<Rightarrow> auth_token_provider" where
  "AdminUserIDTokenProvider P r =
     (case ParseRequest r (parser_Header P TString HeaderAuthAdminUserID) None of
        Panics \<Rightarrow> Panics
      | Returns (Inr (VString userID)) \<Rightarrow> Returns (if userID = [] then None else Some (AdminUserIDToken userID))
      | Returns _ \<Rightarrow> Returns None)"

definition ServiceNameTokenProvider :: "value_parsers \<Rightarrow> auth_token_provider" where
  "ServiceNameTokenProvider P r =
     (case ParseRequest r (parser_Header P TString HeaderAuthServiceName) None of
        Panics \<Rightarrow> Panics
      | Returns (Inr (VString serviceName)) \<Rightarrow> Returns (if serviceName = [] then None else Some (ServiceNameToken serviceName))
      | Returns _ \<Rightarrow> Returns None)"

section \<open>Logging, metrics, observability\<close>

text \<open>A nil interface is \<^const>\<open>None\<close>, an authentication without a principal is \<^term>\<open>Some None\<close>.\<close>

definition getAuthFieldsLogger :: "(uuid \<Rightarrow> string) \<Rightarrow> authentication option \<Rightarrow> logger \<Rightarrow> logger" where
  "getAuthFieldsLogger uuid_string authentication lg =
     (case authentication of
        None \<Rightarrow> lg
      | Some a \<Rightarrow>
          log_WithField lg ''auth'' (FFields
            [(''type'', FOptStr (map_option principal_Type a)),
             (''id'', FOptStr (case a of None \<Rightarrow> None | Some p \<Rightarrow> principal_ID uuid_string p))]))"

definition getResponseFieldsLogger :: "string \<Rightarrow> string \<Rightarrow> request \<Rightarrow> int \<Rightarrow> logger \<Rightarrow> logger" where
  "getResponseFieldsLogger destinationName routeName r responseCode lg =
     log_WithField lg ''httpRequest'' (FFields
       ([(''method'', FStr (rq_Method r)), (''scheme'', FStr (rq_Scheme r)), (''host'', FStr (rq_Host r)),
         (''path'', FStr (rq_Path r)), (''rawQuery'', FStr (rq_RawQuery r))]
        @ (if destinationName \<noteq> [] then [(''destination'', FStr destinationName)] else [])
        @ (if routeName \<noteq> [] then [(''route'', FStr routeName)] else [])
        @ (if responseCode \<noteq> 0 then [(''responseCode'', FInt responseCode)] else [])))"

definition getRouteNameFieldsLogger :: "string \<Rightarrow> logger \<Rightarrow> logger" where
  "getRouteNameFieldsLogger routeName lg =
     (if routeName = [] then lg else log_WithField lg ''httpRequest'' (FFields [(''route'', FStr routeName)]))"

definition http_observe :: "obs list outcome \<Rightarrow> 'x srv \<Rightarrow> unit outcome \<times> 'x srv" where
  "http_observe os s = (case os of Panics \<Rightarrow> (Panics, s) | Returns xs \<Rightarrow> (Returns (), s\<lparr>sv_obs := sv_obs s @ xs\<rparr>))"

text \<open>The message and the stack of a panic are left out of the record.\<close>

definition WithLogging :: "(uuid \<Rightarrow> string) \<Rightarrow> logger \<Rightarrow> level \<Rightarrow> level \<Rightarrow> string list \<Rightarrow> 'x handler_mw" where
  "WithLogging uuid_string lg infoLevel errorLevel excludedPaths handler w r s =
     (if rq_Path r \<in> set (excludedPaths @ [healthPath]) then handler w r s
      else case handler w r s of
             (Panics, w1, s1) \<Rightarrow> (Panics, w1, s1)
           | (Returns _, w1, s1) \<Rightarrow>
               (let result = getHandlerMetadata r s1;
                    l = getResponseFieldsLogger [] (rq_Route r) r (hm_Code result) (getAuthFieldsLogger uuid_string (hm_Auth result) lg);
                    ctx = Some (cx_log (rq_ctx r));
                    written =
                      (if hm_Panic result then log_Error (log_WithField l ''panic'' (FFields [])) ctx ''request handled with panic''
                       else if 500 \<le> hm_Code result
                       then log_Log (log_WithError l (hm_Error result)) ctx errorLevel ''request handled with internal error''
                       else log_Log (log_WithError l (hm_Error result)) ctx infoLevel ''request handled'')
                in case http_observe written s1 of (res, s2) \<Rightarrow> (res, w1, s2)))"

definition WithMetrics :: "(int \<Rightarrow> string) \<Rightarrow> metrics \<Rightarrow> 'x handler_mw" where
  "WithMetrics code_text ms handler w r s =
     (case handler w r s of
        (Panics, w1, s1) \<Rightarrow> (Panics, w1, s1)
      | (Returns _, w1, s1) \<Rightarrow>
          (let result = getHandlerMetadata r s1;
               authType = (case hm_Auth result of Some (Some p) \<Rightarrow> Some (principal_Type p) | _ \<Rightarrow> None);
               labels = [(''authType'', FOptStr authType), (''method'', FStr (rq_Method r)), (''path'', FStr (rq_Path r))];
               panics = (if hm_Panic result then met_Increment (met_With ms labels) ''http_api_request_panics_total'' else []);
               duration = met_Duration (met_With ms (labels @ [(''code'', FStr (code_text (hm_Code result)))]))
                 ''http_api_request_duration_seconds''
           in (Returns (), w1, s1\<lparr>sv_obs := sv_obs s1 @ panics @ duration\<rparr>)))"

type_synonym 'x field_extractor = "request \<Rightarrow> 'x srv \<Rightarrow> string \<times> 'x srv"

definition ObservabilityFieldHeaderExtractor :: "string \<Rightarrow> 'x field_extractor" where
  "ObservabilityFieldHeaderExtractor h r s = (header_Get (rq_Header r) h, s)"

definition ObservabilityFieldRandomUUIDExtractor :: "(uuid \<Rightarrow> string) \<Rightarrow> 'x field_extractor" where
  "ObservabilityFieldRandomUUIDExtractor uuid_string r s =
     (uuid_string (sv_uuids s (sv_used s)), s\<lparr>sv_used := Suc (sv_used s)\<rparr>)"

fun first_value :: "'x field_extractor list \<Rightarrow> request \<Rightarrow> 'x srv \<Rightarrow> string \<times> 'x srv" where
  "first_value [] r s = ([], s)"
| "first_value (x # xs) r s = (case x r s of (v, s') \<Rightarrow> if v \<noteq> [] then (v, s') else first_value xs r s')"

fun observe_fields :: "observer \<Rightarrow> (string \<times> 'x field_extractor list) list \<Rightarrow> request \<Rightarrow> 'x srv \<Rightarrow> request \<times> 'x srv" where
  "observe_fields ob [] r s = (r, s)"
| "observe_fields ob ((field, extractors) # fs) r s =
     (case first_value extractors r s of
        (v, s') \<Rightarrow>
          observe_fields ob fs (if v \<noteq> [] then r\<lparr>rq_ctx := observer_WithField ob (rq_ctx r) field v\<rparr> else r) s')"

definition WithObservability :: "observer \<Rightarrow> (string \<times> 'x field_extractor list) list \<Rightarrow> 'x handler_mw" where
  "WithObservability ob fs handler w r s = (case observe_fields ob fs r s of (r', s') \<Rightarrow> handler w r' s')"

section \<open>Server\<close>

text \<open>\<^verbatim>\<open>getRouteName\<close>: \<^verbatim>\<open>unicode.Latin\<close> and the digits below U+0100; the two small letters whose capital lies above are kept.\<close>

definition is_latin_or_digit :: "char \<Rightarrow> bool" where
  "is_latin_or_digit c =
     (let n = code_point c in
      48 \<le> n \<and> n \<le> 57 \<or> 65 \<le> n \<and> n \<le> 90 \<or> 97 \<le> n \<and> n \<le> 122 \<or> n = 170 \<or> n = 186
      \<or> 192 \<le> n \<and> n \<noteq> 215 \<and> n \<noteq> 247)"

definition upper_char :: "char \<Rightarrow> char" where
  "upper_char c =
     (let n = code_point c in
      if 97 \<le> n \<and> n \<le> 122 \<or> 224 \<le> n \<and> n \<le> 254 \<and> n \<noteq> 247 then char_of (n - 32) else c)"

definition trim_slashes :: "string \<Rightarrow> string" where
  "trim_slashes p = rev (dropWhile (\<lambda>c. c = CHR ''/'') (rev (dropWhile (\<lambda>c. c = CHR ''/'') p)))"

definition route_char :: "char \<Rightarrow> string" where
  "route_char c =
     (if is_latin_or_digit c then [c] else if c = CHR 0x7B \<or> c = CHR 0x7D then [] else ''_'')"

definition getRouteName :: "string \<Rightarrow> string \<Rightarrow> string" where
  "getRouteName method path = map upper_char method @ ''_'' @ concat (map route_char (trim_slashes path))"

record 'x http_route =
  ro_Name :: string
  ro_Method :: string
  ro_Path :: string
  ro_mws :: "'x handler_mw list"
  ro_handler :: "'x http_handler"

record 'x server =
  sr_Addr :: string
  sr_ShutdownTimeout :: int
  sr_mws :: "'x handler_mw list"
  sr_routes :: "'x http_route list"

datatype 'x handler_option = UseMW "'x handler_mw" | AddRoute "'x http_route" | UseCORS

definition WithHealthCheck :: "'x handler_func option \<Rightarrow> 'x handler_option" where
  "WithHealthCheck customHandlerFunc =
     AddRoute \<lparr>ro_Name = getRouteName ''GET'' healthPath, ro_Method = ''GET'', ro_Path = healthPath, ro_mws = [],
       ro_handler = (case customHandlerFunc of None \<Rightarrow> health_handler | Some h \<Rightarrow> httpHandlerWrapper h)\<rparr>"

text \<open>The middlewares an option list adds to a router and the routes it adds; the CORS middleware of the router package is an argument.\<close>

definition option_mws :: "'x handler_mw \<Rightarrow> 'x handler_option list \<Rightarrow> 'x handler_mw list" where
  "option_mws cors opts = concat (map (\<lambda>p. case p of UseMW mw \<Rightarrow> [mw] | AddRoute _ \<Rightarrow> [] | UseCORS \<Rightarrow> [cors]) opts)"

definition option_routes :: "'x handler_option list \<Rightarrow> 'x http_route list" where
  "option_routes opts = concat (map (\<lambda>p. case p of AddRoute ro \<Rightarrow> [ro] | _ \<Rightarrow> []) opts)"

definition default_server :: "'x server" where
  "default_server = \<lparr>sr_Addr = '':8080'', sr_ShutdownTimeout = 10 * 1000000000, sr_mws = [http_withHandlerMetadata], sr_routes = []\<rparr>"

definition NewServer :: "('x server \<Rightarrow> 'x server) list \<Rightarrow> 'x server" where
  "NewServer opts = fold (\<lambda>p s. p s) opts default_server"

definition WithServerAddress :: "string \<Rightarrow> 'x server \<Rightarrow> 'x server" where
  "WithServerAddress addr srv = srv\<lparr>sr_Addr := addr\<rparr>"

definition WithHandlerOptions :: "'x handler_mw \<Rightarrow> 'x handler_option list \<Rightarrow> 'x server \<Rightarrow> 'x server" where
  "WithHandlerOptions cors opts srv =
     srv\<lparr>sr_mws := sr_mws srv @ option_mws cors opts, sr_routes := sr_routes srv @ option_routes opts\<rparr>"

record 'x endpoint =
  ep_Method :: string
  ep_Path :: string
  ep_Handle :: "'x handler_func"

definition server_Register :: "'x handler_mw \<Rightarrow> 'x endpoint \<Rightarrow> 'x handler_option list \<Rightarrow> 'x server \<Rightarrow> 'x server" where
  "server_Register cors ep opts srv =
     srv\<lparr>sr_routes := sr_routes srv @ map (\<lambda>ro. ro\<lparr>ro_mws := option_mws cors opts @ ro_mws ro\<rparr>) (option_routes opts) @
       [\<lparr>ro_Name = getRouteName (ep_Method ep) (ep_Path ep), ro_Method = ep_Method ep, ro_Path = ep_Path ep,
         ro_mws = option_mws cors opts, ro_handler = httpHandlerWrapper (ep_Handle ep)\<rparr>]\<rparr>"

text \<open>What a matched route runs.\<close>

definition run_route :: "'x server \<Rightarrow> 'x http_route \<Rightarrow> 'x http_handler" where
  "run_route srv ro w r s =
     foldr (\<lambda>mw h. mw h) (sr_mws srv @ ro_mws ro) (ro_handler ro) w (r\<lparr>rq_Route := ro_Name ro\<rparr>) s"

text \<open>\<^verbatim>\<open>Listener\<close>: the server stops by itself, or the context is done and \<^verbatim>\<open>Shutdown\<close> returns.\<close>

datatype listen_event = ServerDone err | ContextDone err

definition server_shutdown :: "err \<Rightarrow> err" where
  "server_shutdown shutdownErr =
     (case shutdownErr of
        Some e \<Rightarrow> if \<not> errors_is (Some e) (Some HttpErrServerClosed) then Some (errorf ''shutdown'' e) else Some e
      | None \<Rightarrow> None)"

definition server_Listener :: "listen_event \<Rightarrow> err" where
  "server_Listener ev =
     (let e = (case ev of ServerDone e \<Rightarrow> e | ContextDone shutdownErr \<Rightarrow> server_shutdown shutdownErr)
      in if errors_is e (Some HttpErrServerClosed) \<or> e = None then None
         else map_option (errorf ''http listener'') e)"

section \<open>What a client receives\<close>

text \<open>What a list of calls amounts to: the last status code, the last body, the header changes.\<close>

definition explicit_code :: "resp_call list \<Rightarrow> int \<Rightarrow> int" where
  "explicit_code = fold (\<lambda>call code. case call of SetStatusCode n \<Rightarrow> n | _ \<Rightarrow> code)"

definition set_body :: "resp_call list \<Rightarrow> (go_error + string) option \<Rightarrow> (go_error + string) option" where
  "set_body = fold (\<lambda>call b. case call of SetJSONBody m \<Rightarrow> Some m | _ \<Rightarrow> b)"

definition set_headers :: "resp_call list \<Rightarrow> header \<Rightarrow> header" where
  "set_headers = fold (\<lambda>call h. case call of SetHeader k v \<Rightarrow> header_Set k v h | SetCookie ck \<Rightarrow> http_SetCookie ck h | _ \<Rightarrow> h)"

definition client_header :: "conn \<Rightarrow> header" where
  "client_header c = (case cn_sent c of Some (_, h) \<Rightarrow> h | None \<Rightarrow> cn_header c)"

definition error_status :: "err \<Rightarrow> int" where
  "error_status e =
     (if errors_is e (Some ErrParsingError) then 400
      else if errors_is e (Some ErrUnauthenticated) then 401
      else if errors_is e (Some ErrPermissionDenied) then 403
      else if e \<noteq> None then 500 else 200)"

definition status_of :: "err outcome \<Rightarrow> resp_call list \<Rightarrow> int" where
  "status_of res calls =
     (case res of
        Panics \<Rightarrow> 500
      | Returns e \<Rightarrow>
          (case set_body calls None of
             Some (Inl _) \<Rightarrow> 500
           | _ \<Rightarrow> if explicit_code calls 0 \<noteq> 0 then explicit_code calls 0 else error_status e))"

definition body_of :: "err outcome \<Rightarrow> resp_call list \<Rightarrow> string" where
  "body_of res calls = (case (res, set_body calls None) of (Returns e, Some (Inr b)) \<Rightarrow> b | _ \<Rightarrow> [])"

definition header_of :: "err outcome \<Rightarrow> resp_call list \<Rightarrow> header \<Rightarrow> header" where
  "header_of res calls h =
     (case (res, set_body calls None) of
        (Returns e, Some (Inr b)) \<Rightarrow> header_Set ''Content-Type'' ''application/json'' (set_headers calls h)
      | _ \<Rightarrow> set_headers calls h)"

lemma update_header_update [simp]:
  "writer_update_header g (writer_update_header f w) = writer_update_header (\<lambda>h. g (f h)) w"
  by (induction f w rule: writer_update_header.induct) simp_all

lemma update_header_id [simp]: "writer_update_header (\<lambda>h. h) w = w"
  by (induction "\<lambda>h :: header. h" w rule: writer_update_header.induct) simp_all

lemma fold_apply_call:
  "fold apply_call calls \<lparr>rs_deferred = DeferredResponseWriter (writer_update_header f w) r code d, rs_bodyEncoder = map_option json_encoder b\<rparr>
    = \<lparr>rs_deferred = DeferredResponseWriter (writer_update_header (\<lambda>h. set_headers calls (f h)) w) r (explicit_code calls code) d,
       rs_bodyEncoder = map_option json_encoder (set_body calls b)\<rparr>"
proof (induction calls arbitrary: f code b)
  case Nil
  then show ?case by (simp add: explicit_code_def set_body_def set_headers_def)
next
  case (Cons call calls)
  note defs = explicit_code_def set_body_def set_headers_def
  show ?case
  proof (cases call)
    case (SetJSONBody m)
    have "Some (json_encoder m) = map_option json_encoder (Some m)" by simp
    then show ?thesis using Cons.IH [of f code "Some m"] SetJSONBody by (simp add: defs)
  qed (use Cons.IH [of _ _ b] in \<open>simp_all add: defs\<close>)
qed

lemma calls_on_fresh:
  "fold apply_call calls \<lparr>rs_deferred = newDeferredResponseWriter (Conn c) r, rs_bodyEncoder = None\<rparr>
    = \<lparr>rs_deferred = DeferredResponseWriter (Conn (c\<lparr>cn_header := set_headers calls (cn_header c)\<rparr>)) r (explicit_code calls 0) [],
       rs_bodyEncoder = map_option json_encoder (set_body calls None)\<rparr>"
  using fold_apply_call [of calls "\<lambda>h. h" "Conn c" r 0 "[]" None] by (simp add: newDeferredResponseWriter_def)

text \<open>Persisting a response on a connection on which nothing was sent.\<close>

definition sent_to :: "conn \<Rightarrow> int \<Rightarrow> string \<Rightarrow> conn" where
  "sent_to c code bytes =
     c\<lparr>cn_sent := (if code = 0 \<and> bytes = [] then None else Some (if code = 0 then 200 else code, cn_header c)),
       cn_body := cn_body c @ (if body_allowed (if code = 0 then 200 else code) \<and> cn_fault c = None then bytes else [])\<rparr>"

definition sent_error :: "conn \<Rightarrow> int \<Rightarrow> string \<Rightarrow> err" where
  "sent_error c code bytes =
     (if bytes = [] then None
      else if \<not> body_allowed (if code = 0 then 200 else code)
      then Some (errors_new ''http: request method or response status code does not allow body'')
      else cn_fault c)"

lemma PersistWrite_conn:
  assumes "cn_sent c = None" and "code = 0 \<or> 200 \<le> code \<and> code \<le> 999"
  shows "PersistWrite (DeferredResponseWriter (Conn c) r code bytes) s =
    (Returns (), DeferredResponseWriter (Conn (sent_to c code bytes)) r code bytes,
     case sent_error c code bytes of None \<Rightarrow> s
     | Some e \<Rightarrow> update_metadata r (\<lambda>m. if hm_Error m = None then m\<lparr>hm_Error := Some (errorf ''write body'' e)\<rparr> else m) s)"
  using assms
  by (cases c) (auto simp: PersistWrite_def IsStatusCodeExplicitlyWritten_def conn_WriteHeader_def conn_Write_def body_allowed_def
      sent_to_def sent_error_def Let_def split: option.splits)

lemma write_status_conn:
  "write_status e (DeferredResponseWriter w r code d) =
    DeferredResponseWriter w r (if code \<noteq> 0 then code else if error_status e = 200 then 0 else error_status e) d"
  by (simp add: write_status_def IsStatusCodeExplicitlyWritten_def error_status_def)

lemma error_status_range: "200 \<le> error_status e \<and> error_status e \<le> 999"
  by (simp add: error_status_def)

lemma metadata_update:
  "rq_meta r = Some p \<Longrightarrow> p < length (sv_metas s) \<Longrightarrow>
    sv_metas (update_metadata r f s) ! p = f (sv_metas s ! p)
    \<and> length (sv_metas (update_metadata r f s)) = length (sv_metas s)
    \<and> sv_app (update_metadata r f s) = sv_app s"
  by (simp add: update_metadata_def)

definition response_code :: "err outcome \<Rightarrow> resp_call list \<Rightarrow> int" where
  "response_code res calls =
     (case res of
        Panics \<Rightarrow> 500
      | Returns e \<Rightarrow>
          (case set_body calls None of
             Some (Inl _) \<Rightarrow> 500
           | _ \<Rightarrow> if explicit_code calls 0 \<noteq> 0 then explicit_code calls 0
                  else if error_status e = 200 then 0 else error_status e))"

definition recorded_error :: "err \<Rightarrow> resp_call list \<Rightarrow> err" where
  "recorded_error e calls =
     (case set_body calls None of
        Some (Inl m) \<Rightarrow> if e = None then Some (errorf ''encode body'' m) else e
      | _ \<Rightarrow> e)"

lemma response_code_range:
  "explicit_code calls 0 = 0 \<or> 200 \<le> explicit_code calls 0 \<and> explicit_code calls 0 \<le> 999 \<Longrightarrow>
    response_code res calls = 0 \<or> 200 \<le> response_code res calls \<and> response_code res calls \<le> 999"
  using error_status_range by (auto simp: response_code_def split: outcome.splits option.splits sum.splits)

lemma response_code_status:
  "(if response_code res calls = 0 then 200 else response_code res calls) = status_of res calls"
  by (auto simp: response_code_def status_of_def error_status_def split: outcome.splits option.splits sum.splits)

lemma encoded_response:
  fixes c calls r e
  defines "w \<equiv> \<lparr>rs_deferred = DeferredResponseWriter (Conn (c\<lparr>cn_header := set_headers calls (cn_header c)\<rparr>)) r (explicit_code calls 0) [],
    rs_bodyEncoder = map_option json_encoder (set_body calls None)\<rparr>"
  shows "\<exists>d. encode_body w e (write_status e (rs_deferred w)) = (body_of (Returns e) calls, recorded_error e calls, d)
    \<and> (if body_of (Returns e) calls \<noteq> [] then deferred_Write (body_of (Returns e) calls) d else d) =
      DeferredResponseWriter (Conn (c\<lparr>cn_header := header_of (Returns e) calls (cn_header c)\<rparr>)) r (response_code (Returns e) calls)
        (body_of (Returns e) calls)"
  by (auto simp: w_def encode_body_def write_status_conn json_encoder_def deferred_Header_def body_of_def recorded_error_def
      header_of_def response_code_def split: option.splits sum.splits)

lemma wrapper_returns:
  assumes "cn_sent c = None" and "h r (sv_app s) = (Returns e, calls, x)"
    and "explicit_code calls 0 = 0 \<or> 200 \<le> explicit_code calls 0 \<and> explicit_code calls 0 \<le> 999"
  shows "\<exists>s2. httpHandlerWrapper h (Conn c) r s =
    (Returns (), Conn (sent_to (c\<lparr>cn_header := header_of (Returns e) calls (cn_header c)\<rparr>) (response_code (Returns e) calls) (body_of (Returns e) calls)), s2)
    \<and> (let s1 = update_metadata r (\<lambda>m. m\<lparr>hm_Code := status_of (Returns e) calls, hm_Error := recorded_error e calls\<rparr>) (s\<lparr>sv_app := x\<rparr>)
       in s2 = s1 \<or> (\<exists>e'. s2 = update_metadata r (\<lambda>m. if hm_Error m = None then m\<lparr>hm_Error := Some (errorf ''write body'' e')\<rparr> else m) s1))"
proof -
  let ?w = "\<lparr>rs_deferred = DeferredResponseWriter (Conn (c\<lparr>cn_header := set_headers calls (cn_header c)\<rparr>)) r (explicit_code calls 0) [],
    rs_bodyEncoder = map_option json_encoder (set_body calls None)\<rparr>"
  let ?d = "DeferredResponseWriter (Conn (c\<lparr>cn_header := header_of (Returns e) calls (cn_header c)\<rparr>)) r (response_code (Returns e) calls)
        (body_of (Returns e) calls)"
  obtain d where d: "encode_body ?w e (write_status e (rs_deferred ?w)) = (body_of (Returns e) calls, recorded_error e calls, d)"
    "(if body_of (Returns e) calls \<noteq> [] then deferred_Write (body_of (Returns e) calls) d else d) = ?d"
    using encoded_response [where c = c and calls = calls and r = r and e = e] by blast
  have st: "deferred_StatusCode ?d = status_of (Returns e) calls"
    using response_code_status [of "Returns e" calls] by (auto simp: deferred_StatusCode_def IsStatusCodeExplicitlyWritten_def)
  have sent: "cn_sent (c\<lparr>cn_header := header_of (Returns e) calls (cn_header c)\<rparr>) = None" using assms(1) by simp
  note pw = PersistWrite_conn [OF sent response_code_range [OF assms(3)]]
  show ?thesis
    unfolding httpHandlerWrapper_def assms(2) calls_on_fresh prod.case Let_def outcome.case responseWriter_Write_def d st pw
    by (auto split: option.splits)
qed

lemma wrapper_panics:
  assumes "cn_sent c = None" and "h r (sv_app s) = (Panics, calls, x)"
  shows "httpHandlerWrapper h (Conn c) r s =
    (Returns (), Conn (sent_to (c\<lparr>cn_header := set_headers calls (cn_header c)\<rparr>) 500 []),
     update_metadata r (\<lambda>m. m\<lparr>hm_Code := 500, hm_Panic := True\<rparr>) (s\<lparr>sv_app := x\<rparr>))"
  using assms
  by (simp add: httpHandlerWrapper_def calls_on_fresh WritePanic_def PersistWrite_conn sent_error_def)

lemma wrapper_response:
  assumes "cn_sent c = None" and "rq_meta r = Some p" and "p < length (sv_metas s)" and h: "h r (sv_app s) = (res, calls, x)"
    and code: "explicit_code calls 0 = 0 \<or> 200 \<le> explicit_code calls 0 \<and> explicit_code calls 0 \<le> 999"
  shows "\<exists>c' s'. httpHandlerWrapper h (Conn c) r s = (Returns (), Conn c', s') \<and> sv_app s' = x
    \<and> client_status c' = status_of res calls \<and> client_header c' = header_of res calls (cn_header c)
    \<and> cn_body c' = cn_body c @ (if body_allowed (status_of res calls) \<and> cn_fault c = None then body_of res calls else [])
    \<and> hm_Code (sv_metas s' ! p) = status_of res calls
    \<and> (hm_Panic (sv_metas s' ! p) \<longleftrightarrow> res = Panics \<or> hm_Panic (sv_metas s ! p))"
proof (cases res)
  case Panics
  have m: "sv_metas (update_metadata r (\<lambda>m. m\<lparr>hm_Code := 500, hm_Panic := True\<rparr>) (s\<lparr>sv_app := x\<rparr>)) ! p
      = (sv_metas s ! p)\<lparr>hm_Code := 500, hm_Panic := True\<rparr>"
    using assms(2,3) by (simp add: update_metadata_def)
  show ?thesis
    using wrapper_panics [where h = h and r = r and s = s, OF assms(1) h [unfolded Panics]] m assms(2,3) Panics
    by (auto simp: client_status_def client_header_def sent_to_def status_of_def header_of_def body_of_def
        update_metadata_def split: if_splits)
next
  case (Returns e)
  let ?c = "sent_to (c\<lparr>cn_header := header_of (Returns e) calls (cn_header c)\<rparr>) (response_code (Returns e) calls) (body_of (Returns e) calls)"
  obtain s2 where run: "httpHandlerWrapper h (Conn c) r s = (Returns (), Conn ?c, s2)"
    and s2: "let s1 = update_metadata r (\<lambda>m. m\<lparr>hm_Code := status_of (Returns e) calls, hm_Error := recorded_error e calls\<rparr>) (s\<lparr>sv_app := x\<rparr>)
       in s2 = s1 \<or> (\<exists>e'. s2 = update_metadata r (\<lambda>m. if hm_Error m = None then m\<lparr>hm_Error := Some (errorf ''write body'' e')\<rparr> else m) s1)"
    using wrapper_returns [where h = h and r = r and s = s, OF assms(1) h [unfolded Returns] code] by blast
  define s1 where "s1 = update_metadata r (\<lambda>m. m\<lparr>hm_Code := status_of (Returns e) calls, hm_Error := recorded_error e calls\<rparr>) (s\<lparr>sv_app := x\<rparr>)"
  have m1: "hm_Code (sv_metas s1 ! p) = status_of (Returns e) calls" "hm_Panic (sv_metas s1 ! p) = hm_Panic (sv_metas s ! p)"
    "sv_app s1 = x" "p < length (sv_metas s1)"
    using assms(2,3) by (simp_all add: s1_def update_metadata_def)
  consider "s2 = s1" | e' where "s2 = update_metadata r (\<lambda>m. if hm_Error m = None then m\<lparr>hm_Error := Some (errorf ''write body'' e')\<rparr> else m) s1"
    using s2 unfolding s1_def [symmetric] Let_def by blast
  then have meta: "hm_Code (sv_metas s2 ! p) = status_of (Returns e) calls" "sv_app s2 = x"
    "hm_Panic (sv_metas s2 ! p) = hm_Panic (sv_metas s ! p)"
    using m1 metadata_update [OF assms(2) m1(4)] by (cases; simp)+
  have cl: "client_status ?c = status_of (Returns e) calls" "client_header ?c = header_of (Returns e) calls (cn_header c)"
    "cn_body ?c = cn_body c @ (if body_allowed (status_of (Returns e) calls) \<and> cn_fault c = None then body_of (Returns e) calls else [])"
    using response_code_status [of "Returns e" calls]
    by (auto simp: client_status_def client_header_def sent_to_def split: if_splits)
  show ?thesis using run meta cl Returns by auto
qed

text \<open>
  C12. The response of every handler, whatever it does: on an open connection the wrapper itself never panics, and the client gets
  the status that the result calls for - 500 with an empty body for a panic, 500 for a body that cannot be
  encoded, the code the handler set, or the one its error stands for (400, 401, 403, 500) - the headers and cookies that were set, and the encoded
  body; the metadata that logging and metrics read records the status that was sent.  Codes set by the handler have three digits and are not informational.
\<close>

theorem response_matches_result:
  assumes "cn_sent c = None" and "rq_meta r = Some p" and "p < length (sv_metas s)" and "h r (sv_app s) = (res, calls, x)"
    and "explicit_code calls 0 = 0 \<or> 200 \<le> explicit_code calls 0 \<and> explicit_code calls 0 \<le> 999"
  shows "\<exists>c' s'. httpHandlerWrapper h (Conn c) r s = (Returns (), Conn c', s') \<and> sv_app s' = x
    \<and> client_status c' = status_of res calls \<and> client_header c' = header_of res calls (cn_header c)
    \<and> cn_body c' = cn_body c @ (if body_allowed (status_of res calls) \<and> cn_fault c = None then body_of res calls else [])
    \<and> hm_Code (sv_metas s' ! p) = status_of res calls
    \<and> (hm_Panic (sv_metas s' ! p) \<longleftrightarrow> res = Panics \<or> hm_Panic (sv_metas s ! p))"
  using wrapper_response [where h = h and r = r and s = s, OF assms] .

definition new_conn :: conn where
  "new_conn = \<lparr>cn_header = header_empty, cn_sent = None, cn_informational = [], cn_body = [], cn_fault = None\<rparr>"

definition get_request :: "string \<Rightarrow> request" where
  "get_request path = \<lparr>rq_Method = ''GET'', rq_Scheme = [], rq_Host = [], rq_Path = path, rq_RawQuery = [], rq_Vars = (\<lambda>_. None),
     rq_Query = (\<lambda>_. None), rq_Header = header_empty, rq_Cookies = [], rq_Body = [], rq_Route = [], rq_ctx = background, rq_meta = None\<rparr>"

definition new_srv :: "'x \<Rightarrow> 'x srv" where
  "new_srv x = \<lparr>sv_metas = [], sv_obs = [], sv_uuids = of_nat, sv_used = 0, sv_app = x\<rparr>"

definition one_meta :: "nat srv" where
  "one_meta = (new_srv 0)\<lparr>sv_metas := [empty_metadata]\<rparr>"

definition panicking_handler :: "nat handler_func" where
  "panicking_handler r x = (Panics, [SetJSONBody (Inr ''[]''), SetStatusCode 201], Suc x)"

theorem response_matches_result_witness:
  "\<exists>c' s'. httpHandlerWrapper panicking_handler (Conn new_conn) ((get_request ''/'')\<lparr>rq_meta := Some 0\<rparr>) one_meta = (Returns (), Conn c', s')
    \<and> client_status c' = 500 \<and> cn_body c' = [] \<and> hm_Code (sv_metas s' ! 0) = 500"
proof -
  have "panicking_handler ((get_request ''/'')\<lparr>rq_meta := Some 0\<rparr>) (sv_app one_meta) = (Panics, [SetJSONBody (Inr ''[]''), SetStatusCode 201], Suc 0)"
    by (simp add: panicking_handler_def one_meta_def new_srv_def)
  from response_matches_result [where c = new_conn and h = panicking_handler and s = one_meta and p = 0, OF _ _ _ this] show ?thesis
    by (auto simp: new_conn_def one_meta_def explicit_code_def status_of_def body_of_def)
qed

section \<open>Middlewares that only http_observe\<close>

locale observing_mw =
  fixes mw :: "'x handler_mw"
  assumes observes: "\<exists>os. mw h w r s = (case h w r s of (res, w1, s1) \<Rightarrow> (res, w1, s1\<lparr>sv_obs := sv_obs s1 @ os\<rparr>))"
begin

lemma same_response:
  "h w r s = (res, w1, s1) \<Longrightarrow> \<exists>os. mw h w r s = (res, w1, s1\<lparr>sv_obs := sv_obs s1 @ os\<rparr>)"
  using observes [of h w r s] by auto

end

interpretation logging: observing_mw "WithLogging uuid_string lg infoLevel errorLevel excluded" for uuid_string lg infoLevel errorLevel excluded
proof
  fix h :: "'x http_handler" and w r s
  obtain res w1 s1 where h: "h w r s = (res, w1, s1)" by (metis surj_pair)
  show "\<exists>os. WithLogging uuid_string lg infoLevel errorLevel excluded h w r s =
      (case h w r s of (res, w1, s1) \<Rightarrow> (res, w1, s1\<lparr>sv_obs := sv_obs s1 @ os\<rparr>))"
  proof (cases "rq_Path r \<in> set (excluded @ [healthPath]) \<or> res = Panics")
    case True
    then have "WithLogging uuid_string lg infoLevel errorLevel excluded h w r s = (res, w1, s1)"
      by (auto simp: WithLogging_def h)
    then show ?thesis unfolding h prod.case by (intro exI [of _ "[]"]) simp
  next
    case False
    have log: "\<exists>os. log_Error l (Some ctx) msg = Returns os" "\<exists>os. log_Log l (Some ctx) lvl msg = Returns os" for l ctx msg lvl
      using log_Log_ctx [of l ctx lvl msg] by (cases l; simp add: log_Error_def)+
    let ?m = "getHandlerMetadata r s1"
    let ?l = "getResponseFieldsLogger [] (rq_Route r) r (hm_Code ?m) (getAuthFieldsLogger uuid_string (hm_Auth ?m) lg)"
    let ?ctx = "Some (cx_log (rq_ctx r))"
    obtain os where os: "(if hm_Panic ?m then log_Error (log_WithField ?l ''panic'' (FFields [])) ?ctx ''request handled with panic''
        else if 500 \<le> hm_Code ?m then log_Log (log_WithError ?l (hm_Error ?m)) ?ctx errorLevel ''request handled with internal error''
        else log_Log (log_WithError ?l (hm_Error ?m)) ?ctx infoLevel ''request handled'') = Returns os"
      using log by metis
    from False obtain u where "res = Returns u" "rq_Path r \<notin> set (excluded @ [healthPath])" by (cases res) auto
    then show ?thesis unfolding WithLogging_def h by (intro exI [of _ os]) (simp add: Let_def os http_observe_def)
  qed
qed

interpretation metrics: observing_mw "WithMetrics code_text ms" for code_text ms
proof
  fix h :: "'x http_handler" and w r s
  obtain res w1 s1 where h: "h w r s = (res, w1, s1)" by (metis surj_pair)
  show "\<exists>os. WithMetrics code_text ms h w r s = (case h w r s of (res, w1, s1) \<Rightarrow> (res, w1, s1\<lparr>sv_obs := sv_obs s1 @ os\<rparr>))"
  proof (cases res)
    case Panics
    then show ?thesis unfolding WithMetrics_def h by (intro exI [of _ "[]"]) simp
  qed (auto simp: WithMetrics_def h Let_def)
qed

end
