(* ===== verification/Http_Access.thy ===== *)
theory Http_Access
  imports Http_Server
begin

text \<open>
  The HTTP server as \<^verbatim>\<open>httpServerProvider\<close> of \<^verbatim>\<open>internal/pkg/cmd/container.go\<close> builds it, and what the composition of its middlewares
  guarantees for a route that is registered with \<^verbatim>\<open>WithAuthenticationRequirement\<close>.
\<close>

section \<open>The server of the container\<close>

definition token_providers :: "value_parsers \<Rightarrow> auth_token_provider list" where
  "token_providers P = [UserIDTokenProvider P, AdminUserIDTokenProvider P, ServiceNameTokenProvider P]"

text \<open>What the packages outside the repository provide: the CORS middleware of the router, parsers and printers.\<close>

record 'x http_deps =
  hx_cors :: "'x handler_mw"
  hx_parsers :: value_parsers
  hx_uuid_String :: "uuid \<Rightarrow> string"
  hx_code_text :: "int \<Rightarrow> string"

definition server_options :: "'x http_deps \<Rightarrow> observer \<Rightarrow> metrics \<Rightarrow> logger \<Rightarrow> 'x handler_option list" where
  "server_options X ob ms lg =
     [WithHealthCheck None,
      UseCORS,
      UseMW (WithObservability ob
        [(''requestID'', [ObservabilityFieldHeaderExtractor HeaderRequestID, ObservabilityFieldRandomUUIDExtractor (hx_uuid_String X)])]),
      UseMW (WithMetrics (hx_code_text X) ms),
      UseMW (WithLogging (hx_uuid_String X) lg LevelInfo LevelError []),
      UseMW (WithAuth provider_Authenticate (token_providers (hx_parsers X)))]"

definition httpServerProvider ::
    "'x http_deps \<Rightarrow> (string \<rightharpoonup> string) \<Rightarrow> observer \<Rightarrow> metrics \<Rightarrow> logger \<Rightarrow> 'x server outcome" where
  "httpServerProvider X environ ob ms lg =
     (case env_Must (env_Parse (hx_parsers X) environ TString ''SERVICE_ADDRESS'') of
        Returns (VString addr) \<Rightarrow>
          Returns (NewServer [WithServerAddress addr, WithHandlerOptions (hx_cors X) (server_options X ob ms lg)])
      | _ \<Rightarrow> Panics)"

text \<open>The documented behaviour of the CORS middleware: it may set a header field and then calls the next handler.\<close>

definition cors_calls_next :: "'x handler_mw \<Rightarrow> bool" where
  "cors_calls_next cors \<longleftrightarrow> (\<forall>h w r s. \<exists>f. cors h w r s = h (writer_update_header f w) r s)"

section \<open>Tokens in headers\<close>

text \<open>Which token the headers of a request carry, stated on the headers alone.\<close>

definition presented :: "value_parsers \<Rightarrow> header \<Rightarrow> token option" where
  "presented P h =
     (let user = header_Get h HeaderAuthUserID; admin = header_Get h HeaderAuthAdminUserID; service = header_Get h HeaderAuthServiceName
      in case (if user = [] then None else case vp_Uuid P user of Inr u \<Rightarrow> if u = uuid_nil then None else Some u | Inl _ \<Rightarrow> None) of
           Some u \<Rightarrow> Some (UserIDToken u)
         | None \<Rightarrow> if admin \<noteq> [] then Some (AdminUserIDToken admin)
                   else if service \<noteq> [] then Some (ServiceNameToken service) else None)"

lemma first_token_presented: "first_token (token_providers P) r = Returns (presented P (rq_Header r))"
  by (auto simp: token_providers_def UserIDTokenProvider_def AdminUserIDTokenProvider_def ServiceNameTokenProvider_def
      ParseRequest_def parser_Header_def requestDataProvider_def presented_def Let_def parse_string parse_uuid split: sum.splits if_splits)

lemma presented_known: "presented P h = Some tok \<Longrightarrow> \<exists>p. provider_Authenticate tok = Inr (Some p)"
  by (auto simp: presented_def Let_def split: option.splits if_splits sum.splits)

definition principal_of :: "token \<Rightarrow> principal" where
  "principal_of tok = (case provider_Authenticate tok of Inr (Some p) \<Rightarrow> p | _ \<Rightarrow> \<lparr>p_UserID = None, p_AdminUserID = None, p_ServiceName = None\<rparr>)"

section \<open>Composition\<close>

definition same_conn :: "request \<Rightarrow> request \<Rightarrow> bool" where
  "same_conn r r' \<longleftrightarrow> cx_conn (rq_ctx r') = cx_conn (rq_ctx r) \<and> cx_tx (rq_ctx r') = cx_tx (rq_ctx r)"

lemma observe_fields_keeps:
  assumes "observe_fields ob [(f, [ObservabilityFieldHeaderExtractor k, ObservabilityFieldRandomUUIDExtractor us])] r s = (r', s')"
  shows "requestDataProvider r' = requestDataProvider r \<and> rq_meta r' = rq_meta r \<and> same_conn r r'
    \<and> sv_metas s' = sv_metas s \<and> sv_app s' = sv_app s"
proof -
  have "cx_conn (observer_WithField ob ctx f v) = cx_conn ctx" "cx_tx (observer_WithField ob ctx f v) = cx_tx ctx" for ctx v
    by (simp_all add: observer_WithField_def Let_def)
  then show ?thesis using assms
    by (auto simp: requestDataProvider_def same_conn_def ObservabilityFieldHeaderExtractor_def ObservabilityFieldRandomUUIDExtractor_def split: if_splits)
qed

text \<open>The request that the handler of the route gets.\<close>

definition reaches :: "request \<Rightarrow> authentication \<Rightarrow> request \<Rightarrow> bool" where
  "reaches r a r' \<longleftrightarrow> requestDataProvider r' = requestDataProvider r \<and> cx_auth (rq_ctx r') = Some a \<and> same_conn r r'"

lemma auth_required:
  assumes "cn_sent c = None" and "rq_meta r = Some p" and "p < length (sv_metas s)"
  shows "case presented P (rq_Header r) of
     None \<Rightarrow> \<exists>c' s'. WithAuth provider_Authenticate (token_providers P) (WithAuthenticationRequirement h) (Conn c) r s = (Returns (), Conn c', s')
        \<and> client_status c' = 401 \<and> cn_body c' = cn_body c \<and> sv_app s' = sv_app s
   | Some tok \<Rightarrow> \<exists>r' s1. WithAuth provider_Authenticate (token_providers P) (WithAuthenticationRequirement h) (Conn c) r s = h (Conn c) r' s1
        \<and> reaches r (Some (principal_of tok)) r' \<and> rq_meta r' = Some p \<and> sv_app s1 = sv_app s \<and> length (sv_metas s1) = length (sv_metas s)"
proof (cases "presented P (rq_Header r)")
  case None
  with assms show ?thesis
    by (auto simp: WithAuth_def first_token_presented setHandlerAuthentication_def WithAuthentication_def WithAuthenticationRequirement_def
        ctx_IsAuthenticated_def IsAuthenticated_def writeHandlerResult_def Let_def conn_WriteHeader_def client_status_def update_metadata_def)
next
  case (Some tok)
  from presented_known [OF this] obtain pr where pr: "provider_Authenticate tok = Inr (Some pr)" by blast
  define r1 where "r1 = r\<lparr>rq_ctx := (rq_ctx r)\<lparr>cx_auth := Some (Some pr)\<rparr>\<rparr>"
  define s1 where "s1 = update_metadata r (\<lambda>m. m\<lparr>hm_Auth := Some (Some pr)\<rparr>) s"
  have "WithAuth provider_Authenticate (token_providers P) (WithAuthenticationRequirement h) (Conn c) r s = h (Conn c) r1 s1"
    using Some pr by (simp add: WithAuth_def first_token_presented setHandlerAuthentication_def WithAuthentication_def
        WithAuthenticationRequirement_def ctx_IsAuthenticated_def IsAuthenticated_def r1_def s1_def)
  moreover have "reaches r (Some (principal_of tok)) r1 \<and> rq_meta r1 = Some p \<and> sv_app s1 = sv_app s
      \<and> length (sv_metas s1) = length (sv_metas s)"
    using assms pr by (simp add: r1_def s1_def reaches_def same_conn_def requestDataProvider_def principal_of_def update_metadata_def)
  ultimately show ?thesis using Some by auto
qed

lemma run_protected:
  assumes "httpServerProvider X environ ob ms lg = Returns srv" and "ro_mws ro = [WithAuthenticationRequirement]"
    and "cors_calls_next (hx_cors X)"
  shows "\<exists>f r2 s2 inner os. requestDataProvider r2 = requestDataProvider r \<and> same_conn r r2 \<and> rq_meta r2 = Some (length (sv_metas s))
    \<and> length (sv_metas s2) = Suc (length (sv_metas s)) \<and> sv_app s2 = sv_app s
    \<and> WithAuth provider_Authenticate (token_providers (hx_parsers X)) (WithAuthenticationRequirement (ro_handler ro))
        (Conn (c\<lparr>cn_header := f (cn_header c)\<rparr>)) r2 s2 = inner
    \<and> run_route srv ro (Conn c) r s = (case inner of (res, w, s3) \<Rightarrow> (res, w, s3\<lparr>sv_obs := sv_obs s3 @ os\<rparr>))"
proof -
  let ?auth = "WithAuth provider_Authenticate (token_providers (hx_parsers X)) (WithAuthenticationRequirement (ro_handler ro))"
  let ?log = "WithLogging (hx_uuid_String X) lg LevelInfo LevelError []"
  let ?fs = "[(''requestID'', [ObservabilityFieldHeaderExtractor HeaderRequestID, ObservabilityFieldRandomUUIDExtractor (hx_uuid_String X)])]"
  let ?r = "r\<lparr>rq_Route := ro_Name ro, rq_meta := Some (length (sv_metas s))\<rparr>"
  let ?s = "s\<lparr>sv_metas := sv_metas s @ [empty_metadata]\<rparr>"
  let ?h = "WithObservability ob ?fs (WithMetrics (hx_code_text X) ms (?log ?auth))"
  have mws: "sr_mws srv = [http_withHandlerMetadata, hx_cors X, WithObservability ob ?fs, WithMetrics (hx_code_text X) ms, ?log,
      WithAuth provider_Authenticate (token_providers (hx_parsers X))]"
    using assms(1) by (auto simp: httpServerProvider_def NewServer_def WithServerAddress_def WithHandlerOptions_def default_server_def
        server_options_def option_mws_def WithHealthCheck_def split: outcome.splits dyn.splits)
  obtain f where f: "hx_cors X ?h (Conn c) ?r ?s = ?h (writer_update_header f (Conn c)) ?r ?s"
    using assms(3) unfolding cors_calls_next_def by blast
  obtain r2 s2 where o: "observe_fields ob ?fs ?r ?s = (r2, s2)" by force
  define c1 where "c1 = c\<lparr>cn_header := f (cn_header c)\<rparr>"
  obtain res w s3 where inner: "?auth (Conn c1) r2 s2 = (res, w, s3)" by (metis surj_pair)
  obtain os1 where l: "?log ?auth (Conn c1) r2 s2 = (res, w, s3\<lparr>sv_obs := sv_obs s3 @ os1\<rparr>)"
    using logging.same_response [where h = ?auth, OF inner] by blast
  obtain os2 where "WithMetrics (hx_code_text X) ms (?log ?auth) (Conn c1) r2 s2 = (res, w, s3\<lparr>sv_obs := sv_obs s3 @ os1 @ os2\<rparr>)"
    using metrics.same_response [where h = "?log ?auth", OF l] by auto
  then have "run_route srv ro (Conn c) r s = (res, w, s3\<lparr>sv_obs := sv_obs s3 @ os1 @ os2\<rparr>)"
    using f o by (simp add: run_route_def mws assms(2) http_withHandlerMetadata_def WithObservability_def c1_def)
  moreover have "requestDataProvider r2 = requestDataProvider r" "same_conn r r2" "rq_meta r2 = Some (length (sv_metas s))"
    "length (sv_metas s2) = Suc (length (sv_metas s))" "sv_app s2 = sv_app s"
    using observe_fields_keeps [OF o] by (simp_all add: requestDataProvider_def same_conn_def)
  ultimately show ?thesis using inner unfolding c1_def by fastforce
qed

lemma protected_run:
  assumes "httpServerProvider X environ ob ms lg = Returns srv" and "cors_calls_next (hx_cors X)"
    and "ro_mws ro = [WithAuthenticationRequirement]" and "ro_handler ro = httpHandlerWrapper h" and "cn_sent c = None"
  shows "case presented (hx_parsers X) (rq_Header r) of
     None \<Rightarrow> \<exists>c' s'. run_route srv ro (Conn c) r s = (Returns (), Conn c', s') \<and> client_status c' = 401
        \<and> cn_body c' = cn_body c \<and> sv_app s' = sv_app s
   | Some tok \<Rightarrow> \<exists>r' res calls x. reaches r (Some (principal_of tok)) r' \<and> h r' (sv_app s) = (res, calls, x)
        \<and> (explicit_code calls 0 = 0 \<or> 200 \<le> explicit_code calls 0 \<and> explicit_code calls 0 \<le> 999 \<longrightarrow>
           (\<exists>c' s'. run_route srv ro (Conn c) r s = (Returns (), Conn c', s') \<and> client_status c' = status_of res calls \<and> sv_app s' = x
             \<and> cn_body c' = cn_body c @ (if body_allowed (status_of res calls) \<and> cn_fault c = None then body_of res calls else [])))"
proof -
  obtain f r2 s2 inner os where
      r2: "requestDataProvider r2 = requestDataProvider r" "rq_meta r2 = Some (length (sv_metas s))" "same_conn r r2"
    and s2': "length (sv_metas s2) = Suc (length (sv_metas s))" "sv_app s2 = sv_app s"
    and inner: "WithAuth provider_Authenticate (token_providers (hx_parsers X)) (WithAuthenticationRequirement (httpHandlerWrapper h))
        (Conn (c\<lparr>cn_header := f (cn_header c)\<rparr>)) r2 s2 = inner"
    and run: "run_route srv ro (Conn c) r s = (case inner of (res, w, s3) \<Rightarrow> (res, w, s3\<lparr>sv_obs := sv_obs s3 @ os\<rparr>))"
    using run_protected [OF assms(1,3,2), of r s c, unfolded assms(4)] by blast
  have s2: "length (sv_metas s) < length (sv_metas s2)" "sv_app s2 = sv_app s" using s2' by simp_all
  let ?c = "c\<lparr>cn_header := f (cn_header c)\<rparr>"
  have c: "cn_sent ?c = None" using assms(5) by simp
  have hd: "rq_Header r2 = rq_Header r" using r2(1) by (simp add: requestDataProvider_def)
  note req = auth_required [OF c r2(2) s2(1), of "hx_parsers X" "httpHandlerWrapper h", unfolded hd inner]
  show ?thesis
  proof (cases "presented (hx_parsers X) (rq_Header r)")
    case None
    with req run s2(2) show ?thesis by auto
  next
    case (Some tok)
    with req obtain r' s1 where i: "inner = httpHandlerWrapper h (Conn ?c) r' s1" and r': "reaches r2 (Some (principal_of tok)) r'"
        "rq_meta r' = Some (length (sv_metas s))" and s1: "sv_app s1 = sv_app s" "length (sv_metas s) < length (sv_metas s1)"
      using s2 by auto
    obtain res calls x where h: "h r' (sv_app s1) = (res, calls, x)" by (metis surj_pair)
    have "reaches r (Some (principal_of tok)) r'" using r'(1) r2 by (simp add: reaches_def same_conn_def)
    moreover have "\<exists>c' s'. run_route srv ro (Conn c) r s = (Returns (), Conn c', s') \<and> client_status c' = status_of res calls \<and> sv_app s' = x
        \<and> cn_body c' = cn_body c @ (if body_allowed (status_of res calls) \<and> cn_fault c = None then body_of res calls else [])"
      if "explicit_code calls 0 = 0 \<or> 200 \<le> explicit_code calls 0 \<and> explicit_code calls 0 \<le> 999"
      using wrapper_response [where h = h and r = r' and s = s1, OF c r'(2) s1(2) h that] i run by auto
    ultimately show ?thesis unfolding Some option.case using h [unfolded s1(1)] by blast
  qed
qed

text \<open>
  C11. Routes registered with \<^verbatim>\<open>WithAuthenticationRequirement\<close>, through all middlewares of the container's server: a request whose headers
  carry no token - no valid non-nil user identifier, no administrator, no service name - is answered 401 with no body and the handler does not run;
  otherwise the handler runs exactly once, on the request data as received, with the principal of the first token, and the client gets the
  status and the body of its result.
\<close>

theorem protected_route:
  assumes "httpServerProvider X environ ob ms lg = Returns srv" and "cors_calls_next (hx_cors X)"
    and "ro_mws ro = [WithAuthenticationRequirement]" and "ro_handler ro = httpHandlerWrapper h" and "cn_sent c = None"
  shows "case presented (hx_parsers X) (rq_Header r) of
     None \<Rightarrow> \<exists>c' s'. run_route srv ro (Conn c) r s = (Returns (), Conn c', s') \<and> client_status c' = 401
        \<and> cn_body c' = cn_body c \<and> sv_app s' = sv_app s
   | Some tok \<Rightarrow> \<exists>r' res calls x. reaches r (Some (principal_of tok)) r' \<and> h r' (sv_app s) = (res, calls, x)
        \<and> (explicit_code calls 0 = 0 \<or> 200 \<le> explicit_code calls 0 \<and> explicit_code calls 0 \<le> 999 \<longrightarrow>
           (\<exists>c' s'. run_route srv ro (Conn c) r s = (Returns (), Conn c', s') \<and> client_status c' = status_of res calls \<and> sv_app s' = x
             \<and> cn_body c' = cn_body c @ (if body_allowed (status_of res calls) \<and> cn_fault c = None then body_of res calls else [])))"
  by (rule protected_run [OF assms])

definition example_deps :: "'x http_deps" where
  "example_deps = \<lparr>hx_cors = (\<lambda>h w. h (writer_update_header (header_Set ''Access-Control-Allow-Methods'' ''GET'') w)),
     hx_parsers = no_parsers, hx_uuid_String = (\<lambda>_. ''-''), hx_code_text = (\<lambda>_. [])\<rparr>"

definition no_observer :: observer where
  "no_observer = \<lparr>obs_logger = LoggerStub, obs_loggingFields = {}\<rparr>"

definition example_server :: "nat server" where
  "example_server = NewServer [WithServerAddress '':80'', WithHandlerOptions (hx_cors example_deps) (server_options example_deps no_observer [] LoggerStub)]"

definition example_route :: "nat http_route" where
  "example_route = \<lparr>ro_Name = [], ro_Method = ''GET'', ro_Path = ''/'', ro_mws = [WithAuthenticationRequirement],
     ro_handler = httpHandlerWrapper panicking_handler\<rparr>"

theorem protected_route_witness:
  "(\<exists>c' s'. run_route example_server example_route (Conn new_conn) (get_request ''/'') (new_srv 7) = (Returns (), Conn c', s')
     \<and> client_status c' = 401 \<and> sv_app s' = 7)
   \<and> (\<exists>c' s'. run_route example_server example_route (Conn new_conn)
       ((get_request ''/'')\<lparr>rq_Header := header_Set HeaderAuthAdminUserID ''root'' header_empty\<rparr>) (new_srv 7) = (Returns (), Conn c', s')
     \<and> client_status c' = 500 \<and> sv_app s' = 8)"
proof -
  let ?a = "(get_request ''/'')\<lparr>rq_Header := header_Set HeaderAuthAdminUserID ''root'' header_empty\<rparr>"
  have srv: "httpServerProvider example_deps [''SERVICE_ADDRESS'' \<mapsto> '':80''] no_observer [] LoggerStub = Returns example_server"
    by (simp add: httpServerProvider_def env_Must_def env_Parse_def ParseTypedValue_def example_server_def example_deps_def)
  have cors: "cors_calls_next (hx_cors (example_deps :: nat http_deps))" by (auto simp: cors_calls_next_def example_deps_def)
  have route: "ro_mws example_route = [WithAuthenticationRequirement]" "ro_handler example_route = httpHandlerWrapper panicking_handler"
    and c: "cn_sent new_conn = None"
    by (simp_all add: example_route_def new_conn_def)
  have keys: "canonical_key HeaderAuthUserID \<noteq> canonical_key HeaderAuthAdminUserID" by code_simp
  have none: "presented (hx_parsers (example_deps :: nat http_deps)) (rq_Header (get_request ''/'')) = None"
    by (simp add: presented_def get_request_def header_Get_def header_empty_def)
  have admin: "presented (hx_parsers (example_deps :: nat http_deps)) (rq_Header ?a) = Some (AdminUserIDToken ''root'')"
    using keys by (simp add: presented_def header_Set_def header_Get_def header_empty_def Let_def)
  note p = protected_route [OF srv cors route c]
  from p [of "get_request ''/''" "new_srv 7"] none
  have "\<exists>c' s'. run_route example_server example_route (Conn new_conn) (get_request ''/'') (new_srv 7) = (Returns (), Conn c', s')
     \<and> client_status c' = 401 \<and> sv_app s' = 7" by (auto simp: new_srv_def)
  moreover from p [of ?a "new_srv 7"] admin
  have "\<exists>c' s'. run_route example_server example_route (Conn new_conn) ?a (new_srv 7) = (Returns (), Conn c', s')
     \<and> client_status c' = 500 \<and> sv_app s' = 8"
    by (auto simp: new_srv_def panicking_handler_def status_of_def explicit_code_def)
  ultimately show ?thesis by blast
qed

end
