(* ===== verification/Encoding.thy ===== *)
theory Encoding
  imports Go_Prelude
begin

text \<open>
  The encodings of the standard library that the sources use: UTF-8 of the model's strings,
  \<^verbatim>\<open>encoding/hex\<close>, \<^verbatim>\<open>crypto/md5\<close> (RFC 1321) and \<^verbatim>\<open>base64.StdEncoding\<close> (RFC 4648), and on top of them
  the password encoder \<^verbatim>\<open>internal/user/infra/password/encoder.go\<close>.
\<close>

unbundle bit_operations_syntax

type_synonym byte = "8 word"

section \<open>Text\<close>

definition utf8_bytes_of_char :: "char \<Rightarrow> byte list" where
  "utf8_bytes_of_char c =
     (let n = code_point c in
      if n < 128 then [of_nat n] else [of_nat (192 + n div 64), of_nat (128 + n mod 64)])"

definition utf8_bytes :: "string \<Rightarrow> byte list" where
  "utf8_bytes s = concat (map utf8_bytes_of_char s)"

definition hex_digit :: "nat \<Rightarrow> char" where
  "hex_digit n = ''0123456789abcdef'' ! (n mod 16)"

definition hex_EncodeToString :: "byte list \<Rightarrow> string" where
  "hex_EncodeToString bs = concat (map (\<lambda>b. [hex_digit (unat b div 16), hex_digit (unat b mod 16)]) bs)"

section \<open>MD5\<close>

text \<open>The shift amounts, and the integer parts of $2^{32} \cdot |\sin (i + 1)|$.\<close>

definition md5_shift :: "nat list" where
  "md5_shift =
    [7, 12, 17, 22, 7, 12, 17, 22, 7, 12, 17, 22, 7, 12, 17, 22,
     5, 9, 14, 20, 5, 9, 14, 20, 5, 9, 14, 20, 5, 9, 14, 20,
     4, 11, 16, 23, 4, 11, 16, 23, 4, 11, 16, 23, 4, 11, 16, 23,
     6, 10, 15, 21, 6, 10, 15, 21, 6, 10, 15, 21, 6, 10, 15, 21]"

definition md5_table :: "32 word list" where
  "md5_table =
    [3614090360, 3905402710, 606105819, 3250441966, 4118548399, 1200080426, 2821735955, 4249261313,
     1770035416, 2336552879, 4294925233, 2304563134, 1804603682, 4254626195, 2792965006, 1236535329,
     4129170786, 3225465664, 643717713, 3921069994, 3593408605, 38016083, 3634488961, 3889429448,
     568446438, 3275163606, 4107603335, 1163531501, 2850285829, 4243563512, 1735328473, 2368359562,
     4294588738, 2272392833, 1839030562, 4259657740, 2763975236, 1272893353, 4139469664, 3200236656,
     681279174, 3936430074, 3572445317, 76029189, 3654602809, 3873151461, 530742520, 3299628645,
     4096336452, 1126891415, 2878612391, 4237533241, 1700485571, 2399980690, 4293915773, 2240044497,
     1873313359, 4264355552, 2734768916, 1309151649, 4149444226, 3174756917, 718787259, 3951481745]"

fun le_words :: "byte list \<Rightarrow> 32 word list" where
  "le_words (a # b # c # d # bs) =
     (ucast a OR push_bit 8 (ucast b) OR push_bit 16 (ucast c) OR push_bit 24 (ucast d)) # le_words bs"
| "le_words _ = []"

definition le_bytes :: "nat \<Rightarrow> 'a::len word \<Rightarrow> byte list" where
  "le_bytes k w = map (\<lambda>i. ucast (drop_bit (8 * i) w)) [0 ..< k]"

definition md5_pad :: "byte list \<Rightarrow> byte list" where
  "md5_pad bs =
     bs @ 128 # replicate ((119 - length bs mod 64) mod 64) 0 @ le_bytes 8 (of_nat (8 * length bs) :: 64 word)"

type_synonym md5_state = "32 word \<times> 32 word \<times> 32 word \<times> 32 word"

definition rotate_left :: "nat \<Rightarrow> 32 word \<Rightarrow> 32 word" where
  "rotate_left k w = push_bit k w OR drop_bit (32 - k) w"

text \<open>Round \<open>i\<close> of the 64: the function of the round and the word of the block it takes.\<close>

definition md5_mix :: "nat \<Rightarrow> 32 word \<Rightarrow> 32 word \<Rightarrow> 32 word \<Rightarrow> 32 word \<times> nat" where
  "md5_mix i b c d =
     (if i < 16 then ((b AND c) OR (NOT b AND d), i)
      else if i < 32 then ((d AND b) OR (NOT d AND c), (5 * i + 1) mod 16)
      else if i < 48 then (b XOR c XOR d, (3 * i + 5) mod 16)
      else (c XOR (b OR NOT d), 7 * i mod 16))"

definition md5_round :: "32 word list \<Rightarrow> nat \<Rightarrow> md5_state \<Rightarrow> md5_state" where
  "md5_round block i s =
     (let (a, b, c, d) = s; (f, g) = md5_mix i b c d
      in (d, b + rotate_left (md5_shift ! i) (a + f + md5_table ! i + block ! g), b, c))"

definition md5_block :: "32 word list \<Rightarrow> md5_state \<Rightarrow> md5_state" where
  "md5_block block s =
     (let (a, b, c, d) = s; (a', b', c', d') = fold (md5_round block) [0 ..< 64] s
      in (a + a', b + b', c + c', d + d'))"

definition md5_Sum :: "byte list \<Rightarrow> byte list" where
  "md5_Sum bs =
     (let ws = le_words (md5_pad bs);
          blocks = map (\<lambda>i. take 16 (drop (16 * i) ws)) [0 ..< length ws div 16];
          (a, b, c, d) = fold md5_block blocks (1732584193, 4023233417, 2562383102, 271733878)
      in concat (map (le_bytes 4) [a, b, c, d]))"

section \<open>Password encoder\<close>

definition HashPassword :: "string \<Rightarrow> go_error + string" where
  "HashPassword password = Inr (hex_EncodeToString (md5_Sum (utf8_bytes password)))"

definition CompareHash :: "string \<Rightarrow> string \<Rightarrow> bool" where
  "CompareHash passwordHash password =
     (case HashPassword password of Inl e \<Rightarrow> False | Inr h \<Rightarrow> h = passwordHash)"

text \<open>A test vector of the RFC.\<close>

lemma md5_rfc_vector: "hex_EncodeToString (md5_Sum (utf8_bytes ''abc'')) = ''900150983cd24fb0d6963f7d28e17f72''"
  by code_simp

lemma CompareHash_iff: "CompareHash h p \<longleftrightarrow> HashPassword p = Inr h"
  by (auto simp: CompareHash_def HashPassword_def)

section \<open>Base64\<close>

definition base64_alphabet :: string where
  "base64_alphabet = ''ABCDEFGHIJKLMNOPQRSTUVWXYZabcdefghijklmnopqrstuvwxyz0123456789+/''"

definition b64_digit :: "nat \<Rightarrow> char" where
  "b64_digit n = base64_alphabet ! (n mod 64)"

fun index_of :: "'a \<Rightarrow> 'a list \<Rightarrow> nat option" where
  "index_of x [] = None"
| "index_of x (y # ys) = (if x = y then Some 0 else map_option Suc (index_of x ys))"

definition b64_value :: "char \<Rightarrow> nat option" where
  "b64_value c = index_of c base64_alphabet"

text \<open>The four digits of three bytes, and back.\<close>

definition quad :: "byte \<Rightarrow> byte \<Rightarrow> byte \<Rightarrow> nat \<times> nat \<times> nat \<times> nat" where
  "quad a b c =
     (unat a div 4, unat a mod 4 * 16 + unat b div 16, unat b mod 16 * 4 + unat c div 64, unat c mod 64)"

definition triple :: "nat \<Rightarrow> nat \<Rightarrow> nat \<Rightarrow> nat \<Rightarrow> byte \<times> byte \<times> byte" where
  "triple p q r s =
     (of_nat (p * 4 + q div 16), of_nat (q mod 16 * 16 + r div 4), of_nat (r mod 4 * 64 + s))"

fun EncodeToString :: "byte list \<Rightarrow> string" where
  "EncodeToString [] = []"
| "EncodeToString [a] = (case quad a 0 0 of (p, q, r, s) \<Rightarrow> [b64_digit p, b64_digit q, CHR ''='', CHR ''=''])"
| "EncodeToString [a, b] = (case quad a b 0 of (p, q, r, s) \<Rightarrow> [b64_digit p, b64_digit q, b64_digit r, CHR ''=''])"
| "EncodeToString (a # b # c # bs) =
     (case quad a b c of (p, q, r, s) \<Rightarrow> b64_digit p # b64_digit q # b64_digit r # b64_digit s # EncodeToString bs)"

text \<open>
  Decoding skips carriage returns and newlines; padding may only end the input, whose length is
  otherwise a multiple of four.  The bits of the last digit that encode nothing are not looked at.
\<close>

fun decode_quads :: "string \<Rightarrow> byte list option" where
  "decode_quads [] = Some []"
| "decode_quads (a # b # c # d # cs) =
     (case (b64_value a, b64_value b) of
        (Some p, Some q) \<Rightarrow>
          if c = CHR ''='' \<and> d = CHR ''='' then (if cs = [] then Some [fst (triple p q 0 0)] else None)
          else (case b64_value c of
                  None \<Rightarrow> None
                | Some r \<Rightarrow>
                    if d = CHR ''='' then
                      (if cs = [] then Some [fst (triple p q r 0), fst (snd (triple p q r 0))] else None)
                    else (case (b64_value d, decode_quads cs) of
                            (Some s, Some bs) \<Rightarrow> (case triple p q r s of (x, y, z) \<Rightarrow> Some (x # y # z # bs))
                          | _ \<Rightarrow> None))
      | _ \<Rightarrow> None)"
| "decode_quads _ = None"

definition DecodeString :: "string \<Rightarrow> go_error + byte list" where
  "DecodeString s =
     (case decode_quads (filter (\<lambda>c. code_point c \<noteq> 10 \<and> code_point c \<noteq> 13) s) of
        None \<Rightarrow> Inl (errors_new ''illegal base64 data'')
      | Some bs \<Rightarrow> Inr bs)"

lemma index_of_nth: "distinct xs \<Longrightarrow> i < length xs \<Longrightarrow> index_of (xs ! i) xs = Some i"
  by (induction xs arbitrary: i) (auto simp: nth_Cons split: nat.splits)

lemma alphabet_facts:
  "distinct base64_alphabet" "length base64_alphabet = 64" "CHR ''='' \<notin> set base64_alphabet"
  "list_all (\<lambda>c. code_point c \<noteq> 10 \<and> code_point c \<noteq> 13) base64_alphabet"
  by code_simp+

lemma b64_value_digit [simp]: "n < 64 \<Longrightarrow> b64_value (b64_digit n) = Some n"
  using index_of_nth [OF alphabet_facts(1)] alphabet_facts(2) by (simp add: b64_value_def b64_digit_def)

lemma b64_digit_in: "b64_digit n \<in> set base64_alphabet"
  unfolding b64_digit_def by (intro nth_mem) (simp add: alphabet_facts)

lemma b64_digit_plain [simp]: "b64_digit n \<noteq> CHR ''=''" "code_point (b64_digit n) \<noteq> 10" "code_point (b64_digit n) \<noteq> 13"
  using b64_digit_in [of n] alphabet_facts(3,4) by (auto simp: list_all_iff)

lemma byte_lt: "unat (b :: byte) < 256"
  using unsigned_less [of b] by simp

lemma quad_bounds: "quad a b c = (p, q, r, s) \<Longrightarrow> p < 64 \<and> q < 64 \<and> r < 64 \<and> s < 64"
  using byte_lt [of a] byte_lt [of b] byte_lt [of c] by (auto simp: quad_def)

lemma triple_quad: "quad a b c = (p, q, r, s) \<Longrightarrow> triple p q r s = (a, b, c)"
proof -
  assume q: "quad a b c = (p, q, r, s)"
  have lt: "unat a < 256" "unat b < 256" "unat c < 256" by (rule byte_lt)+
  have "p * 4 + q div 16 = unat a" "q mod 16 * 16 + r div 4 = unat b" "r mod 4 * 64 + s = unat c"
    using q lt unfolding quad_def by (clarsimp; presburger)+
  then show ?thesis by (simp add: triple_def)
qed

lemma decode_encode_quads: "decode_quads (EncodeToString bs) = Some bs"
proof (induction bs rule: EncodeToString.induct)
  case 1
  then show ?case by simp
next
  case (2 a)
  obtain p q r s where x: "quad a 0 0 = (p, q, r, s)" by (metis surj_pair)
  have "r = 0" "s = 0" using x by (auto simp: quad_def)
  with quad_bounds [OF x] triple_quad [OF x] x show ?case by simp
next
  case (3 a b)
  obtain p q r s where x: "quad a b 0 = (p, q, r, s)" by (metis surj_pair)
  have "s = 0" using x by (auto simp: quad_def)
  with quad_bounds [OF x] triple_quad [OF x] x show ?case by simp
next
  case (4 a b c bs)
  obtain p q r s where x: "quad a b c = (p, q, r, s)" by (metis surj_pair)
  with quad_bounds [OF x] triple_quad [OF x] 4 show ?case by simp
qed

lemma encode_plain: "c \<in> set (EncodeToString bs) \<Longrightarrow> code_point c \<noteq> 10 \<and> code_point c \<noteq> 13"
proof (induction bs rule: EncodeToString.induct)
qed (auto simp: quad_def)

lemma base64_round_trip [simp]: "DecodeString (EncodeToString bs) = Inr bs"
proof -
  have "filter (\<lambda>c. code_point c \<noteq> 10 \<and> code_point c \<noteq> 13) (EncodeToString bs) = EncodeToString bs"
    using encode_plain by (simp add: filter_id_conv)
  then show ?thesis by (simp add: DecodeString_def decode_encode_quads)
qed

end
