(* ===== verification/User_Session.thy ===== *)
theory User_Session
  imports User_Service Encoding
begin

text \<open>
  Authentication in the user domain: session tokens (\<^verbatim>\<open>infra/session/tokengenerator.go\<close>) and the
  service \<^verbatim>\<open>app/service/auth.go\<close>.  The token generator and the password encoder are interfaces of the
  service (\<open>auth_service\<close>), provided here by \<open>NewTokenGenerator\<close> and the encoder of theory \<open>Encoding\<close>.
\<close>

section \<open>Session tokens\<close>

record token_data =
  td_EncodedToken :: string
  td_UserID :: uuid
  td_CreatedAt :: time
  td_ValidTill :: time

text \<open>What the token carries, and \<^verbatim>\<open>json.Marshal\<close> and \<^verbatim>\<open>json.Unmarshal\<close> on it.\<close>

record token_payload =
  tk_UserID :: uuid
  tk_CreatedAt :: time
  tk_ValidTill :: time

record token_codec =
  tc_Marshal :: "token_payload \<Rightarrow> go_error + byte list"
  tc_Unmarshal :: "byte list \<Rightarrow> go_error + token_payload"

definition tokenGenerator_Generate ::
    "token_codec \<Rightarrow> uuid \<Rightarrow> int \<Rightarrow> env \<Rightarrow> (go_error + token_data) \<times> env" where
  "tokenGenerator_Generate c userID ttl x =
     (let (createdAt, x') = time_Now x;
          data = \<lparr>tk_UserID = userID, tk_CreatedAt = createdAt, tk_ValidTill = createdAt + ttl\<rparr>
      in case tc_Marshal c data of
           Inl e \<Rightarrow> (Inl (errorf ''encode token data to json'' e), x')
         | Inr encodedData \<Rightarrow>
             (Inr \<lparr>td_EncodedToken = EncodeToString encodedData, td_UserID = tk_UserID data,
                    td_CreatedAt = tk_CreatedAt data, td_ValidTill = tk_ValidTill data\<rparr>, x'))"

definition tokenGenerator_Decode :: "token_codec \<Rightarrow> string \<Rightarrow> env \<Rightarrow> (go_error + token_data) \<times> env" where
  "tokenGenerator_Decode c tok x =
     (case DecodeString tok of
        Inl e \<Rightarrow> (Inl (Errorf ''decode token base64'' [Sentinel ErrInvalidToken, e]), x)
      | Inr tokenJSON \<Rightarrow>
          (case tc_Unmarshal c tokenJSON of
             Inl e \<Rightarrow> (Inl (Errorf ''decode token data from json'' [Sentinel ErrInvalidToken, e]), x)
           | Inr data \<Rightarrow>
               (let (now, x') = time_Now x
                in if tk_ValidTill data < now then (Inl (errorf ''token is expired'' (Sentinel ErrInvalidToken)), x')
                   else (Inr \<lparr>td_EncodedToken = tok, td_UserID = tk_UserID data,
                          td_CreatedAt = tk_CreatedAt data, td_ValidTill = tk_ValidTill data\<rparr>, x'))))"

section \<open>Authentication service\<close>

record auth_service =
  as_Generate :: "uuid \<Rightarrow> int \<Rightarrow> env \<Rightarrow> (go_error + token_data) \<times> env"
  as_Decode :: "string \<Rightarrow> env \<Rightarrow> (go_error + token_data) \<times> env"
  as_CompareHash :: "string \<Rightarrow> string \<Rightarrow> bool"

definition userSessionTTL :: int where
  "userSessionTTL = 7 * 24 * time_hour"

definition userSessionRenewalInterval :: int where
  "userSessionRenewalInterval = 15 * time_minute"

record session_token_data =
  st_Token :: string
  st_ValidTill :: time

record authentication_data =
  ad_UserID :: uuid
  ad_RenewedToken :: "session_token_data option"

definition generateSessionToken :: "auth_service \<Rightarrow> uuid \<Rightarrow> env \<Rightarrow> (go_error + session_token_data) \<times> env" where
  "generateSessionToken s userID x =
     (case as_Generate s userID userSessionTTL x of
        (Inl e, x') \<Rightarrow> (Inl (errorf ''generate session token'' e), x')
      | (Inr tok, x') \<Rightarrow> (Inr \<lparr>st_Token = td_EncodedToken tok, st_ValidTill = td_ValidTill tok\<rparr>, x'))"

definition auth_Authenticate ::
    "auth_service \<Rightarrow> sql_ctx \<Rightarrow> string \<Rightarrow> string \<Rightarrow> (env, go_error + session_token_data) action" where
  "auth_Authenticate s ctx credLogin credPassword w =
     (let login = trim_space credLogin;
          password = trim_space credPassword
      in if login = [] \<or> password = [] then (Inl (Sentinel ErrUnauthenticated), w)
         else case userRepository_FindOne ctx \<lparr>fs_IDs = [], fs_Logins = [to_lower login]\<rparr> (fst w) of
                (Inl e, db) \<Rightarrow>
                  (if errors_is (Some e) (Some DomainErrUserNotFound) then (Inl (Sentinel ErrUnauthenticated), db, snd w)
                   else (Inl (errorf ''find user by login'' e), db, snd w))
              | (Inr u, db) \<Rightarrow>
                  if u_DeletedAt u \<noteq> None \<or> \<not> as_CompareHash s (u_PasswordHash u) password
                  then (Inl (Sentinel ErrUnauthenticated), db, snd w)
                  else (case generateSessionToken s (u_ID u) (snd w) of (r, x) \<Rightarrow> (r, db, x)))"

definition auth_VerifyAuthentication ::
    "auth_service \<Rightarrow> sql_ctx \<Rightarrow> string \<Rightarrow> (env, go_error + authentication_data) action" where
  "auth_VerifyAuthentication s ctx tok w =
     (case as_Decode s tok (snd w) of
        (Inl e, x) \<Rightarrow>
          (if errors_is (Some e) (Some ErrInvalidToken) then (Inl (Sentinel ErrUnauthenticated), fst w, x)
           else (Inl (errorf ''decode token'' e), fst w, x))
      | (Inr data, x) \<Rightarrow>
          (let (now, x1) = time_Now x in
           if td_CreatedAt data > now - userSessionRenewalInterval
           then (Inr \<lparr>ad_UserID = td_UserID data, ad_RenewedToken = None\<rparr>, fst w, x1)
           else case userRepository_FindOne ctx \<lparr>fs_IDs = [td_UserID data], fs_Logins = []\<rparr> (fst w) of
                  (Inl e, db) \<Rightarrow>
                    (if errors_is (Some e) (Some DomainErrUserNotFound) then (Inl (Sentinel ErrUnauthenticated), db, x1)
                     else (Inl (errorf ''find user by id'' e), db, x1))
                | (Inr u, db) \<Rightarrow>
                    if u_DeletedAt u \<noteq> None then (Inl (Sentinel ErrUnauthenticated), db, x1)
                    else (case generateSessionToken s (td_UserID data) x1 of
                            (Inl e, x2) \<Rightarrow> (Inl e, db, x2)
                          | (Inr renewed, x2) \<Rightarrow>
                              (Inr \<lparr>ad_UserID = td_UserID data, ad_RenewedToken = Some renewed\<rparr>, db, x2))))"

section \<open>The providers\<close>

text \<open>\<^verbatim>\<open>authServiceProvider\<close> of the container.\<close>

definition NewAuthentication :: "token_codec \<Rightarrow> auth_service" where
  "NewAuthentication c =
     \<lparr>as_Generate = tokenGenerator_Generate c, as_Decode = tokenGenerator_Decode c, as_CompareHash = CompareHash\<rparr>"

definition reads_back :: "token_codec \<Rightarrow> bool" where
  "reads_back c \<longleftrightarrow> (\<forall>d bs. tc_Marshal c d = Inr bs \<longrightarrow> tc_Unmarshal c bs = Inr d)"

lemma time_Now_simps [simp]: "fst (time_Now x) = en_clock x (en_ticks x)"
  by (simp add: time_Now_def)

lemma token_decodes:
  assumes "reads_back c" and "tokenGenerator_Generate c userID ttl x = (Inr tok, x1)"
  shows "td_UserID tok = userID \<and> td_CreatedAt tok = fst (time_Now x) \<and> td_ValidTill tok = fst (time_Now x) + ttl
    \<and> tokenGenerator_Decode c (td_EncodedToken tok) x2 =
        (if fst (time_Now x2) \<le> td_ValidTill tok then Inr tok
         else Inl (errorf ''token is expired'' (Sentinel ErrInvalidToken)), snd (time_Now x2))"
  using assms
  by (auto simp: tokenGenerator_Generate_def tokenGenerator_Decode_def reads_back_def Let_def time_Now_def
      split: sum.splits)

text \<open>
  A session token decodes to the user, the creation time and the end of validity it was generated
  for until it expires; from then on \<^verbatim>\<open>Decode\<close> reports \<^verbatim>\<open>ErrInvalidToken\<close>.  The JSON package reads back what
  it writes.
\<close>

theorem token_round_trip:
  assumes "reads_back c" and "tokenGenerator_Generate c userID ttl x = (Inr tok, x1)"
  shows "td_UserID tok = userID \<and> td_CreatedAt tok = fst (time_Now x) \<and> td_ValidTill tok = fst (time_Now x) + ttl
    \<and> tokenGenerator_Decode c (td_EncodedToken tok) x2 =
        (if fst (time_Now x2) \<le> td_ValidTill tok then Inr tok
         else Inl (errorf ''token is expired'' (Sentinel ErrInvalidToken)), snd (time_Now x2))"
  using token_decodes [OF assms] .

definition example_token_codec :: token_codec where
  "example_token_codec =
     \<lparr>tc_Marshal = (\<lambda>d. if tk_UserID d = 7 \<and> tk_ValidTill d = tk_CreatedAt d + userSessionTTL \<and> 0 \<le> tk_CreatedAt d \<and> tk_CreatedAt d < 256
         then Inr [of_int (tk_CreatedAt d)] else Inl (errors_new [])),
      tc_Unmarshal = (\<lambda>bs. case bs of
         [b] \<Rightarrow> Inr \<lparr>tk_UserID = 7, tk_CreatedAt = int (unat b), tk_ValidTill = int (unat b) + userSessionTTL\<rparr>
       | _ \<Rightarrow> Inl (errors_new []))\<rparr>"

lemma example_reads_back: "reads_back example_token_codec"
proof -
  have "int (unat (of_int t :: byte)) = t" if "0 \<le> t" "t < 256" for t
    using that by (simp add: unsigned_of_int take_bit_int_eq_self)
  then show ?thesis by (auto simp: reads_back_def example_token_codec_def split: if_splits)
qed

lemma authenticate_outcome:
  assumes "users_ok (users_seen ctx db)"
    and run: "auth_Authenticate (NewAuthentication c) ctx credLogin credPassword (db, x) = (res, db', x')"
  defines "good \<equiv> \<lambda>r. r \<in> set (users_seen ctx db) \<and> ur_login r = to_lower (trim_space credLogin)
      \<and> ur_deleted_at r = None \<and> HashPassword (trim_space credPassword) = Inr (ur_password_hash r)
      \<and> trim_space credLogin \<noteq> [] \<and> trim_space credPassword \<noteq> []"
  shows "db_view (route_of ctx) db' = db_view (route_of ctx) db
    \<and> (\<forall>tok. res = Inr tok \<longrightarrow> (\<exists>r. good r \<and> generateSessionToken (NewAuthentication c) (ur_id r) x = (Inr tok, x')
          \<and> st_ValidTill tok = fst (time_Now x) + 7 * 24 * time_hour))
    \<and> ((\<forall>n. db_fault db n = NoFault) \<and> cx_tx ctx = None \<longrightarrow>
         (\<forall>r. good r \<longrightarrow> res = fst (generateSessionToken (NewAuthentication c) (ur_id r) x))
         \<and> ((\<nexists>r. good r) \<longrightarrow> res = Inl (Sentinel ErrUnauthenticated)))"
proof (cases "trim_space credLogin = [] \<or> trim_space credPassword = []")
  case True
  then show ?thesis using run by (auto simp: auth_Authenticate_def good_def)
next
  case False
  let ?spec = "\<lparr>fs_IDs = [], fs_Logins = [to_lower (trim_space credLogin)]\<rparr>"
  obtain f db1 where f: "userRepository_FindOne ctx ?spec db = (f, db1)" by force
  have ttl: "st_ValidTill tok = fst (time_Now x) + 7 * 24 * time_hour"
    if "generateSessionToken (NewAuthentication c) i x = (Inr tok, x1)" for i tok x1
    using that by (auto simp: generateSessionToken_def NewAuthentication_def tokenGenerator_Generate_def userSessionTTL_def
        time_Now_def Let_def split: sum.splits prod.splits)
  show ?thesis
  proof (cases f)
    case (Inr u)
    obtain r where r: "r \<in> set (users_seen ctx db)" "ur_login r = to_lower (trim_space credLogin)" "u = user_of_row r"
      using FindOne_ok [OF f [unfolded Inr]] by (auto simp: user_matches_def)
    have same: "r' = r" if "r' \<in> set (users_seen ctx db)" "ur_login r' = to_lower (trim_space credLogin)" for r'
      using users_ok_same(1) [OF assms(1) that(1) r(1)] that(2) r(2) by simp
    let ?bad = "u_DeletedAt u \<noteq> None \<or> \<not> CompareHash (u_PasswordHash u) (trim_space credPassword)"
    have "good r \<longleftrightarrow> \<not> ?bad"
      using r(1,2) False by (simp add: good_def r(3) user_of_row_def CompareHash_iff)
    moreover have "good r' \<Longrightarrow> r' = r" for r' using same unfolding good_def by blast
    ultimately have good: "good r' \<longleftrightarrow> r' = r \<and> \<not> ?bad" for r' by blast
    obtain g x1 where g: "generateSessionToken (NewAuthentication c) (ur_id r) x = (g, x1)" by force
    have res: "(res, db', x') = (if u_DeletedAt u \<noteq> None \<or> \<not> CompareHash (u_PasswordHash u) (trim_space credPassword)
        then (Inl (Sentinel ErrUnauthenticated), db1, x) else (g, db1, x1))"
      using run False f Inr g r by (auto simp: auth_Authenticate_def NewAuthentication_def user_of_row_def Let_def)
    show ?thesis
    proof (cases ?bad)
      case True
      with res have "res = Inl (Sentinel ErrUnauthenticated)" "db' = db1" by simp_all
      with FindOne_view [OF f] good True show ?thesis by auto
    next
      case False
      with res have "res = g" "db' = db1" "x' = x1" by simp_all
      with FindOne_view [OF f] good False ttl g show ?thesis by auto
    qed
  next
    case (Inl e)
    have db': "db' = db1" and bad: "\<nexists>tok. res = Inr tok"
      and un: "error_is e DomainErrUserNotFound \<Longrightarrow> res = Inl (Sentinel ErrUnauthenticated)"
      using run False f Inl by (auto simp: auth_Authenticate_def Let_def split: if_splits)
    have "error_is e DomainErrUserNotFound \<and> (\<nexists>r. good r)" if calm: "\<forall>n. db_fault db n = NoFault" "cx_tx ctx = None"
    proof -
      have "\<not> tx_done (route_of ctx) d" for d using route_no_tx [OF calm(2)] by (auto simp: tx_done_def)
      then have nf: "error_is e DomainErrUserNotFound" using f Inl calm
        by (auto simp: userRepository_FindOne_def GetContext_def run_select_def call_defs split: list.splits if_splits)
      have "honest_db db" using calm by (simp add: honest_db_def)
      from FindOne_missing [OF f [unfolded Inl] nf this] nf show ?thesis
        by (auto simp: good_def filter_empty_conv user_matches_def)
    qed
    with FindOne_view [OF f] db' bad un show ?thesis by auto
  qed
qed

text \<open>
  C20. \<^verbatim>\<open>Authenticate\<close> gives a token only for a live user whose stored login is the trimmed, lower-case
  login and whose stored hash is the hash of the trimmed password; the token is for that user and valid
  for seven days, and nothing is written.  Against a server without faults it gives the token exactly
  then, and answers \<^verbatim>\<open>ErrUnauthenticated\<close> otherwise.
\<close>

theorem authenticate_checks_credentials:
  assumes "users_ok (users_seen ctx db)"
    and run: "auth_Authenticate (NewAuthentication c) ctx credLogin credPassword (db, x) = (res, db', x')"
  defines "good \<equiv> \<lambda>r. r \<in> set (users_seen ctx db) \<and> ur_login r = to_lower (trim_space credLogin)
      \<and> ur_deleted_at r = None \<and> HashPassword (trim_space credPassword) = Inr (ur_password_hash r)
      \<and> trim_space credLogin \<noteq> [] \<and> trim_space credPassword \<noteq> []"
  shows "db_view (route_of ctx) db' = db_view (route_of ctx) db
    \<and> (\<forall>tok. res = Inr tok \<longrightarrow> (\<exists>r. good r \<and> generateSessionToken (NewAuthentication c) (ur_id r) x = (Inr tok, x')
          \<and> st_ValidTill tok = fst (time_Now x) + 7 * 24 * time_hour))
    \<and> ((\<forall>n. db_fault db n = NoFault) \<and> cx_tx ctx = None \<longrightarrow>
         (\<forall>r. good r \<longrightarrow> res = fst (generateSessionToken (NewAuthentication c) (ur_id r) x))
         \<and> ((\<nexists>r. good r) \<longrightarrow> res = Inl (Sentinel ErrUnauthenticated)))"
  unfolding good_def using authenticate_outcome [OF assms(1) run] by simp

text \<open>
  C21. \<^verbatim>\<open>VerifyAuthentication\<close> accepts only a token that decodes and has not expired, and for the user in
  it; up to fifteen minutes after its creation without asking the database, later only while the
  database has the user and the user is not deleted, and then the session is renewed for seven days.
  So a deleted user is refused at the latest fifteen minutes after the last renewal.
\<close>

theorem verification_bounds_deleted_sessions:
  assumes run: "auth_VerifyAuthentication (NewAuthentication c) ctx tok (db, x) = (Inr ad, db', x')"
  shows "\<exists>td x1. tokenGenerator_Decode c tok x = (Inr td, x1)
    \<and> fst (time_Now x) \<le> td_ValidTill td \<and> ad_UserID ad = td_UserID td
    \<and> (if fst (time_Now x1) - 15 * time_minute < td_CreatedAt td then ad_RenewedToken ad = None
       else (\<exists>r \<in> set (users_seen ctx db). ur_id r = td_UserID td \<and> ur_deleted_at r = None)
         \<and> (\<exists>renewed. ad_RenewedToken ad = Some renewed
              \<and> st_ValidTill renewed = fst (time_Now (snd (time_Now x1))) + 7 * 24 * time_hour))"
proof -
  obtain d x1 where d: "tokenGenerator_Decode c tok x = (d, x1)" by force
  obtain td where td: "d = Inr td"
    using run d by (cases d) (auto simp: auth_VerifyAuthentication_def NewAuthentication_def split: if_splits)
  have valid: "fst (time_Now x) \<le> td_ValidTill td"
    using d td by (auto simp: tokenGenerator_Decode_def Let_def time_Now_def split: sum.splits if_splits)
  define spec where "spec = \<lparr>fs_IDs = [td_UserID td], fs_Logins = []\<rparr>"
  obtain f db1 where f: "userRepository_FindOne ctx spec db = (f, db1)" by force
  let ?s = "NewAuthentication c"
  show ?thesis
  proof (cases "fst (time_Now x1) - 15 * time_minute < td_CreatedAt td")
    case True
    then have "ad = \<lparr>ad_UserID = td_UserID td, ad_RenewedToken = None\<rparr>"
      using run d td by (auto simp: auth_VerifyAuthentication_def NewAuthentication_def userSessionRenewalInterval_def
          time_Now_def)
    with True d td valid show ?thesis by auto
  next
    case False
    obtain g x3 where g: "generateSessionToken ?s (td_UserID td) (snd (time_Now x1)) = (g, x3)" by force
    obtain u renewed where u: "f = Inr u" "u_DeletedAt u = None" "g = Inr renewed"
      "ad = \<lparr>ad_UserID = td_UserID td, ad_RenewedToken = Some renewed\<rparr>"
      using run d td False f g
      by (auto simp: auth_VerifyAuthentication_def NewAuthentication_def userSessionRenewalInterval_def spec_def
          time_Now_def split: sum.splits if_splits)
    obtain r where "r \<in> set (users_seen ctx db)" "ur_id r = td_UserID td" "ur_deleted_at r = None"
      using FindOne_ok [OF f [unfolded u(1)]] u(2) by (auto simp: spec_def user_matches_def user_of_row_def)
    moreover have "st_ValidTill renewed = fst (time_Now (snd (time_Now x1))) + 7 * 24 * time_hour"
      using g u(3) by (auto simp: generateSessionToken_def NewAuthentication_def tokenGenerator_Generate_def
          userSessionTTL_def time_Now_def Let_def split: sum.splits)
    ultimately show ?thesis using False d td valid u(4) by auto
  qed
qed

section \<open>Examples\<close>

definition example_login_tables :: tables where
  "example_login_tables = empty_tables\<lparr>t_user := [registered 7 ''bob'' (projr (HashPassword ''pw''))]\<rparr>"

lemma example_generates:
  "\<exists>tok x'. tokenGenerator_Generate example_token_codec 7 userSessionTTL example_env = (Inr tok, x')"
  by (simp add: tokenGenerator_Generate_def example_token_codec_def example_env_def time_Now_def)

theorem token_round_trip_witness:
  "\<exists>tok x1. tokenGenerator_Generate example_token_codec 7 userSessionTTL example_env = (Inr tok, x1)
    \<and> fst (tokenGenerator_Decode example_token_codec (td_EncodedToken tok) x1) = Inr tok"
proof -
  obtain tok x1 where g: "tokenGenerator_Generate example_token_codec 7 userSessionTTL example_env = (Inr tok, x1)"
    using example_generates by blast
  then have "x1 = snd (time_Now example_env)"
    by (auto simp: tokenGenerator_Generate_def example_token_codec_def time_Now_def Let_def split: if_splits)
  then have "fst (time_Now x1) = 1" "fst (time_Now example_env) = 0"
    by (simp_all add: time_Now_def example_env_def)
  with token_round_trip [OF example_reads_back g, of x1] g show ?thesis
    by (simp add: userSessionTTL_def time_hour_def time_minute_def)
qed

lemma example_login_ok: "users_ok (users_seen background (calm_db example_login_tables))"
  by (simp add: users_ok_def background_def route_of_def db_view_def calm_db_def example_login_tables_def)

theorem authenticate_checks_credentials_witness:
  "\<exists>tok. fst (auth_Authenticate (NewAuthentication example_token_codec) background ''BOB'' ''pw ''
      (calm_db example_login_tables, example_env)) = Inr tok"
proof -
  obtain res db' x' where run: "auth_Authenticate (NewAuthentication example_token_codec) background ''BOB'' ''pw ''
      (calm_db example_login_tables, example_env) = (res, db', x')" by (metis surj_pair)
  have str: "to_lower (trim_space ''BOB'') = ''bob''" "trim_space ''pw '' = ''pw''" "trim_space ''BOB'' \<noteq> []" by code_simp+
  let ?r = "registered 7 ''bob'' (projr (HashPassword ''pw''))"
  have hash: "HashPassword ''pw'' = Inr (projr (HashPassword ''pw''))" by (simp add: HashPassword_def)
  have row: "?r \<in> set (users_seen background (calm_db example_login_tables))"
    by (simp add: background_def route_of_def db_view_def calm_db_def example_login_tables_def)
  have calm: "\<forall>n. db_fault (calm_db example_login_tables) n = NoFault" "cx_tx background = None"
    by (simp_all add: calm_db_def background_def)
  have f: "ur_login ?r = ''bob''" "ur_deleted_at ?r = None" "ur_password_hash ?r = projr (HashPassword ''pw'')" "ur_id ?r = 7"
    by (simp_all add: registered_def)
  have "res = fst (generateSessionToken (NewAuthentication example_token_codec) (ur_id ?r) example_env)"
    using authenticate_checks_credentials [OF example_login_ok run] calm row hash f(1-3) str by simp
  then have "res = fst (generateSessionToken (NewAuthentication example_token_codec) 7 example_env)" by (simp only: f)
  with run show ?thesis
    using example_generates by (auto simp: generateSessionToken_def NewAuthentication_def)
qed

theorem verification_bounds_deleted_sessions_witness:
  "\<exists>tok ad. fst (auth_VerifyAuthentication (NewAuthentication example_token_codec) background tok
      (calm_db empty_tables, example_env)) = Inr ad \<and> ad_RenewedToken ad = None"
proof -
  let ?tok = "EncodeToString [0]"
  obtain ad db' x' where run: "auth_VerifyAuthentication (NewAuthentication example_token_codec) background ?tok
      (calm_db empty_tables, example_env) = (Inr ad, db', x')"
    by (simp del: EncodeToString.simps add: auth_VerifyAuthentication_def NewAuthentication_def tokenGenerator_Decode_def
        example_token_codec_def time_Now_def example_env_def userSessionTTL_def userSessionRenewalInterval_def
        time_hour_def time_minute_def)
  have "tokenGenerator_Decode example_token_codec ?tok example_env
      = (Inr \<lparr>td_EncodedToken = ?tok, td_UserID = 7, td_CreatedAt = 0, td_ValidTill = userSessionTTL\<rparr>, snd (time_Now example_env))"
    by (simp del: EncodeToString.simps add: tokenGenerator_Decode_def example_token_codec_def time_Now_def example_env_def
        userSessionTTL_def time_hour_def time_minute_def)
  with verification_bounds_deleted_sessions [OF run] have "ad_RenewedToken ad = None"
    by (auto simp: time_Now_def example_env_def time_minute_def)
  with run show ?thesis by (metis fst_conv)
qed

end
