(* ===== verification/Http_Handlers.thy ===== *)
theory Http_Handlers
  imports Http_Access User_Deletion User_Session User_Profile
begin

text \<open>
  The HTTP handlers of the user service (\<^verbatim>\<open>internal/user/infra/http\<close>) and of the user profile service
  (\<^verbatim>\<open>internal/userprofile/infra/http\<close>), and how their containers register them.  The generated converters copy fields of equal
  names.
\<close>

record codecs =
  co_json :: body_codec
  co_parsers :: value_parsers
  co_uuid_String :: "uuid \<Rightarrow> string"

type_synonym user_world = "env world"

section \<open>User service\<close>

definition userSessionCookieName :: string where
  "userSessionCookieName = ''ust''"

definition NewUserSessionCookie :: "session_token_data \<Rightarrow> cookie" where
  "NewUserSessionCookie tok =
     \<lparr>ck_Name = userSessionCookieName, ck_Value = st_Token tok, ck_Path = ''/'', ck_Expires = Some (st_ValidTill tok), ck_HttpOnly = True\<rparr>"

definition credentials_In :: "json \<Rightarrow> go_error + string \<times> string" where
  "credentials_In j = map_right (\<lambda>f. (f ''login'', f ''password'')) (decode_strings [''login'', ''password''] j)"

definition AuthenticateHandler_Handle :: "codecs \<Rightarrow> auth_service \<Rightarrow> user_world handler_func" where
  "AuthenticateHandler_Handle X s r w =
     (case ParseRequest r (JSONBody (co_json X) credentials_In) None of
        Panics \<Rightarrow> (Panics, [], w)
      | Returns (Inl e) \<Rightarrow> (Returns (Some e), [SetStatusCode 401], w)
      | Returns (Inr (inLogin, inPassword)) \<Rightarrow>
          (let login = trim_space inLogin; password = trim_space inPassword in
           if login = [] then (Returns (Some (errors_new ''login must be not empty'')), [SetStatusCode 401], w)
           else if password = [] then (Returns (Some (errors_new ''password must be not empty'')), [SetStatusCode 401], w)
           else case auth_Authenticate s (rq_ctx r) login password w of
                  (Inl e, w') \<Rightarrow> (Returns (Some e), [], w')
                | (Inr tok, w') \<Rightarrow> (Returns None, [SetCookie (NewUserSessionCookie tok)], w')))"

definition AuthenticateHandler :: "codecs \<Rightarrow> auth_service \<Rightarrow> user_world endpoint" where
  "AuthenticateHandler X s = \<lparr>ep_Method = ''POST'', ep_Path = ''/auth'', ep_Handle = AuthenticateHandler_Handle X s\<rparr>"

definition VerifyAuthenticationHandler_Handle :: "codecs \<Rightarrow> auth_service \<Rightarrow> user_world handler_func" where
  "VerifyAuthenticationHandler_Handle X s r w =
     (case ParseRequest r (CookieValue (co_parsers X) TString userSessionCookieName) None of
        Returns (Inr (VString sessionToken)) \<Rightarrow>
          (case auth_VerifyAuthentication s (rq_ctx r) sessionToken w of
             (Inl e, w') \<Rightarrow> (Returns (Some e), [], w')
           | (Inr authData, w') \<Rightarrow>
               (Returns None,
                (case ad_RenewedToken authData of Some tok \<Rightarrow> [SetCookie (NewUserSessionCookie tok)] | None \<Rightarrow> [])
                @ [SetHeader HeaderAuthUserID (co_uuid_String X (ad_UserID authData))], w'))
      | Returns (Inl e) \<Rightarrow> (Returns (Some e), [SetStatusCode 401], w)
      | _ \<Rightarrow> (Panics, [], w))"

definition VerifyAuthenticationHandler :: "codecs \<Rightarrow> auth_service \<Rightarrow> user_world endpoint" where
  "VerifyAuthenticationHandler X s =
     \<lparr>ep_Method = ''POST'', ep_Path = ''/auth/verification'', ep_Handle = VerifyAuthenticationHandler_Handle X s\<rparr>"

definition RegisterUserHandler_Handle :: "codecs \<Rightarrow> user_service \<Rightarrow> user_world handler_func" where
  "RegisterUserHandler_Handle X s r w =
     (case ParseRequest r (JSONBody (co_json X) credentials_In) None of
        Panics \<Rightarrow> (Panics, [], w)
      | Returns (Inl e) \<Rightarrow> (Returns (Some e), [], w)
      | Returns (Inr (inLogin, inPassword)) \<Rightarrow>
          (let login = trim_space inLogin; password = trim_space inPassword in
           if login = [] then (Returns (Some (errors_new ''login must be not empty'')), [SetStatusCode 400], w)
           else if password = [] then (Returns (Some (errors_new ''password must be not empty'')), [SetStatusCode 400], w)
           else case user_Register s (rq_ctx r) login password w of
                  (Panics, w') \<Rightarrow> (Panics, [], w')
                | (Returns (userID, e), w') \<Rightarrow>
                    if errors_is e (Some ErrInvalidUserCredentials) then (Returns e, [SetStatusCode 400], w')
                    else if errors_is e (Some ErrUserIsAlreadyDeleted) then (Returns e, [SetStatusCode 403], w')
                    else (let calls = (if errors_is e (Some ErrUserAlreadyExists) then [SetStatusCode 409] else []) in
                          if e \<noteq> None then (Returns e, calls, w')
                          else (Returns None,
                                calls @ [SetJSONBody (bc_Marshal (co_json X) (JObject [(''id'', JString (co_uuid_String X userID))])),
                                         SetStatusCode 201], w'))))"

definition RegisterUserHandler :: "codecs \<Rightarrow> user_service \<Rightarrow> user_world endpoint" where
  "RegisterUserHandler X s = \<lparr>ep_Method = ''POST'', ep_Path = ''/users'', ep_Handle = RegisterUserHandler_Handle X s\<rparr>"

definition UserOut :: "codecs \<Rightarrow> user_data \<Rightarrow> json" where
  "UserOut X d =
     JObject [(''id'', JString (co_uuid_String X (ud_ID d))), (''login'', JString (ud_Login d)),
              (''deletedAt'', case ud_DeletedAt d of None \<Rightarrow> JNull | Some t \<Rightarrow> JTime t)]"

definition GetCurrentUserHandler_Handle :: "codecs \<Rightarrow> user_world handler_func" where
  "GetCurrentUserHandler_Handle X r w =
     (case GetAuthentication (cx_auth (rq_ctx r)) of
        Some (Some p) \<Rightarrow>
          (case p_UserID p of
             None \<Rightarrow> (Returns (Some (Sentinel ErrUnauthenticated)), [], w)
           | Some userID \<Rightarrow>
               (case user_GetByID (rq_ctx r) userID (fst w) of
                  (Inl e, db) \<Rightarrow> (Returns (Some e), [], db, snd w)
                | (Inr d, db) \<Rightarrow> (Returns None, [SetJSONBody (bc_Marshal (co_json X) (UserOut X d))], db, snd w)))
      | _ \<Rightarrow> (Returns (Some (Sentinel ErrUnauthenticated)), [], w))"

definition GetCurrentUserHandler :: "codecs \<Rightarrow> user_world endpoint" where
  "GetCurrentUserHandler X = \<lparr>ep_Method = ''GET'', ep_Path = ''/current-user'', ep_Handle = GetCurrentUserHandler_Handle X\<rparr>"

definition user_path :: string where
  "user_path = ''/users/'' @ [CHR 0x7B] @ ''userID'' @ [CHR 0x7D]"

definition GetUserByIDHandler_Handle :: "codecs \<Rightarrow> user_world handler_func" where
  "GetUserByIDHandler_Handle X r w =
     (case ParseRequest r (PathParameter (co_parsers X) TUuid ''userID'') None of
        Returns (Inl e) \<Rightarrow> (Returns (Some e), [], w)
      | Returns (Inr (VUuid userID)) \<Rightarrow>
          (case user_GetByID (rq_ctx r) userID (fst w) of
             (Inl e, db) \<Rightarrow>
               (Returns (Some e), if errors_is (Some e) (Some ServiceErrUserNotFound) then [SetStatusCode 404] else [], db, snd w)
           | (Inr d, db) \<Rightarrow> (Returns None, [SetJSONBody (bc_Marshal (co_json X) (UserOut X d))], db, snd w))
      | _ \<Rightarrow> (Panics, [], w))"

definition GetUserByIDHandler :: "codecs \<Rightarrow> user_world endpoint" where
  "GetUserByIDHandler X = \<lparr>ep_Method = ''GET'', ep_Path = user_path, ep_Handle = GetUserByIDHandler_Handle X\<rparr>"

definition DeleteUserByIDHandler_Handle :: "codecs \<Rightarrow> user_service \<Rightarrow> user_world handler_func" where
  "DeleteUserByIDHandler_Handle X s r w =
     (case ParseRequest r (PathParameter (co_parsers X) TUuid ''userID'') None of
        Returns (Inl e) \<Rightarrow> (Returns (Some e), [], w)
      | Returns (Inr (VUuid userID)) \<Rightarrow> (case user_Delete s (rq_ctx r) userID w of (res, w') \<Rightarrow> (res, [], w'))
      | _ \<Rightarrow> (Panics, [], w))"

definition DeleteUserByIDHandler :: "codecs \<Rightarrow> user_service \<Rightarrow> user_world endpoint" where
  "DeleteUserByIDHandler X s = \<lparr>ep_Method = ''DELETE'', ep_Path = user_path, ep_Handle = DeleteUserByIDHandler_Handle X s\<rparr>"

definition user_MustRegisterHTTPHandlers ::
    "user_world handler_mw \<Rightarrow> codecs \<Rightarrow> auth_service \<Rightarrow> user_service \<Rightarrow> user_world server \<Rightarrow> user_world server" where
  "user_MustRegisterHTTPHandlers cors X as us srv =
     (let auth = [UseMW WithAuthenticationRequirement];
          s1 = server_Register cors (AuthenticateHandler X as) [] srv;
          s2 = server_Register cors (VerifyAuthenticationHandler X as) [] s1;
          s3 = server_Register cors (RegisterUserHandler X us) [] s2;
          s4 = server_Register cors (GetCurrentUserHandler X) auth s3;
          s5 = server_Register cors (GetUserByIDHandler X) auth s4
      in server_Register cors (DeleteUserByIDHandler X us) auth s5)"

section \<open>User profile service\<close>

definition profile_path :: string where
  "profile_path = ''/profile/'' @ [CHR 0x7B] @ ''userID'' @ [CHR 0x7D]"

definition GetUserProfileHandler_Handle :: "codecs \<Rightarrow> 'x profile_service \<Rightarrow> 'x world handler_func" where
  "GetUserProfileHandler_Handle X s r w =
     (case ParseRequest r (PathParameter (co_parsers X) TUuid ''userID'') None of
        Returns (Inl e) \<Rightarrow> (Returns (Some e), [], w)
      | Returns (Inr (VUuid userID)) \<Rightarrow>
          (case userProfile_Get s (rq_ctx r) userID w of
             (Inl e, w') \<Rightarrow>
               (Returns (Some e),
                if errors_is (Some e) (Some ProfileErrUserNotFound) \<or> errors_is (Some e) (Some ErrUserProfileNotFound)
                then [SetStatusCode 404] else [], w')
           | (Inr p, w') \<Rightarrow>
               (Returns None, [SetJSONBody (bc_Marshal (co_json X)
                  (JObject [(''firstName'', JString (up_FirstName p)), (''lastName'', JString (up_LastName p))]))], w'))
      | _ \<Rightarrow> (Panics, [], w))"

definition GetUserProfileHandler :: "codecs \<Rightarrow> 'x profile_service \<Rightarrow> 'x world endpoint" where
  "GetUserProfileHandler X s = \<lparr>ep_Method = ''GET'', ep_Path = profile_path, ep_Handle = GetUserProfileHandler_Handle X s\<rparr>"

definition profile_In :: "json \<Rightarrow> go_error + string \<times> string" where
  "profile_In j = map_right (\<lambda>f. (f ''firstName'', f ''lastName'')) (decode_strings [''firstName'', ''lastName''] j)"

definition UpdateUserProfileHandler_Handle :: "codecs \<Rightarrow> 'x profile_service \<Rightarrow> 'x world handler_func" where
  "UpdateUserProfileHandler_Handle X s r w =
     (case ParseRequest r (PathParameter (co_parsers X) TUuid ''userID'') None of
        Panics \<Rightarrow> (Panics, [], w)
      | Returns parsedID \<Rightarrow>
          (case ParseRequest r (JSONBody (co_json X) profile_In) (case parsedID of Inl e \<Rightarrow> Some e | Inr _ \<Rightarrow> None) of
             Panics \<Rightarrow> (Panics, [], w)
           | Returns (Inl e) \<Rightarrow> (Returns (Some e), [], w)
           | Returns (Inr (firstName, lastName)) \<Rightarrow>
               (let userID = (case parsedID of Inr (VUuid u) \<Rightarrow> u | _ \<Rightarrow> uuid_nil) in
                case userProfile_Update s (rq_ctx r) \<lparr>up_ID = userID, up_FirstName = firstName, up_LastName = lastName\<rparr> w of
                  (e, w') \<Rightarrow>
                    (Returns e,
                     if errors_is e (Some ErrInvalidUserProfileData) then [SetStatusCode 400]
                     else if errors_is e (Some ProfileErrUserNotFound) then [SetStatusCode 404] else [], w'))))"

definition UpdateUserProfileHandler :: "codecs \<Rightarrow> 'x profile_service \<Rightarrow> 'x world endpoint" where
  "UpdateUserProfileHandler X s = \<lparr>ep_Method = ''PUT'', ep_Path = profile_path, ep_Handle = UpdateUserProfileHandler_Handle X s\<rparr>"

definition profile_MustRegisterHTTPHandlers ::
    "'x world handler_mw \<Rightarrow> codecs \<Rightarrow> 'x profile_service \<Rightarrow> 'x world server \<Rightarrow> 'x world server" where
  "profile_MustRegisterHTTPHandlers cors X s srv =
     (let options = [UseMW WithAuthenticationRequirement]
      in server_Register cors (UpdateUserProfileHandler X s) options (server_Register cors (GetUserProfileHandler X s) options srv))"

section \<open>Reading a user over HTTP\<close>

definition user_routes :: "user_world handler_mw \<Rightarrow> codecs \<Rightarrow> auth_service \<Rightarrow> user_service \<Rightarrow> user_world http_route list" where
  "user_routes cors X as us = sr_routes (user_MustRegisterHTTPHandlers cors X as us
     \<lparr>sr_Addr = [], sr_ShutdownTimeout = 0, sr_mws = [], sr_routes = []\<rparr>)"

lemma user_routes_registered:
  "sr_routes (user_MustRegisterHTTPHandlers cors X as us srv) = sr_routes srv @ user_routes cors X as us
    \<and> sr_mws (user_MustRegisterHTTPHandlers cors X as us srv) = sr_mws srv"
  by (simp add: user_routes_def user_MustRegisterHTTPHandlers_def server_Register_def Let_def)

lemma get_user_route:
  assumes "ro \<in> set (user_routes cors X as us)" and "ro_Method ro = ''GET''" and "ro_Path ro = user_path"
  shows "ro_mws ro = [WithAuthenticationRequirement] \<and> ro_handler ro = httpHandlerWrapper (GetUserByIDHandler_Handle X)"
  using assms
  by (auto simp: user_routes_def user_MustRegisterHTTPHandlers_def server_Register_def Let_def option_routes_def option_mws_def
      AuthenticateHandler_def VerifyAuthenticationHandler_def RegisterUserHandler_def GetCurrentUserHandler_def
      GetUserByIDHandler_def DeleteUserByIDHandler_def user_path_def)

lemma run_route_mws: "sr_mws srv = sr_mws srv' \<Longrightarrow> run_route srv ro = run_route srv' ro"
  by (intro ext) (simp add: run_route_def)

text \<open>The answer to \<^verbatim>\<open>GET /users/{userID}\<close> in terms of the token and the table.\<close>

definition get_user_status :: "codecs \<Rightarrow> user_row list \<Rightarrow> token \<Rightarrow> string option \<Rightarrow> int" where
  "get_user_status X users tok param =
     (case param of
        None \<Rightarrow> 400
      | Some v \<Rightarrow>
          (case vp_Uuid (co_parsers X) v of
             Inl _ \<Rightarrow> 400
           | Inr u \<Rightarrow>
               (case tok of UserIDToken i \<Rightarrow> if i \<noteq> u then 403 else if u \<in> ur_id ` set users then 200 else 404
                | _ \<Rightarrow> if u \<in> ur_id ` set users then 200 else 404)))"

lemma GetByID_calm:
  assumes "\<forall>n. db_fault db n = NoFault" and "cx_tx ctx = None" and "permission_Check (cx_auth ctx) (CanReadUser u) = None"
  shows "fst (user_GetByID ctx u db) =
    (case filter (\<lambda>r. ur_id r = u) (t_user (db_tables db)) of
       [] \<Rightarrow> Inl (Sentinel ServiceErrUserNotFound) | r # _ \<Rightarrow> Inr (ToDTOUserData (user_of_row r)))"
proof -
  have m: "user_matches \<lparr>fs_IDs = [u], fs_Logins = []\<rparr> = (\<lambda>r. ur_id r = u)" by (auto simp: user_matches_def)
  obtain f db' where f: "userRepository_FindOne ctx \<lparr>fs_IDs = [u], fs_Logins = []\<rparr> db = (f, db')" by force
  with FindOne_calm [OF assms(1,2), of "\<lparr>fs_IDs = [u], fs_Logins = []\<rparr>"] assms(3) show ?thesis
    by (auto simp: user_GetByID_def m split: list.splits sum.splits if_splits)
qed

lemma GetUserByID_status:
  assumes "\<forall>n. db_fault db n = NoFault" and "cx_tx (rq_ctx r) = None" and auth: "cx_auth (rq_ctx r) = Some (Some (principal_of tok))"
    and known: "provider_Authenticate tok = Inr (Some (principal_of tok))"
    and marshal: "\<forall>row \<in> set (t_user (db_tables db)). \<exists>b. bc_Marshal (co_json X) (UserOut X (ToDTOUserData (user_of_row row))) = Inr b"
    and run: "GetUserByIDHandler_Handle X r (db, x) = (res, calls, w)"
  shows "status_of res calls = get_user_status X (t_user (db_tables db)) tok (rq_Vars r ''userID'')
    \<and> (explicit_code calls 0 = 0 \<or> explicit_code calls 0 = 404)"
proof -
  let ?v = "rq_Vars r ''userID''"
  consider "?v = None" | v e where "?v = Some v" "vp_Uuid (co_parsers X) v = Inl e" | v u where "?v = Some v" "vp_Uuid (co_parsers X) v = Inr u"
    by (cases ?v; cases "vp_Uuid (co_parsers X) (the ?v)") auto
  then show ?thesis
  proof cases
    case 3
    have p: "ParseRequest r (PathParameter (co_parsers X) TUuid ''userID'') None = Returns (Inr (VUuid u))"
      using 3 by (simp add: ParseRequest_def PathParameter_def requestDataProvider_def parse_uuid)
    have perm: "permission_Check (cx_auth (rq_ctx r)) (CanReadUser u) =
        (case tok of UserIDToken i \<Rightarrow> if i = u then None else Some (Sentinel ErrPermissionDenied) | _ \<Rightarrow> None)"
      using read_user.check_of_token [OF known, of u] known by (auto simp: auth split: token.splits)
    obtain g db1 where g: "user_GetByID (rq_ctx r) u db = (g, db1)" by force
    have status: "get_user_status X (t_user (db_tables db)) tok ?v =
        (if permission_Check (cx_auth (rq_ctx r)) (CanReadUser u) \<noteq> None then 403
         else if u \<in> ur_id ` set (t_user (db_tables db)) then 200 else 404)"
      using 3 perm by (auto simp: get_user_status_def split: token.splits)
    have out: "(res, calls) = (case g of
        Inl e \<Rightarrow> (Returns (Some e), if errors_is (Some e) (Some ServiceErrUserNotFound) then [SetStatusCode 404] else [])
      | Inr d \<Rightarrow> (Returns None, [SetJSONBody (bc_Marshal (co_json X) (UserOut X d))]))"
      using run p g by (auto simp: GetUserByIDHandler_Handle_def split: sum.splits)
    note eval = status_of_def set_body_def explicit_code_def error_status_def
    show ?thesis
    proof (cases "permission_Check (cx_auth (rq_ctx r)) (CanReadUser u)")
      case (Some e)
      then have "g = Inl (Sentinel ErrPermissionDenied)" using g perm by (auto simp: user_GetByID_def split: token.splits if_splits)
      then show ?thesis using out status Some by (simp add: eval)
    next
      case None
      have gc: "g = (case filter (\<lambda>r. ur_id r = u) (t_user (db_tables db)) of
          [] \<Rightarrow> Inl (Sentinel ServiceErrUserNotFound) | r # _ \<Rightarrow> Inr (ToDTOUserData (user_of_row r)))"
        using GetByID_calm [OF assms(1,2) None] g by simp
      have found: "u \<in> ur_id ` set (t_user (db_tables db)) \<longleftrightarrow> filter (\<lambda>r. ur_id r = u) (t_user (db_tables db)) \<noteq> []"
        by (auto simp: filter_empty_conv)
      show ?thesis
      proof (cases "filter (\<lambda>r. ur_id r = u) (t_user (db_tables db))")
        case Nil
        then show ?thesis using out status None gc found by (simp add: eval)
      next
        case (Cons row rows)
        then have "u \<in> ur_id ` set (t_user (db_tables db))" using found by simp
        moreover have "row \<in> set (t_user (db_tables db))" using Cons by (auto simp: filter_eq_Cons_iff)
        then obtain b where "bc_Marshal (co_json X) (UserOut X (ToDTOUserData (user_of_row row))) = Inr b" using marshal by blast
        ultimately show ?thesis using out status None gc Cons by (simp add: eval)
      qed
    qed
  qed (use run in \<open>auto simp: GetUserByIDHandler_Handle_def ParseRequest_def PathParameter_def requestDataProvider_def parse_uuid
        status_of_def set_body_def explicit_code_def error_status_def get_user_status_def\<close>)
qed

lemma known_token: "presented P h = Some tok \<Longrightarrow> provider_Authenticate tok = Inr (Some (principal_of tok))"
  using presented_known [of P h tok] by (auto simp: principal_of_def)

text \<open>
  C22. \<^verbatim>\<open>GET /users/{userID}\<close> through the whole server of the user service, against a database without faults: 401 without a
  token, 400 for an identifier that does not parse, 403 for a user who asks for another one, 404 for an unknown user, otherwise 200.  The users of the table are assumed to encode as JSON, as they do unless a
  deletion time is outside the years 0 to 9999.
\<close>

theorem get_user_endpoint:
  assumes "httpServerProvider H environ ob ms lg = Returns srv" and "cors_calls_next (hx_cors H)" and "hx_parsers H = co_parsers X"
    and "ro \<in> set (user_routes (hx_cors H) X as us)" and "ro_Method ro = ''GET''" and "ro_Path ro = user_path"
    and "cn_sent c = None" and "sv_app s = (db, x)" and "\<forall>n. db_fault db n = NoFault" and "cx_tx (rq_ctx r) = None"
    and "\<forall>row \<in> set (t_user (db_tables db)). \<exists>b. bc_Marshal (co_json X) (UserOut X (ToDTOUserData (user_of_row row))) = Inr b"
  shows "\<exists>c' s'. run_route (user_MustRegisterHTTPHandlers (hx_cors H) X as us srv) ro (Conn c) r s = (Returns (), Conn c', s')
    \<and> client_status c' = (case presented (co_parsers X) (rq_Header r) of None \<Rightarrow> 401
        | Some tok \<Rightarrow> get_user_status X (t_user (db_tables db)) tok (rq_Vars r ''userID''))"
proof -
  have route: "run_route (user_MustRegisterHTTPHandlers (hx_cors H) X as us srv) ro = run_route srv ro"
    using user_routes_registered run_route_mws by blast
  from get_user_route [OF assms(4-6)]
  have ro: "ro_mws ro = [WithAuthenticationRequirement]" "ro_handler ro = httpHandlerWrapper (GetUserByIDHandler_Handle X)" by auto
  note run = protected_run [OF assms(1,2) ro assms(7), of r s]
  show ?thesis
  proof (cases "presented (co_parsers X) (rq_Header r)")
    case None
    then show ?thesis using run assms(3) route by auto
  next
    case (Some tok)
    from run [unfolded assms(3,8) Some option.case] obtain r' res calls x' where r': "reaches r (Some (principal_of tok)) r'"
      and h: "GetUserByIDHandler_Handle X r' (db, x) = (res, calls, x')"
      and ok: "explicit_code calls 0 = 0 \<or> 200 \<le> explicit_code calls 0 \<and> explicit_code calls 0 \<le> 999 \<longrightarrow>
        (\<exists>c' s'. run_route srv ro (Conn c) r s = (Returns (), Conn c', s') \<and> client_status c' = status_of res calls \<and> sv_app s' = x'
          \<and> cn_body c' = cn_body c @ (if body_allowed (status_of res calls) \<and> cn_fault c = None then body_of res calls else []))"
      by blast
    have "cx_tx (rq_ctx r') = None" "cx_auth (rq_ctx r') = Some (Some (principal_of tok))" "rq_Vars r' = rq_Vars r"
      using r' assms(10) by (auto simp: reaches_def same_conn_def requestDataProvider_def)
    with GetUserByID_status [OF assms(9) _ _ known_token [OF Some] assms(11) h] have
      "status_of res calls = get_user_status X (t_user (db_tables db)) tok (rq_Vars r ''userID'')"
      "explicit_code calls 0 = 0 \<or> 200 \<le> explicit_code calls 0 \<and> explicit_code calls 0 \<le> 999"
      by auto
    with ok route Some show ?thesis by (metis option.simps(5))
  qed
qed

definition example_codecs :: codecs where
  "example_codecs = \<lparr>co_json = \<lparr>bc_Decode = (\<lambda>_. Inr (JObject [(''login'', JString ''BOB''), (''Password'', JString ''pw'')])),
       bc_Marshal = (\<lambda>_. Inr ''[]'')\<rparr>,
     co_parsers = no_parsers\<lparr>vp_Uuid := (\<lambda>v. if v = ''7'' then Inr 7 else Inl strconv_error)\<rparr>,
     co_uuid_String = (\<lambda>u. if u = 7 then ''7'' else ''-'')\<rparr>"

definition handler_deps :: "user_world http_deps" where
  "handler_deps = example_deps\<lparr>hx_parsers := co_parsers example_codecs\<rparr>"

theorem get_user_endpoint_witness:
  "\<exists>srv ro c' s'. run_route (user_MustRegisterHTTPHandlers (hx_cors handler_deps) example_codecs (NewAuthentication example_token_codec) example_registry srv)
      ro (Conn new_conn) ((get_request ''/users/7'')\<lparr>rq_Vars := [''userID'' \<mapsto> ''7''], rq_Header := header_Set HeaderAuthUserID ''7'' header_empty\<rparr>)
      (new_srv (calm_db example_login_tables, example_env)) = (Returns (), Conn c', s')
    \<and> client_status c' = 200"
proof -
  let ?r = "(get_request ''/users/7'')\<lparr>rq_Vars := [''userID'' \<mapsto> ''7''], rq_Header := header_Set HeaderAuthUserID ''7'' header_empty\<rparr>"
  obtain srv where srv: "httpServerProvider handler_deps [''SERVICE_ADDRESS'' \<mapsto> '':80''] no_observer [] LoggerStub = Returns srv"
    by (simp add: httpServerProvider_def env_Must_def env_Parse_def ParseTypedValue_def)
  have cors: "cors_calls_next (hx_cors handler_deps)" by (auto simp: cors_calls_next_def handler_deps_def example_deps_def)
  let ?routes = "user_routes (hx_cors handler_deps) example_codecs (NewAuthentication example_token_codec) example_registry"
  have "length ?routes = 6" "ro_Method (?routes ! 4) = ''GET''" "ro_Path (?routes ! 4) = user_path"
    by (simp_all add: user_routes_def user_MustRegisterHTTPHandlers_def server_Register_def Let_def option_routes_def GetUserByIDHandler_def)
  then have ro: "?routes ! 4 \<in> set ?routes" "ro_Method (?routes ! 4) = ''GET''" "ro_Path (?routes ! 4) = user_path" by simp_all
  have "presented (co_parsers example_codecs) (rq_Header ?r) = Some (UserIDToken 7)"
    by (simp add: presented_def header_Get_Set example_codecs_def uuid_nil_def)
  moreover have "get_user_status example_codecs (t_user (db_tables (calm_db example_login_tables))) (UserIDToken 7) (rq_Vars ?r ''userID'') = 200"
    by (simp add: get_user_status_def example_codecs_def calm_db_def example_login_tables_def registered_def)
  moreover have "hx_parsers handler_deps = co_parsers example_codecs" by (simp add: handler_deps_def)
  moreover have "cn_sent new_conn = None" "sv_app (new_srv (calm_db example_login_tables, example_env)) = (calm_db example_login_tables, example_env)"
    "\<forall>n. db_fault (calm_db example_login_tables) n = NoFault" "cx_tx (rq_ctx ?r) = None"
    "\<forall>row \<in> set (t_user (db_tables (calm_db example_login_tables))).
       \<exists>b. bc_Marshal (co_json example_codecs) (UserOut example_codecs (ToDTOUserData (user_of_row row))) = Inr b"
    by (simp_all add: new_conn_def new_srv_def calm_db_def get_request_def background_def example_codecs_def)
  ultimately show ?thesis
    using get_user_endpoint [OF srv cors _ ro, of new_conn "new_srv (calm_db example_login_tables, example_env)" "calm_db example_login_tables" example_env ?r]
    by (metis option.simps(5))
qed

section \<open>Logging in\<close>

text \<open>The library of the identifiers reads back what it prints.\<close>

definition uuid_reads_back :: "codecs \<Rightarrow> bool" where
  "uuid_reads_back X \<longleftrightarrow> (\<forall>u. co_uuid_String X u \<noteq> [] \<and> vp_Uuid (co_parsers X) (co_uuid_String X u) = Inr u)"

lemma authenticate_handler_ok:
  assumes "AuthenticateHandler_Handle X s r w = (res, calls, w')" and "status_of res calls = 200"
  shows "\<exists>body login password tok. bc_Decode (co_json X) (rq_Body r) = Inr body \<and> credentials_In body = Inr (login, password)
    \<and> auth_Authenticate s (rq_ctx r) (trim_space login) (trim_space password) w = (Inr tok, w')
    \<and> res = Returns None \<and> calls = [SetCookie (NewUserSessionCookie tok)]"
  using assms
  by (auto simp: AuthenticateHandler_Handle_def ParseRequest_def requestDataProvider_def JSONBody_def Let_def status_of_def set_body_def
      explicit_code_def error_status_def split: sum.splits if_splits prod.splits)

lemma verify_young_session:
  assumes "reads_back c" and "generateSessionToken (NewAuthentication c) u x = (Inr tok, x1)"
    and "fst (time_Now x2) \<le> fst (time_Now x) + 7 * 24 * time_hour"
    and "fst (time_Now (snd (time_Now x2))) - 15 * time_minute < fst (time_Now x)"
  shows "auth_VerifyAuthentication (NewAuthentication c) ctx (st_Token tok) (db, x2) =
    (Inr \<lparr>ad_UserID = u, ad_RenewedToken = None\<rparr>, db, snd (time_Now (snd (time_Now x2))))"
proof -
  obtain td x' where g: "tokenGenerator_Generate c u userSessionTTL x = (Inr td, x')" and tok: "st_Token tok = td_EncodedToken td"
    using assms(2) by (auto simp: generateSessionToken_def NewAuthentication_def split: sum.splits prod.splits)
  note td = token_decodes [OF assms(1) g, of x2]
  then have "tokenGenerator_Decode c (st_Token tok) x2 = (Inr td, snd (time_Now x2))"
    using assms(3) tok by (simp add: userSessionTTL_def)
  with td assms(4) show ?thesis
    by (simp add: auth_VerifyAuthentication_def NewAuthentication_def userSessionRenewalInterval_def Let_def case_prod_beta)
qed

text \<open>
  C13. Logging in and then calling through the gateway: when \<^verbatim>\<open>POST /auth\<close> answers 200, the credentials of its body are those of a live
  user of the database and the response sets exactly the session cookie; a verification request whose last session cookie has that value is answered
  200, within fifteen minutes without asking the database, with the header \<^verbatim>\<open>X-Auth-User-ID\<close> of that user, and a request with
  these headers is authenticated as that user.
\<close>

theorem session_round_trip:
  assumes "reads_back c" and "uuid_reads_back X" and "users_ok (users_seen (rq_ctx r) db)"
    and login: "AuthenticateHandler_Handle X (NewAuthentication c) r (db, x) = (res, calls, w1)" and "status_of res calls = 200"
    and cookie: "last_cookie userSessionCookieName None (rq_Cookies r2) = Some ck"
      "ck_Value ck = ck_Value (hd (hd_cookies (header_of res calls header_empty)))"
    and "fst (time_Now x2) \<le> fst (time_Now x) + 7 * 24 * time_hour"
    and "fst (time_Now (snd (time_Now x2))) - 15 * time_minute < fst (time_Now x)"
  shows "\<exists>body login password row sent calls2 x3. bc_Decode (co_json X) (rq_Body r) = Inr body \<and> credentials_In body = Inr (login, password)
    \<and> row \<in> set (users_seen (rq_ctx r) db) \<and> ur_login row = to_lower (trim_space login) \<and> ur_deleted_at row = None
    \<and> HashPassword (trim_space password) = Inr (ur_password_hash row)
    \<and> hd_cookies (header_of res calls header_empty) = [sent] \<and> ck_Name sent = userSessionCookieName
    \<and> VerifyAuthenticationHandler_Handle X (NewAuthentication c) r2 (db2, x2) = (Returns None, calls2, db2, x3)
    \<and> status_of (Returns None) calls2 = 200
    \<and> (ur_id row \<noteq> uuid_nil \<longrightarrow> presented (co_parsers X) (header_of (Returns None) calls2 header_empty) = Some (UserIDToken (ur_id row)))"
proof -
  obtain body login password tok where auth: "bc_Decode (co_json X) (rq_Body r) = Inr body" "credentials_In body = Inr (login, password)"
    "auth_Authenticate (NewAuthentication c) (rq_ctx r) (trim_space login) (trim_space password) (db, x) = (Inr tok, w1)"
    and out: "res = Returns None" "calls = [SetCookie (NewUserSessionCookie tok)]"
    using authenticate_handler_ok [OF login assms(5)] by blast
  obtain row where row: "row \<in> set (users_seen (rq_ctx r) db)" "ur_login row = to_lower (trim_space login)" "ur_deleted_at row = None"
    "HashPassword (trim_space password) = Inr (ur_password_hash row)"
    and tok: "generateSessionToken (NewAuthentication c) (ur_id row) x = (Inr tok, snd w1)"
    using authenticate_outcome [OF assms(3), of c _ _ x "Inr tok" "fst w1" "snd w1"] auth(3) by (metis prod.collapse trim_space_idem)
  have name: "list_all is_token_char userSessionCookieName" "userSessionCookieName \<noteq> []" by code_simp+
  then have hd: "hd_cookies (header_of res calls header_empty) = [NewUserSessionCookie tok]"
    by (simp add: out header_of_def set_body_def set_headers_def http_SetCookie_def NewUserSessionCookie_def header_empty_def)
  have ck: "ck_Value ck = st_Token tok" using cookie(2) hd by (simp add: NewUserSessionCookie_def)
  let ?calls = "[SetHeader HeaderAuthUserID (co_uuid_String X (ur_id row))]"
  have "VerifyAuthenticationHandler_Handle X (NewAuthentication c) r2 (db2, x2)
      = (Returns None, ?calls, db2, snd (time_Now (snd (time_Now x2))))"
    using verify_young_session [OF assms(1) tok assms(8,9)] cookie(1) ck
    by (simp add: VerifyAuthenticationHandler_Handle_def ParseRequest_def requestDataProvider_def CookieValue_def parse_string)
  moreover have "status_of (Returns None) ?calls = 200"
    by (simp add: status_of_def set_body_def explicit_code_def error_status_def)
  moreover have "presented (co_parsers X) (header_of (Returns None) ?calls header_empty) = Some (UserIDToken (ur_id row))"
    if "ur_id row \<noteq> uuid_nil"
    using that assms(2) by (simp add: presented_def header_of_def set_body_def set_headers_def header_Get_Set uuid_reads_back_def)
  ultimately show ?thesis using auth(1,2) row hd by (intro exI conjI) (auto simp: NewUserSessionCookie_def)
qed

definition decimal_codecs :: codecs where
  "decimal_codecs = example_codecs\<lparr>co_parsers := no_parsers\<lparr>vp_Uuid := (\<lambda>v. map_right of_int (ParseUint 128 v))\<rparr>,
     co_uuid_String := (\<lambda>u. utoa (unat u))\<rparr>"

lemma decimal_reads_back: "uuid_reads_back decimal_codecs"
proof -
  have "ParseUint 128 (utoa (unat u)) = Inr (int (unat u))" for u :: uuid
  proof -
    have "int (unat u) < 2 ^ 128" using unsigned_less [of u, where ?'a = int] by simp
    then show ?thesis by (simp add: ParseUint_def digits_value_utoa)
  qed
  then show ?thesis by (simp add: uuid_reads_back_def decimal_codecs_def map_right_def)
qed

lemma example_login:
  "\<exists>tok w'. auth_Authenticate (NewAuthentication example_token_codec) background ''BOB'' ''pw'' (calm_db example_login_tables, example_env) = (Inr tok, w')"
proof -
  obtain res db' x' where run: "auth_Authenticate (NewAuthentication example_token_codec) background ''BOB'' ''pw''
      (calm_db example_login_tables, example_env) = (res, db', x')" by (metis surj_pair)
  have str: "to_lower (trim_space ''BOB'') = ''bob''" "trim_space ''pw'' = ''pw''" "trim_space ''BOB'' \<noteq> []" by code_simp+
  let ?r = "registered 7 ''bob'' (projr (HashPassword ''pw''))"
  have "?r \<in> set (users_seen background (calm_db example_login_tables))" "HashPassword ''pw'' = Inr (projr (HashPassword ''pw''))"
    "\<forall>n. db_fault (calm_db example_login_tables) n = NoFault" "cx_tx background = None"
    by (simp_all add: background_def route_of_def db_view_def calm_db_def example_login_tables_def HashPassword_def)
  moreover have "ur_login ?r = ''bob''" "ur_deleted_at ?r = None" "ur_password_hash ?r = projr (HashPassword ''pw'')" "ur_id ?r = 7"
    by (simp_all add: registered_def)
  ultimately have "res = fst (generateSessionToken (NewAuthentication example_token_codec) 7 example_env)"
    using authenticate_outcome [OF example_login_ok run] str by (metis list.distinct(1))
  with run show ?thesis using example_generates by (auto simp: generateSessionToken_def NewAuthentication_def)
qed

theorem session_round_trip_witness:
  "\<exists>res calls w1 ck calls2 x3. AuthenticateHandler_Handle decimal_codecs (NewAuthentication example_token_codec) (get_request ''/auth'')
      (calm_db example_login_tables, example_env) = (res, calls, w1)
    \<and> VerifyAuthenticationHandler_Handle decimal_codecs (NewAuthentication example_token_codec) ((get_request ''/auth/verification'')\<lparr>rq_Cookies := [ck]\<rparr>)
      (calm_db example_login_tables, example_env) = (Returns None, calls2, calm_db example_login_tables, x3)
    \<and> presented (co_parsers decimal_codecs) (header_of (Returns None) calls2 header_empty) = Some (UserIDToken 7)"
proof -
  let ?r = "get_request ''/auth''" and ?w = "(calm_db example_login_tables, example_env)"
  let ?body = "JObject [(''login'', JString ''BOB''), (''Password'', JString ''pw'')]"
  obtain tok w' where t: "auth_Authenticate (NewAuthentication example_token_codec) background ''BOB'' ''pw'' ?w = (Inr tok, w')"
    using example_login by blast
  have cred: "credentials_In ?body = Inr (''BOB'', ''pw'')" and trim: "trim_space ''BOB'' = ''BOB''" "trim_space ''pw'' = ''pw''" by code_simp+
  have run: "AuthenticateHandler_Handle decimal_codecs (NewAuthentication example_token_codec) ?r ?w
      = (Returns None, [SetCookie (NewUserSessionCookie tok)], w')"
    using t cred trim by (simp add: AuthenticateHandler_Handle_def ParseRequest_def requestDataProvider_def JSONBody_def decimal_codecs_def
        example_codecs_def get_request_def)
  let ?calls = "[SetCookie (NewUserSessionCookie tok)]"
  let ?ck = "NewUserSessionCookie tok"
  let ?r2 = "(get_request ''/auth/verification'')\<lparr>rq_Cookies := [?ck]\<rparr>"
  have "users_ok (users_seen (rq_ctx ?r) (calm_db example_login_tables))" using example_login_ok by (simp add: get_request_def)
  moreover have "status_of (Returns None) ?calls = 200" by (simp add: status_of_def set_body_def explicit_code_def error_status_def)
  moreover have "last_cookie userSessionCookieName None (rq_Cookies ?r2) = Some ?ck" by (simp add: NewUserSessionCookie_def)
  moreover have "list_all is_token_char userSessionCookieName" "userSessionCookieName \<noteq> []" by code_simp+
  then have "ck_Value ?ck = ck_Value (hd (hd_cookies (header_of (Returns None) ?calls header_empty)))"
    by (simp add: header_of_def set_body_def set_headers_def http_SetCookie_def NewUserSessionCookie_def header_empty_def)
  moreover have "fst (time_Now example_env) \<le> fst (time_Now example_env) + 7 * 24 * time_hour"
    "fst (time_Now (snd (time_Now example_env))) - 15 * time_minute < fst (time_Now example_env)"
    by (simp_all add: example_env_def time_Now_def time_hour_def time_minute_def)
  ultimately obtain row calls2 x3 where
    row: "row \<in> set (users_seen (rq_ctx ?r) (calm_db example_login_tables))"
    and v: "VerifyAuthenticationHandler_Handle decimal_codecs (NewAuthentication example_token_codec) ?r2 ?w = (Returns None, calls2, calm_db example_login_tables, x3)"
    and pr: "ur_id row \<noteq> uuid_nil \<longrightarrow> presented (co_parsers decimal_codecs) (header_of (Returns None) calls2 header_empty) = Some (UserIDToken (ur_id row))"
    using session_round_trip [OF example_reads_back decimal_reads_back _ run, of ?r2 ?ck example_env "calm_db example_login_tables"] by blast
  have "ur_id row = 7"
    using row by (simp add: get_request_def background_def route_of_def db_view_def calm_db_def example_login_tables_def registered_def)
  with pr run v show ?thesis by (auto simp: uuid_nil_def)
qed

section \<open>Registering over HTTP\<close>

lemma register_handler_ok:
  assumes "RegisterUserHandler_Handle X s r w = (res, calls, w')" and "status_of res calls = 201"
  shows "\<exists>body login password i. bc_Decode (co_json X) (rq_Body r) = Inr body \<and> credentials_In body = Inr (login, password)
    \<and> user_Register s (rq_ctx r) (trim_space login) (trim_space password) w = (Returns (i, None), w')
    \<and> Inr (body_of res calls) = bc_Marshal (co_json X) (JObject [(''id'', JString (co_uuid_String X i))])"
proof -
  have no: "status_of (Returns e) [] \<noteq> 201" "status_of Panics cs \<noteq> 201" "n \<noteq> 201 \<Longrightarrow> n \<noteq> 0 \<Longrightarrow> status_of (Returns e) [SetStatusCode n] \<noteq> 201"
    for e cs n by (simp_all add: status_of_def set_body_def explicit_code_def error_status_def)
  obtain body where body: "bc_Decode (co_json X) (rq_Body r) = Inr body"
    using assms no by (auto simp: RegisterUserHandler_Handle_def ParseRequest_def requestDataProvider_def JSONBody_def split: sum.splits)
  obtain login password where cred: "credentials_In body = Inr (login, password)"
    using assms no body by (auto simp: RegisterUserHandler_Handle_def ParseRequest_def requestDataProvider_def JSONBody_def split: sum.splits)
  have parse: "ParseRequest r (JSONBody (co_json X) credentials_In) None = Returns (Inr (login, password))"
    by (simp add: ParseRequest_def requestDataProvider_def JSONBody_def body cred)
  obtain o1 w1 where reg: "user_Register s (rq_ctx r) (trim_space login) (trim_space password) w = (o1, w1)" by (metis surj_pair)
  have nonempty: "trim_space login \<noteq> []" "trim_space password \<noteq> []"
    using assms no(3) [of 400] by (auto simp: RegisterUserHandler_Handle_def parse Let_def split: if_splits)
  then obtain i where i: "o1 = Returns (i, None)"
    using assms no reg by (auto simp: RegisterUserHandler_Handle_def parse Let_def split: outcome.splits prod.splits if_splits)
  define m where "m = bc_Marshal (co_json X) (JObject [(''id'', JString (co_uuid_String X i))])"
  have out: "res = Returns None" "calls = [SetJSONBody m, SetStatusCode 201]" "w' = w1"
    using assms(1) nonempty reg i by (simp_all add: RegisterUserHandler_Handle_def parse Let_def m_def)
  have "Inr (body_of res calls) = m"
    using assms(2) by (cases m) (auto simp: out status_of_def set_body_def body_of_def)
  with body cred reg i out(3) m_def show ?thesis by auto
qed

text \<open>
  C23. \<^verbatim>\<open>POST /users\<close> answers 201 only when the committed users are the former ones and at most one more, and they contain the live user with the
  trimmed, lower-case login of the body, the hash of its trimmed password, and the identifier that the response body carries.
\<close>

theorem registration_endpoint:
  assumes "\<not> has_parent_tx (us_transaction s) (rq_ctx r)" and "users_ok (t_user (db_tables db))"
    and "fst (uuid_New x) \<notin> ur_id ` set (t_user (db_tables db))"
    and run: "RegisterUserHandler_Handle X s r (db, x) = (res, calls, db', x')" and "status_of res calls = 201"
  shows "\<exists>body login password i h new. bc_Decode (co_json X) (rq_Body r) = Inr body \<and> credentials_In body = Inr (login, password)
    \<and> us_HashPassword s (trim_space password) = Inr h
    \<and> t_user (db_tables db') = t_user (db_tables db) @ new \<and> length new \<le> 1 \<and> users_ok (t_user (db_tables db'))
    \<and> registered i (to_lower (trim_space login)) h \<in> set (t_user (db_tables db'))
    \<and> bc_Marshal (co_json X) (JObject [(''id'', JString (co_uuid_String X i))]) = Inr (body_of res calls)"
proof -
  obtain body login password i where b: "bc_Decode (co_json X) (rq_Body r) = Inr body" "credentials_In body = Inr (login, password)"
    and reg: "user_Register s (rq_ctx r) (trim_space login) (trim_space password) (db, x) = (Returns (i, None), db', x')"
    and m: "Inr (body_of res calls) = bc_Marshal (co_json X) (JObject [(''id'', JString (co_uuid_String X i))])"
    using register_handler_ok [OF run assms(5)] by blast
  obtain new h where "db_tables db' = (db_tables db)\<lparr>t_user := t_user (db_tables db) @ new\<rparr>" "users_ok (t_user (db_tables db) @ new)"
    and new: "new = [] \<or> (\<exists>j h. new = [registered j (to_lower (trim_space login)) h])" and "us_HashPassword s (trim_space password) = Inr h"
    "registered i (to_lower (trim_space login)) h \<in> set (t_user (db_tables db) @ new)"
    using registration_outcome [OF assms(1-3) reg] unfolding trim_space_idem by blast
  moreover have "length new \<le> 1" using new by auto
  ultimately show ?thesis using b m by (intro exI [of _ body] exI [of _ login] exI [of _ password] exI [of _ i] exI [of _ h] exI [of _ new]) simp
qed

theorem registration_endpoint_witness:
  "\<exists>res calls db' x'. RegisterUserHandler_Handle example_codecs example_registry (get_request ''/users'') (calm_db empty_tables, example_env) = (res, calls, db', x')
    \<and> registered 2 ''bob'' ''pw'' \<in> set (t_user (db_tables db'))"
proof -
  let ?w = "(calm_db empty_tables, example_env)" and ?r = "get_request ''/users''"
  obtain res calls db' x' where run: "RegisterUserHandler_Handle example_codecs example_registry ?r ?w = (res, calls, db', x')" by (metis surj_pair)
  have ctx: "rq_ctx ?r = background" by (simp add: get_request_def)
  have out: "let (res, calls, w) = RegisterUserHandler_Handle example_codecs example_registry ?r ?w in
      (res, calls) = (Returns None, [SetJSONBody (Inr ''[]''), SetStatusCode 201]) \<and> map ur_id (t_user (db_tables (fst w))) = [2]"
    unfolding get_request_def by code_simp
  then have st: "status_of res calls = 201" and ids: "map ur_id (t_user (db_tables db')) = [2]"
    using run by (auto simp: status_of_def set_body_def explicit_code_def)
  have "\<not> has_parent_tx (us_transaction example_registry) (rq_ctx ?r)" by (simp add: has_parent_tx_def ctx background_def)
  moreover have "users_ok (t_user (db_tables (calm_db empty_tables)))" "fst (uuid_New example_env) \<notin> ur_id ` set (t_user (db_tables (calm_db empty_tables)))"
    by (simp_all add: calm_db_def empty_tables_def users_ok_def)
  ultimately obtain body login password i h where b: "bc_Decode (co_json example_codecs) (rq_Body ?r) = Inr body"
    "credentials_In body = Inr (login, password)" and h: "us_HashPassword example_registry (trim_space password) = Inr h"
    and reg: "registered i (to_lower (trim_space login)) h \<in> set (t_user (db_tables db'))"
    using registration_endpoint [OF _ _ _ run st] by blast
  have "credentials_In (JObject [(''login'', JString ''BOB''), (''Password'', JString ''pw'')]) = Inr (''BOB'', ''pw'')"
    and str: "to_lower (trim_space ''BOB'') = ''bob''" "trim_space ''pw'' = ''pw''" by code_simp+
  with b have lp: "login = ''BOB''" "password = ''pw''" by (simp_all add: example_codecs_def)
  have "i \<in> set (map ur_id (t_user (db_tables db')))" using reg by (force simp: registered_def)
  with ids have "i = 2" by simp
  with reg h lp str run show ?thesis by (auto simp: example_registry_def)
qed

end
