(* ===== verification/Http_Client.thy ===== *)
theory Http_Client
  imports Http_Handlers
begin

text \<open>
  \<^verbatim>\<open>pkg/http/client.go\<close>, \<^verbatim>\<open>internal/pkg/cmd/httpclient.go\<close> and the client of the user service in the user profile domain
  (\<^verbatim>\<open>internal/userprofile/infra/user/http\<close>).

  The REST library is outside the repository: a REST client is what the options have registered with it, a request what the setters have
  put into it, and sending one is an argument.  Options are data, since a client keeps its options to build clients from
  them; callbacks that capture a pointer to the client read its destination name when they run.
\<close>

section \<open>Clients and options\<close>

record rest_request =
  rr_Method :: string
  rr_URL :: string
  rr_PathParams :: "string \<rightharpoonup> string"
  rr_QueryParams :: "string \<rightharpoonup> string list"
  rr_Header :: header
  rr_Cookies :: "cookie list"
  rr_FormData :: "string \<rightharpoonup> string"
  rr_Body :: "json option"
  rr_ctx :: sql_ctx
  rr_routeName :: string

record rest_client =
  rc_BaseURL :: string
  rc_Header :: header
  rc_OnBeforeRequest :: "(rest_request \<Rightarrow> rest_request) list"
  rc_loggers :: "(logger \<times> level \<times> level) list"
  rc_metrics :: "metrics list"

type_synonym response_mw = "raw_response \<Rightarrow> err \<Rightarrow> err"

datatype client_option =
    WithClientDestination string string
  | WithRequestObservability observer "(string \<times> string) list"
  | WithRequestLogging logger level level
  | WithRequestMetrics metrics
  | WithRequestDataFromAuth "principal \<Rightarrow> rest_request \<Rightarrow> rest_request"
  | WithRequestHeader string string
  | WithResponseCodeMapping "(int \<times> go_error) list"

record client =
  cl_DestinationName :: string
  cl_ResponseMWs :: "response_mw list"
  cl_RESTClient :: rest_client
  cl_opts :: "client_option list"

definition resty_New :: rest_client where
  "resty_New = \<lparr>rc_BaseURL = [], rc_Header = header_empty, rc_OnBeforeRequest = [], rc_loggers = [], rc_metrics = []\<rparr>"

definition observability_headers :: "observer \<Rightarrow> (string \<times> string) list \<Rightarrow> rest_request \<Rightarrow> rest_request" where
  "observability_headers ob headers req =
     fold (\<lambda>(field, h) rq. let v = observer_Field ob (rr_ctx rq) field in
             if v \<noteq> [] then rq\<lparr>rr_Header := header_Set h v (rr_Header rq)\<rparr> else rq) headers req"

definition data_from_auth :: "(principal \<Rightarrow> rest_request \<Rightarrow> rest_request) \<Rightarrow> rest_request \<Rightarrow> rest_request" where
  "data_from_auth fn req =
     (case GetAuthentication (cx_auth (rr_ctx req)) of Some (Some p) \<Rightarrow> fn p req | _ \<Rightarrow> req)"

text \<open>The middleware of \<^verbatim>\<open>WithResponseCodeMapping\<close>: a response that already has an error is given none.\<close>

definition code_mapping_mw :: "(int \<times> go_error) list \<Rightarrow> response_mw" where
  "code_mapping_mw statusCodes resp e =
     (if e \<noteq> None then None
      else map_option (errorf ''response status code'') (map_of statusCodes (rp_StatusCode resp)))"

definition WithAuthResponseCodeMapping :: client_option where
  "WithAuthResponseCodeMapping =
     WithResponseCodeMapping [(401, Sentinel ErrUnauthenticated), (403, Sentinel ErrPermissionDenied)]"

fun apply_option :: "client_option \<Rightarrow> client \<Rightarrow> client" where
  "apply_option (WithClientDestination name url) c =
     c\<lparr>cl_DestinationName := name, cl_RESTClient := (cl_RESTClient c)\<lparr>rc_BaseURL := url\<rparr>\<rparr>"
| "apply_option (WithRequestObservability ob headers) c =
     c\<lparr>cl_RESTClient := (cl_RESTClient c)\<lparr>rc_OnBeforeRequest := rc_OnBeforeRequest (cl_RESTClient c) @ [observability_headers ob headers]\<rparr>\<rparr>"
| "apply_option (WithRequestLogging lg infoLevel errorLevel) c =
     c\<lparr>cl_RESTClient := (cl_RESTClient c)\<lparr>rc_loggers := rc_loggers (cl_RESTClient c) @ [(lg, infoLevel, errorLevel)]\<rparr>\<rparr>"
| "apply_option (WithRequestMetrics ms) c =
     c\<lparr>cl_RESTClient := (cl_RESTClient c)\<lparr>rc_metrics := rc_metrics (cl_RESTClient c) @ [ms]\<rparr>\<rparr>"
| "apply_option (WithRequestDataFromAuth fn) c =
     c\<lparr>cl_RESTClient := (cl_RESTClient c)\<lparr>rc_OnBeforeRequest := rc_OnBeforeRequest (cl_RESTClient c) @ [data_from_auth fn]\<rparr>\<rparr>"
| "apply_option (WithRequestHeader h v) c =
     c\<lparr>cl_RESTClient := (cl_RESTClient c)\<lparr>rc_Header := header_Set h v (rc_Header (cl_RESTClient c))\<rparr>\<rparr>"
| "apply_option (WithResponseCodeMapping statusCodes) c =
     (if statusCodes = [] then c else c\<lparr>cl_ResponseMWs := cl_ResponseMWs c @ [code_mapping_mw statusCodes]\<rparr>)"

definition NewClient :: "client_option list \<Rightarrow> client" where
  "NewClient opts =
     fold apply_option opts \<lparr>cl_DestinationName = [], cl_ResponseMWs = [], cl_RESTClient = resty_New, cl_opts = opts\<rparr>"

definition client_With :: "client \<Rightarrow> client_option list \<Rightarrow> client" where
  "client_With c opts = (if opts = [] then c else NewClient (cl_opts c @ opts))"

record http_call_route =
  rt_Method :: string
  rt_URL :: string

definition client_NewRequest :: "client \<Rightarrow> sql_ctx \<Rightarrow> http_call_route \<Rightarrow> rest_request" where
  "client_NewRequest c ctx route =
     \<lparr>rr_Method = rt_Method route, rr_URL = rt_URL route, rr_PathParams = (\<lambda>_. None), rr_QueryParams = (\<lambda>_. None), rr_Header = header_empty,
      rr_Cookies = [], rr_FormData = (\<lambda>_. None), rr_Body = None, rr_ctx = ctx, rr_routeName = getRouteName (rt_Method route) (rt_URL route)\<rparr>"

section \<open>Factories\<close>

record client_factory =
  cf_baseOpts :: "client_option list"

definition factory_httpClient :: "client_factory \<Rightarrow> client_option list \<Rightarrow> client" where
  "factory_httpClient f extraOpts = NewClient (cf_baseOpts f @ extraOpts)"

definition InitRawClient :: "client_factory \<Rightarrow> client_option list \<Rightarrow> client" where
  "InitRawClient f extraOpts = factory_httpClient f extraOpts"

definition InitClient :: "client_factory \<Rightarrow> string \<Rightarrow> string \<Rightarrow> client_option list \<Rightarrow> client" where
  "InitClient f dest baseURL extraOpts = factory_httpClient f (WithClientDestination dest baseURL # extraOpts)"

text \<open>\<^verbatim>\<open>MustInitClient\<close>: the case converter is an argument.\<close>

definition MustInitClient ::
    "value_parsers \<Rightarrow> (string \<Rightarrow> string) \<Rightarrow> (string \<rightharpoonup> string) \<Rightarrow> client_factory \<Rightarrow> string \<Rightarrow> client_option list \<Rightarrow> client outcome" where
  "MustInitClient P toScreamingSnakeCase environ f dest extraOpts =
     (case env_Must (env_Parse P environ TString (toScreamingSnakeCase dest @ ''_SERVICE_URL'')) of
        Returns (VString host) \<Rightarrow> Returns (InitClient f dest host extraOpts)
      | _ \<Rightarrow> Panics)"

definition httpClientFactoryProvider :: "observer \<Rightarrow> metrics \<Rightarrow> logger \<Rightarrow> client_factory" where
  "httpClientFactoryProvider ob ms lg =
     \<lparr>cf_baseOpts = [WithRequestObservability ob [(''requestID'', HeaderRequestID)], WithRequestMetrics ms,
        WithRequestLogging lg LevelInfo LevelWarn]\<rparr>"

definition WithServiceNameAuth :: "string \<Rightarrow> client_option" where
  "WithServiceNameAuth serviceName = WithRequestHeader HeaderAuthServiceName serviceName"

section \<open>Callbacks\<close>

definition getDestinationNameForLogging :: "client \<Rightarrow> string" where
  "getDestinationNameForLogging c = (if cl_DestinationName c \<noteq> [] then cl_DestinationName c else ''-'')"

definition call_logger :: "(uuid \<Rightarrow> string) \<Rightarrow> client \<Rightarrow> logger \<Rightarrow> rest_request \<Rightarrow> request option \<Rightarrow> int \<Rightarrow> logger" where
  "call_logger uuid_string c lg req raw code =
     (let l = getAuthFieldsLogger uuid_string (GetAuthentication (cx_auth (rr_ctx req))) lg
      in case raw of
           Some r \<Rightarrow> getResponseFieldsLogger (getDestinationNameForLogging c) (rr_routeName req) r code l
         | None \<Rightarrow> getRouteNameFieldsLogger (rr_routeName req) l)"

definition log_OnInvalid ::
    "(uuid \<Rightarrow> string) \<Rightarrow> client \<Rightarrow> logger \<times> level \<times> level \<Rightarrow> rest_request \<Rightarrow> request option \<Rightarrow> go_error \<Rightarrow> obs list outcome" where
  "log_OnInvalid uuid_string c cfg req raw e =
     (case cfg of (lg, infoLevel, errorLevel) \<Rightarrow>
      log_Log (log_WithError (call_logger uuid_string c lg req raw 0) (Some e)) (Some (cx_log (rr_ctx req))) errorLevel ''invalid request'')"

definition log_OnSuccess ::
    "(uuid \<Rightarrow> string) \<Rightarrow> client \<Rightarrow> logger \<times> level \<times> level \<Rightarrow> rest_request \<Rightarrow> request \<Rightarrow> int \<Rightarrow> obs list outcome" where
  "log_OnSuccess uuid_string c cfg req raw code =
     (case cfg of (lg, infoLevel, errorLevel) \<Rightarrow>
      log_Log (call_logger uuid_string c lg req (Some raw) code) (Some (cx_log (rr_ctx req)))
        (if 500 \<le> code then errorLevel else infoLevel) ''http call'')"

text \<open>\<^verbatim>\<open>OnError\<close>: a response error carries the response, whose code is logged.\<close>

definition log_OnError ::
    "(uuid \<Rightarrow> string) \<Rightarrow> client \<Rightarrow> logger \<times> level \<times> level \<Rightarrow> rest_request \<Rightarrow> request option \<Rightarrow> (request \<times> int) option \<Rightarrow> go_error \<Rightarrow> obs list outcome" where
  "log_OnError uuid_string c cfg req raw respError e =
     (case cfg of (lg, infoLevel, errorLevel) \<Rightarrow>
      log_Log (log_WithError (case respError of Some (r, code) \<Rightarrow> call_logger uuid_string c lg req (Some r) code
                                | None \<Rightarrow> call_logger uuid_string c lg req raw 0) (Some e))
        (Some (cx_log (rr_ctx req))) errorLevel ''http call'')"

definition metrics_OnAfterResponse :: "(int \<Rightarrow> string) \<Rightarrow> client \<Rightarrow> metrics \<Rightarrow> rest_request \<Rightarrow> request \<Rightarrow> int \<Rightarrow> obs list" where
  "metrics_OnAfterResponse code_text c ms req raw code =
     (let authType = (case GetAuthentication (cx_auth (rr_ctx req)) of Some (Some p) \<Rightarrow> Some (principal_Type p) | _ \<Rightarrow> None)
      in met_Duration (met_With ms
           [(''destination'', FStr (if cl_DestinationName c = [] then ''none'' else cl_DestinationName c)),
            (''route'', FStr (if rr_routeName req = [] then ''none'' else rr_routeName req)), (''auth'', FOptStr authType),
            (''method'', FStr (rr_Method req)), (''path'', FStr (rq_Path raw)), (''code'', FStr (code_text code))])
         ''http_client_request_duration_seconds'')"

section \<open>Requests\<close>

definition rr_SetPathParam :: "string \<Rightarrow> string \<Rightarrow> rest_request \<Rightarrow> rest_request" where
  "rr_SetPathParam param v req = req\<lparr>rr_PathParams := (rr_PathParams req)(param \<mapsto> v)\<rparr>"

definition rr_SetPathParams :: "(string \<times> string) list \<Rightarrow> rest_request \<Rightarrow> rest_request" where
  "rr_SetPathParams params req = fold (\<lambda>(p, v). rr_SetPathParam p v) params req"

definition rr_SetQueryParam :: "string \<Rightarrow> string \<Rightarrow> rest_request \<Rightarrow> rest_request" where
  "rr_SetQueryParam param v req = req\<lparr>rr_QueryParams := (rr_QueryParams req)(param \<mapsto> [v])\<rparr>"

definition rr_SetQueryParams :: "(string \<times> string) list \<Rightarrow> rest_request \<Rightarrow> rest_request" where
  "rr_SetQueryParams params req = fold (\<lambda>(p, v). rr_SetQueryParam p v) params req"

definition rr_SetHeader :: "string \<Rightarrow> string \<Rightarrow> rest_request \<Rightarrow> rest_request" where
  "rr_SetHeader h v req = req\<lparr>rr_Header := header_Set h v (rr_Header req)\<rparr>"

definition rr_SetHeaders :: "(string \<times> string) list \<Rightarrow> rest_request \<Rightarrow> rest_request" where
  "rr_SetHeaders hs req = fold (\<lambda>(h, v). rr_SetHeader h v) hs req"

definition rr_SetCookie :: "cookie \<Rightarrow> rest_request \<Rightarrow> rest_request" where
  "rr_SetCookie ck req = req\<lparr>rr_Cookies := rr_Cookies req @ [ck]\<rparr>"

definition rr_SetCookies :: "cookie list \<Rightarrow> rest_request \<Rightarrow> rest_request" where
  "rr_SetCookies cks req = fold rr_SetCookie cks req"

definition rr_SetJSONBody :: "json \<Rightarrow> rest_request \<Rightarrow> rest_request" where
  "rr_SetJSONBody body req = (rr_SetHeader ''Content-Type'' ''application/json'' req)\<lparr>rr_Body := Some body\<rparr>"

definition rr_SetFormData :: "(string \<times> string) list \<Rightarrow> rest_request \<Rightarrow> rest_request" where
  "rr_SetFormData data req = req\<lparr>rr_FormData := rr_FormData req ++ map_of (rev data)\<rparr>"

type_synonym 'x transport = "rest_client \<Rightarrow> rest_request \<Rightarrow> 'x \<Rightarrow> (go_error + raw_response) \<times> 'x"

definition client_Send :: "'x transport \<Rightarrow> client \<Rightarrow> rest_request \<Rightarrow> 'x \<Rightarrow> (raw_response option \<times> err) \<times> 'x" where
  "client_Send send c req x =
     (case send (cl_RESTClient c) req x of
        (Inl e, x') \<Rightarrow> ((None, Some e), x')
      | (Inr resp, x') \<Rightarrow> ((Some resp, fold (\<lambda>mw e. mw resp e) (cl_ResponseMWs c) None), x'))"

section \<open>Client of the user service\<close>

definition getUserByIDRoute :: http_call_route where
  "getUserByIDRoute = \<lparr>rt_Method = ''GET'', rt_URL = user_path\<rparr>"

definition profile_ServiceName :: string where
  "profile_ServiceName = ''userProfile''"

definition NewUserService :: "client \<Rightarrow> client" where
  "NewUserService c = client_With c [WithServiceNameAuth profile_ServiceName]"

text \<open>Filling \<^verbatim>\<open>UserOut\<close>: the identifier and the time are parsed by their packages.\<close>

fun fill_user :: "value_parsers \<Rightarrow> (string \<times> json) list \<Rightarrow> profile_user_data \<times> bool \<Rightarrow> profile_user_data \<times> bool" where
  "fill_user P [] st = st"
| "fill_user P ((key, v) # ms) (d, bad) =
     fill_user P ms
       (case field_for [''id'', ''deletedAt''] key of
          None \<Rightarrow> (d, bad)
        | Some n \<Rightarrow>
            if n = ''id''
            then (case v of JNull \<Rightarrow> (d, bad)
                  | JString s \<Rightarrow> (case vp_Uuid P s of Inr u \<Rightarrow> (d\<lparr>pu_ID := u\<rparr>, bad) | Inl _ \<Rightarrow> (d, True)) | _ \<Rightarrow> (d, True))
            else (case v of JNull \<Rightarrow> (d\<lparr>pu_DeletedAt := None\<rparr>, bad)
                  | JString s \<Rightarrow> (case vp_RFC3339 P s of Inr t \<Rightarrow> (d\<lparr>pu_DeletedAt := Some t\<rparr>, bad) | Inl _ \<Rightarrow> (d, True)) | _ \<Rightarrow> (d, True)))"

definition userOut_In :: "value_parsers \<Rightarrow> json \<Rightarrow> go_error + profile_user_data" where
  "userOut_In P j =
     (let zero_data = \<lparr>pu_ID = uuid_nil, pu_DeletedAt = None\<rparr> in
      case j of
        JNull \<Rightarrow> Inr zero_data
      | JObject ms \<Rightarrow> (case fill_user P ms (zero_data, False) of (d, bad) \<Rightarrow> if bad then Inl unmarshal_type_error else Inr d)
      | _ \<Rightarrow> Inl unmarshal_type_error)"

text \<open>\<^verbatim>\<open>userService.Get\<close>; parsing a JSON body does not panic, and a call without error has a response.\<close>

definition userService_Get ::
    "'x transport \<Rightarrow> codecs \<Rightarrow> client \<Rightarrow> sql_ctx \<Rightarrow> uuid \<Rightarrow> 'x \<Rightarrow> (go_error + profile_user_data) \<times> 'x" where
  "userService_Get send X c ctx userID x =
     (let req = rr_SetPathParam ''userID'' (co_uuid_String X userID) (client_NewRequest c ctx getUserByIDRoute)
      in case client_Send send c req x of
           ((_, Some e), x') \<Rightarrow> (Inl (errorf ''request user.getUserByID'' e), x')
         | ((resp, None), x') \<Rightarrow>
             (let code = (case resp of Some rp \<Rightarrow> rp_StatusCode rp | None \<Rightarrow> 0) in
              if code = 404 then (Inl (Sentinel AppErrUserNotFound), x')
              else if code \<noteq> 200 then (Inl (errors_new ''request user.getUserByID: invalid status code''), x')
              else case ParseResponse resp (JSONBody (co_json X) (userOut_In (co_parsers X))) None of
                     Returns (Inr d) \<Rightarrow> (Inr d, x')
                   | Returns (Inl e) \<Rightarrow> (Inl (errorf ''user.getUserByID response'' e), x')
                   | Panics \<Rightarrow> (Inl (errors_new []), x')))"

section \<open>Options accumulate\<close>

lemma fold_option_opts: "cl_opts (fold apply_option opts c) = cl_opts c"
proof (induction opts arbitrary: c)
  case (Cons p opts)
  have "cl_opts (apply_option p c) = cl_opts c" by (cases p) simp_all
  with Cons show ?case by simp
qed simp

lemma NewClient_opts [simp]: "cl_opts (NewClient opts) = opts"
  by (simp add: NewClient_def fold_option_opts)

text \<open>Deriving a client from a client is building one from all options, in order.\<close>

lemma With_NewClient [simp]: "client_With (NewClient os) ps = NewClient (os @ ps)"
  by (simp add: client_With_def)

definition code_mappings :: "client_option list \<Rightarrow> (int \<times> go_error) list list" where
  "code_mappings opts = concat (map (\<lambda>p. case p of WithResponseCodeMapping m \<Rightarrow> if m = [] then [] else [m] | _ \<Rightarrow> []) opts)"

lemma NewClient_mws: "cl_ResponseMWs (NewClient opts) = map code_mapping_mw (code_mappings opts)"
proof -
  have "cl_ResponseMWs (fold apply_option opts c) = cl_ResponseMWs c @ map code_mapping_mw (code_mappings opts)" for c
  proof (induction opts arbitrary: c)
    case (Cons p opts)
    have "cl_ResponseMWs (apply_option p c) = cl_ResponseMWs c @ map code_mapping_mw (code_mappings [p])"
      by (cases p) (simp_all add: code_mappings_def)
    with Cons show ?case by (simp add: code_mappings_def)
  qed (simp add: code_mappings_def)
  then show ?thesis by (simp add: NewClient_def)
qed

text \<open>
  C39. \<^verbatim>\<open>WithResponseCodeMapping\<close> turns a response code into the error it stands for when it is the only mapping of the client.  With a second
  mapping, an error that the first one has found is lost: \<^verbatim>\<open>Send\<close> returns the response with a nil error, whatever the second
  mapping says about the code.
\<close>

theorem second_code_mapping_loses_errors:
  assumes "send (cl_RESTClient (NewClient opts)) req x = (Inr resp, x')"
  shows "(code_mappings opts = [m] \<longrightarrow>
      client_Send send (NewClient opts) req x = ((Some resp, map_option (errorf ''response status code'') (map_of m (rp_StatusCode resp))), x'))
    \<and> (code_mappings opts = [m, m'] \<and> map_of m (rp_StatusCode resp) \<noteq> None \<longrightarrow>
      client_Send send (NewClient opts) req x = ((Some resp, None), x'))"
  using assms by (auto simp: client_Send_def NewClient_mws code_mapping_mw_def)

definition example_transport :: "nat transport" where
  "example_transport rc req x = (Inr \<lparr>rp_StatusCode = 401, rp_Header = header_empty, rp_Body = [], rp_Request = None\<rparr>, Suc x)"

theorem second_code_mapping_loses_errors_witness:
  "snd (fst (client_Send example_transport (NewClient [WithAuthResponseCodeMapping]) (client_NewRequest (NewClient []) background getUserByIDRoute) 0)) \<noteq> None
   \<and> snd (fst (client_Send example_transport (NewClient [WithAuthResponseCodeMapping, WithResponseCodeMapping [(404, Sentinel AppErrUserNotFound)]])
      (client_NewRequest (NewClient []) background getUserByIDRoute) 0)) = None"
proof -
  let ?resp = "\<lparr>rp_StatusCode = 401, rp_Header = header_empty, rp_Body = [], rp_Request = None\<rparr> :: raw_response"
  let ?m = "[(401, Sentinel ErrUnauthenticated), (403, Sentinel ErrPermissionDenied)] :: (int \<times> go_error) list"
  let ?req = "client_NewRequest (NewClient []) background getUserByIDRoute"
  have t: "example_transport rc ?req 0 = (Inr ?resp, 1)" for rc by (simp add: example_transport_def)
  have "code_mappings [WithAuthResponseCodeMapping] = [?m]"
    "code_mappings [WithAuthResponseCodeMapping, WithResponseCodeMapping [(404, Sentinel AppErrUserNotFound)]] = [?m, [(404, Sentinel AppErrUserNotFound)]]"
    by (simp_all add: code_mappings_def WithAuthResponseCodeMapping_def)
  with second_code_mapping_loses_errors [where send = example_transport and req = ?req and x = 0 and m = ?m, OF t] show ?thesis by simp
qed

section \<open>The profile service asks the user service\<close>

text \<open>
  What is assumed of the REST library and the network: the callbacks registered for outgoing requests run, the path parameters become the path
  variables of the route, the header fields of the request win over those of the client, and the answer of the server comes back.
\<close>

definition delivers :: "user_world srv transport \<Rightarrow> user_world server \<Rightarrow> user_world http_route \<Rightarrow> bool" where
  "delivers send srv ro \<longleftrightarrow>
     (\<forall>rc req s. \<exists>r. let req' = fold (\<lambda>f. f) (rc_OnBeforeRequest rc) req in
        rq_Vars r = rr_PathParams req' \<and> cx_tx (rq_ctx r) = None
        \<and> (\<forall>k. header_Get (rq_Header r) k = (if header_Get (rr_Header req') k \<noteq> [] then header_Get (rr_Header req') k else header_Get (rc_Header rc) k))
        \<and> (\<forall>c' s'. run_route srv ro (Conn new_conn) r s = (Returns (), Conn c', s') \<longrightarrow>
            (\<exists>resp. send rc req s = (Inr resp, s') \<and> rp_StatusCode resp = client_status c' \<and> rp_Body resp = cn_body c')))"

text \<open>The JSON of a user, and the time in it, read back; \<^verbatim>\<open>time.MarshalJSON\<close> does so for the years 0 to 9999.\<close>

definition user_reads_back :: "codecs \<Rightarrow> (time \<Rightarrow> string) \<Rightarrow> user_data \<Rightarrow> bool" where
  "user_reads_back X time_text d \<longleftrightarrow> (\<forall>t. ud_DeletedAt d = Some t \<longrightarrow> vp_RFC3339 (co_parsers X) (time_text t) = Inr t)
     \<and> (\<exists>b. bc_Marshal (co_json X) (UserOut X d) = Inr b
          \<and> bc_Decode (co_json X) b = Inr (JObject [(''id'', JString (co_uuid_String X (ud_ID d))), (''login'', JString (ud_Login d)),
              (''deletedAt'', case ud_DeletedAt d of None \<Rightarrow> JNull | Some t \<Rightarrow> JString (time_text t))]))"

definition profile_client :: "observer \<Rightarrow> metrics \<Rightarrow> logger \<Rightarrow> string \<Rightarrow> client" where
  "profile_client ob ms lg url = NewUserService (InitClient (httpClientFactoryProvider ob ms lg) ''user'' url [])"

lemma profile_client_rest:
  "rc_Header (cl_RESTClient (profile_client ob ms lg url)) = header_Set HeaderAuthServiceName profile_ServiceName header_empty
   \<and> rc_OnBeforeRequest (cl_RESTClient (profile_client ob ms lg url)) = [observability_headers ob [(''requestID'', HeaderRequestID)]]
   \<and> cl_ResponseMWs (profile_client ob ms lg url) = []"
  by (simp add: profile_client_def NewUserService_def InitClient_def factory_httpClient_def httpClientFactoryProvider_def
      WithServiceNameAuth_def) (simp add: NewClient_def resty_New_def)

lemma auth_keys_distinct:
  "canonical_key HeaderAuthUserID \<noteq> canonical_key HeaderAuthServiceName" "canonical_key HeaderAuthAdminUserID \<noteq> canonical_key HeaderAuthServiceName"
  "canonical_key HeaderAuthUserID \<noteq> canonical_key HeaderRequestID" "canonical_key HeaderAuthAdminUserID \<noteq> canonical_key HeaderRequestID"
  "canonical_key HeaderAuthServiceName \<noteq> canonical_key HeaderRequestID"
  by code_simp+

lemma header_Get_empty [simp]: "header_Get header_empty k = []"
  by (simp add: header_Get_def header_empty_def)

lemma observability_headers_get:
  assumes "canonical_key k \<noteq> canonical_key HeaderRequestID"
  shows "header_Get (rr_Header (observability_headers ob [(''requestID'', HeaderRequestID)] req)) k = header_Get (rr_Header req) k"
    and "rr_PathParams (observability_headers ob [(''requestID'', HeaderRequestID)] req) = rr_PathParams req"
  using assms by (simp_all add: observability_headers_def Let_def header_Get_Set)

lemma presented_service:
  assumes "header_Get h HeaderAuthUserID = []" and "header_Get h HeaderAuthAdminUserID = []" and "header_Get h HeaderAuthServiceName = n" and "n \<noteq> []"
  shows "presented P h = Some (ServiceNameToken n)"
  using assms by (simp add: presented_def)

lemma userOut_In_reads_back:
  assumes "uuid_reads_back X" and "user_reads_back X time_text d"
  shows "userOut_In (co_parsers X) (JObject [(''id'', JString (co_uuid_String X (ud_ID d))), (''login'', JString (ud_Login d)),
      (''deletedAt'', case ud_DeletedAt d of None \<Rightarrow> JNull | Some t \<Rightarrow> JString (time_text t))])
    = Inr \<lparr>pu_ID = ud_ID d, pu_DeletedAt = ud_DeletedAt d\<rparr>"
proof -
  have "field_for [''id'', ''deletedAt''] ''id'' = Some ''id''" "field_for [''id'', ''deletedAt''] ''login'' = None"
    "field_for [''id'', ''deletedAt''] ''deletedAt'' = Some ''deletedAt''"
    by code_simp+
  then show ?thesis
    using assms by (simp add: userOut_In_def user_reads_back_def uuid_reads_back_def split: option.splits)
qed

lemma GetUserByID_for_service:
  assumes "\<forall>n. db_fault db n = NoFault" and "cx_tx (rq_ctx r) = None" and "cx_auth (rq_ctx r) = Some (Some (principal_of (ServiceNameToken n)))"
    and "rq_Vars r ''userID'' = Some v" and "vp_Uuid (co_parsers X) v = Inr u"
    and "GetUserByIDHandler_Handle X r (db, x) = (res, calls, w)"
  shows "(res, calls) = (case filter (\<lambda>r. ur_id r = u) (t_user (db_tables db)) of
      [] \<Rightarrow> (Returns (Some (Sentinel ServiceErrUserNotFound)), [SetStatusCode 404])
    | row # _ \<Rightarrow> (Returns None, [SetJSONBody (bc_Marshal (co_json X) (UserOut X (ToDTOUserData (user_of_row row))))]))"
proof -
  have "permission_Check (cx_auth (rq_ctx r)) (CanReadUser u) = None"
    by (simp add: assms(3) principal_of_def permission_Check_def GetAuthentication_def CanReadUser_def)
  from GetByID_calm [OF assms(1,2) this] obtain db1 where
    "user_GetByID (rq_ctx r) u db = (case filter (\<lambda>r. ur_id r = u) (t_user (db_tables db)) of
       [] \<Rightarrow> Inl (Sentinel ServiceErrUserNotFound) | r # _ \<Rightarrow> Inr (ToDTOUserData (user_of_row r)), db1)"
    by (metis prod.collapse)
  then show ?thesis
    using assms(4-6) by (auto simp: GetUserByIDHandler_Handle_def ParseRequest_def PathParameter_def requestDataProvider_def parse_uuid
        split: list.splits)
qed

lemma user_endpoint_for_service:
  assumes "httpServerProvider H environ ob ms lg = Returns srv" and "cors_calls_next (hx_cors H)" and "hx_parsers H = co_parsers X"
    and "ro \<in> set (user_routes (hx_cors H) X as us)" and "ro_Method ro = ''GET''" and "ro_Path ro = user_path"
    and "sv_app s = (db, x)" and "\<forall>n. db_fault db n = NoFault" and "cx_tx (rq_ctx r) = None"
    and "presented (co_parsers X) (rq_Header r) = Some (ServiceNameToken n)"
    and "rq_Vars r ''userID'' = Some v" and "vp_Uuid (co_parsers X) v = Inr u"
    and marshal: "\<forall>row \<in> set (t_user (db_tables db)). bc_Marshal (co_json X) (UserOut X (ToDTOUserData (user_of_row row)))
      = Inr (encode (ToDTOUserData (user_of_row row)))"
  shows "\<exists>c' s'. run_route (user_MustRegisterHTTPHandlers (hx_cors H) X as us srv) ro (Conn new_conn) r s = (Returns (), Conn c', s')
    \<and> (case filter (\<lambda>r. ur_id r = u) (t_user (db_tables db)) of
         [] \<Rightarrow> client_status c' = 404
       | row # _ \<Rightarrow> client_status c' = 200 \<and> cn_body c' = encode (ToDTOUserData (user_of_row row)))"
proof -
  have route: "run_route (user_MustRegisterHTTPHandlers (hx_cors H) X as us srv) ro = run_route srv ro"
    using user_routes_registered run_route_mws by blast
  from get_user_route [OF assms(4-6)]
  have ro: "ro_mws ro = [WithAuthenticationRequirement]" "ro_handler ro = httpHandlerWrapper (GetUserByIDHandler_Handle X)" by auto
  have c: "cn_sent new_conn = None" "cn_body new_conn = []" "cn_fault new_conn = None" by (simp_all add: new_conn_def)
  from protected_run [OF assms(1,2) ro c(1), of r s, unfolded assms(3,7,10) option.case]
  obtain r' res calls x' where r': "reaches r (Some (principal_of (ServiceNameToken n))) r'"
    and h: "GetUserByIDHandler_Handle X r' (db, x) = (res, calls, x')"
    and ok: "explicit_code calls 0 = 0 \<or> 200 \<le> explicit_code calls 0 \<and> explicit_code calls 0 \<le> 999 \<longrightarrow>
      (\<exists>c' s'. run_route srv ro (Conn new_conn) r s = (Returns (), Conn c', s') \<and> client_status c' = status_of res calls \<and> sv_app s' = x'
        \<and> cn_body c' = cn_body new_conn @ (if body_allowed (status_of res calls) \<and> cn_fault new_conn = None then body_of res calls else []))"
    by blast
  have "cx_tx (rq_ctx r') = None" "cx_auth (rq_ctx r') = Some (Some (principal_of (ServiceNameToken n)))" "rq_Vars r' ''userID'' = Some v"
    using r' assms(9,11) by (auto simp: reaches_def same_conn_def requestDataProvider_def)
  note out = GetUserByID_for_service [OF assms(8) this assms(12) h]
  note eval = status_of_def set_body_def explicit_code_def error_status_def body_of_def body_allowed_def
  show ?thesis
  proof (cases "filter (\<lambda>r. ur_id r = u) (t_user (db_tables db))")
    case Nil
    then have "res = Returns (Some (Sentinel ServiceErrUserNotFound))" "calls = [SetStatusCode 404]" using out by simp_all
    with ok route Nil show ?thesis by (auto simp: eval c)
  next
    case (Cons row rows)
    then have "row \<in> set (t_user (db_tables db))" by (auto simp: filter_eq_Cons_iff)
    with Cons have "res = Returns None" "calls = [SetJSONBody (Inr (encode (ToDTOUserData (user_of_row row))))]" using out marshal by simp_all
    with ok route Cons show ?thesis by (auto simp: eval c)
  qed
qed

text \<open>The request of a lookup as the server receives it: the identifier in the path, the token of the profile service, and the way back.\<close>

definition lookup_request :: "codecs \<Rightarrow> client \<Rightarrow> sql_ctx \<Rightarrow> uuid \<Rightarrow> rest_request" where
  "lookup_request X c ctx u = rr_SetPathParam ''userID'' (co_uuid_String X u) (client_NewRequest c ctx getUserByIDRoute)"

lemma lookup_arrives:
  fixes ob :: observer and ms :: metrics and lg :: logger and url :: string and X :: codecs and ctx :: sql_ctx and u :: uuid
  assumes "delivers send srv ro"
  defines "c \<equiv> profile_client ob ms lg url"
  defines "req \<equiv> lookup_request X c ctx u"
  shows "\<exists>r. rq_Vars r ''userID'' = Some (co_uuid_String X u) \<and> cx_tx (rq_ctx r) = None
    \<and> presented P (rq_Header r) = Some (ServiceNameToken profile_ServiceName)
    \<and> (\<forall>c' s'. run_route srv ro (Conn new_conn) r s = (Returns (), Conn c', s') \<longrightarrow>
        (\<exists>resp. send (cl_RESTClient c) req s = (Inr resp, s') \<and> rp_StatusCode resp = client_status c' \<and> rp_Body resp = cn_body c'))"
proof -
  have req: "header_Get (rr_Header req) k = []" "rr_PathParams req ''userID'' = Some (co_uuid_String X u)" for k
    by (simp_all add: req_def lookup_request_def rr_SetPathParam_def client_NewRequest_def)
  let ?req' = "observability_headers ob [(''requestID'', HeaderRequestID)] req"
  have before: "fold (\<lambda>f. f) (rc_OnBeforeRequest (cl_RESTClient c)) req = ?req'" by (simp add: c_def profile_client_rest)
  from assms(1) [unfolded delivers_def Let_def, THEN spec, THEN spec, THEN spec, of "cl_RESTClient c" req s, unfolded before] obtain r where
    r: "rq_Vars r = rr_PathParams ?req'" "cx_tx (rq_ctx r) = None"
    and hd: "\<And>k. header_Get (rq_Header r) k = (if header_Get (rr_Header ?req') k \<noteq> [] then header_Get (rr_Header ?req') k
        else header_Get (rc_Header (cl_RESTClient c)) k)"
    and returns: "\<forall>c' s'. run_route srv ro (Conn new_conn) r s = (Returns (), Conn c', s') \<longrightarrow>
        (\<exists>resp. send (cl_RESTClient c) req s = (Inr resp, s') \<and> rp_StatusCode resp = client_status c' \<and> rp_Body resp = cn_body c')"
    by blast
  have "rq_Vars r ''userID'' = Some (co_uuid_String X u)"
    using r(1) req(2) auth_keys_distinct(5) observability_headers_get(2) [of HeaderAuthServiceName] by simp
  moreover have "presented P (rq_Header r) = Some (ServiceNameToken profile_ServiceName)"
    by (rule presented_service)
      (simp_all add: hd observability_headers_get auth_keys_distinct req c_def profile_client_rest header_Get_Set, simp add: profile_ServiceName_def)
  ultimately show ?thesis using r(2) returns by blast
qed

lemma Get_by_response:
  assumes "send (cl_RESTClient (profile_client ob ms lg url)) (lookup_request X (profile_client ob ms lg url) ctx u) s = (Inr resp, s')"
  shows "userService_Get send X (profile_client ob ms lg url) ctx u s =
      (if rp_StatusCode resp = 404 then (Inl (Sentinel AppErrUserNotFound), s')
       else if rp_StatusCode resp \<noteq> 200 then (Inl (errors_new ''request user.getUserByID: invalid status code''), s')
       else case ParseResponse (Some resp) (JSONBody (co_json X) (userOut_In (co_parsers X))) None of
              Returns (Inr d) \<Rightarrow> (Inr d, s') | Returns (Inl e) \<Rightarrow> (Inl (errorf ''user.getUserByID response'' e), s') | Panics \<Rightarrow> (Inl (errors_new []), s'))"
proof -
  have "client_Send send (profile_client ob ms lg url) (lookup_request X (profile_client ob ms lg url) ctx u) s = ((Some resp, None), s')"
    by (simp add: client_Send_def assms profile_client_rest)
  then show ?thesis unfolding userService_Get_def lookup_request_def [symmetric] Let_def by simp
qed

text \<open>
  C24. The lookup of a user by the profile service, from its client over the REST library to the route of the user service and back, against a
  database without faults: it returns the user's identifier and deletion time when the users table has the user, and \<^verbatim>\<open>ErrUserNotFound\<close> otherwise; the service name
  in the client's header is what gets it past the authentication and the permission check.  The JSON of the users in the table is assumed to read back.
\<close>

theorem user_lookup_over_http:
  assumes "httpServerProvider H environ ob ms lg = Returns srv" and "cors_calls_next (hx_cors H)" and "hx_parsers H = co_parsers X"
    and "ro \<in> set (user_routes (hx_cors H) X as us)" and "ro_Method ro = ''GET''" and "ro_Path ro = user_path"
    and deliver: "delivers send (user_MustRegisterHTTPHandlers (hx_cors H) X as us srv) ro" and uuids: "uuid_reads_back X"
    and codec: "\<forall>row \<in> set (t_user (db_tables db)). user_reads_back X time_text (ToDTOUserData (user_of_row row))"
    and "sv_app s = (db, x)" and "\<forall>n. db_fault db n = NoFault"
  shows "\<exists>s'. userService_Get send X (profile_client ob' ms' lg' url) ctx u s =
    (case filter (\<lambda>r. ur_id r = u) (t_user (db_tables db)) of
       [] \<Rightarrow> Inl (Sentinel AppErrUserNotFound)
     | row # _ \<Rightarrow> Inr \<lparr>pu_ID = u, pu_DeletedAt = ur_deleted_at row\<rparr>, s')"
proof -
  have parses: "vp_Uuid (co_parsers X) (co_uuid_String X u) = Inr u" using uuids by (simp add: uuid_reads_back_def)
  define encode where "encode = (\<lambda>d. projr (bc_Marshal (co_json X) (UserOut X d)))"
  have marshal: "\<forall>row \<in> set (t_user (db_tables db)). bc_Marshal (co_json X) (UserOut X (ToDTOUserData (user_of_row row)))
      = Inr (encode (ToDTOUserData (user_of_row row)))"
    using codec by (auto simp: user_reads_back_def encode_def)
  have decode: "bc_Decode (co_json X) (encode d) = Inr (JObject [(''id'', JString (co_uuid_String X (ud_ID d))), (''login'', JString (ud_Login d)),
        (''deletedAt'', case ud_DeletedAt d of None \<Rightarrow> JNull | Some t \<Rightarrow> JString (time_text t))])" if "user_reads_back X time_text d" for d
    using that by (auto simp: user_reads_back_def encode_def)
  from lookup_arrives [OF deliver, where P = "co_parsers X" and s = s and X = X and u = u and ctx = ctx and ob = ob' and ms = ms' and lg = lg' and url = url]
  obtain r where v: "rq_Vars r ''userID'' = Some (co_uuid_String X u)" and tx: "cx_tx (rq_ctx r) = None"
    and tok: "presented (co_parsers X) (rq_Header r) = Some (ServiceNameToken profile_ServiceName)"
    and returns: "\<And>c' s'. run_route (user_MustRegisterHTTPHandlers (hx_cors H) X as us srv) ro (Conn new_conn) r s = (Returns (), Conn c', s') \<Longrightarrow>
        \<exists>resp. send (cl_RESTClient (profile_client ob' ms' lg' url)) (lookup_request X (profile_client ob' ms' lg' url) ctx u) s = (Inr resp, s')
          \<and> rp_StatusCode resp = client_status c' \<and> rp_Body resp = cn_body c'"
    by blast
  obtain c' s' where run: "run_route (user_MustRegisterHTTPHandlers (hx_cors H) X as us srv) ro (Conn new_conn) r s = (Returns (), Conn c', s')"
    and answer: "case filter (\<lambda>r. ur_id r = u) (t_user (db_tables db)) of
         [] \<Rightarrow> client_status c' = 404
       | row # _ \<Rightarrow> client_status c' = 200 \<and> cn_body c' = encode (ToDTOUserData (user_of_row row))"
    using user_endpoint_for_service [OF assms(1-6,10,11) tx tok v parses marshal] by blast
  from returns [OF run] obtain resp where resp: "rp_StatusCode resp = client_status c'" "rp_Body resp = cn_body c'"
    and get: "send (cl_RESTClient (profile_client ob' ms' lg' url)) (lookup_request X (profile_client ob' ms' lg' url) ctx u) s = (Inr resp, s')"
    by blast
  show ?thesis
  proof (cases "filter (\<lambda>r. ur_id r = u) (t_user (db_tables db))")
    case Nil
    then show ?thesis using Get_by_response [where send = send, OF get] answer resp by auto
  next
    case (Cons row rows)
    then have "row \<in> set (t_user (db_tables db))" by (auto simp: filter_eq_Cons_iff)
    with codec have reads: "user_reads_back X time_text (ToDTOUserData (user_of_row row))" by blast
    from Cons have "ur_id row = u" by (metis (mono_tags) filter_eq_ConsD)
    moreover have "ParseResponse (Some resp) (JSONBody (co_json X) (userOut_In (co_parsers X))) None
        = Returns (Inr \<lparr>pu_ID = ur_id row, pu_DeletedAt = ur_deleted_at row\<rparr>)"
      using answer Cons resp(2) decode [OF reads] userOut_In_reads_back [OF uuids reads]
      by (simp add: ParseResponse_def responseDataProvider_def JSONBody_def ToDTOUserData_def user_of_row_def)
    ultimately show ?thesis using Get_by_response [where send = send, OF get] answer Cons resp(1) by auto
  qed
qed

subsection \<open>An instance\<close>

definition merged_header :: "header \<Rightarrow> header \<Rightarrow> header" where
  "merged_header own shared = own\<lparr>hd_values := (\<lambda>k. case hd_values own k of Some (v # vs) \<Rightarrow> if v = [] then hd_values shared k else Some (v # vs)
     | _ \<Rightarrow> hd_values shared k)\<rparr>"

definition direct_transport :: "user_world server \<Rightarrow> user_world http_route \<Rightarrow> user_world srv transport" where
  "direct_transport srv ro rc req s =
     (let req' = fold (\<lambda>f. f) (rc_OnBeforeRequest rc) req;
          r = (get_request [])\<lparr>rq_Vars := rr_PathParams req', rq_Header := merged_header (rr_Header req') (rc_Header rc)\<rparr>
      in case run_route srv ro (Conn new_conn) r s of
           (Returns _, Conn c', s') \<Rightarrow>
             (Inr \<lparr>rp_StatusCode = client_status c', rp_Header = client_header c', rp_Body = cn_body c', rp_Request = None\<rparr>, s')
         | (_, _, s') \<Rightarrow> (Inl (errors_new ''EOF''), s'))"

lemma direct_transport_delivers: "delivers (direct_transport srv ro) srv ro"
proof -
  have "header_Get (merged_header own shared) k = (if header_Get own k \<noteq> [] then header_Get own k else header_Get shared k)" for own shared k
    by (simp add: header_Get_def merged_header_def split: option.splits list.splits)
  then have "\<exists>r. rq_Vars r = rr_PathParams (fold (\<lambda>f. f) (rc_OnBeforeRequest rc) req) \<and> cx_tx (rq_ctx r) = None
      \<and> (\<forall>k. header_Get (rq_Header r) k = (if header_Get (rr_Header (fold (\<lambda>f. f) (rc_OnBeforeRequest rc) req)) k \<noteq> []
            then header_Get (rr_Header (fold (\<lambda>f. f) (rc_OnBeforeRequest rc) req)) k else header_Get (rc_Header rc) k))
      \<and> (\<forall>c' s'. run_route srv ro (Conn new_conn) r s = (Returns (), Conn c', s') \<longrightarrow>
          (\<exists>resp. direct_transport srv ro rc req s = (Inr resp, s') \<and> rp_StatusCode resp = client_status c' \<and> rp_Body resp = cn_body c'))" for rc req s
    by (intro exI [of _ "(get_request [])\<lparr>rq_Vars := rr_PathParams (fold (\<lambda>f. f) (rc_OnBeforeRequest rc) req),
          rq_Header := merged_header (rr_Header (fold (\<lambda>f. f) (rc_OnBeforeRequest rc) req)) (rc_Header rc)\<rparr>"])
      (simp add: direct_transport_def get_request_def background_def)
  then show ?thesis unfolding delivers_def Let_def by blast
qed

lemma cut_at_char: "c \<notin> set p \<Longrightarrow> cut_at [c] (p @ c # rest) = Some (p, rest)"
  by (induction p) auto

definition parse_decimal :: "string \<Rightarrow> go_error + int" where
  "parse_decimal s =
     (case s of
        [] \<Rightarrow> Inl strconv_error
      | c # ds \<Rightarrow>
          if c = CHR ''-'' then (case digits_value ds 0 of Some n \<Rightarrow> Inr (- int n) | None \<Rightarrow> Inl strconv_error)
          else (case digits_value s 0 of Some n \<Rightarrow> Inr (int n) | None \<Rightarrow> Inl strconv_error))"

lemma utoa_head: "utoa n = c # cs \<Longrightarrow> c \<noteq> CHR ''-''"
  using utoa_digits [of c n] by auto

lemma parse_decimal_itoa: "parse_decimal (itoa i) = Inr i"
  using digits_value_utoa [of "nat i"] digits_value_utoa [of "nat (- i)"]
  by (auto simp: parse_decimal_def itoa_def split: list.splits dest: utoa_head)

definition wire_codec :: body_codec where
  "wire_codec =
     \<lparr>bc_Decode = (\<lambda>b. case cut_at '','' b of
          None \<Rightarrow> Inl strconv_error
        | Some (i, rest) \<Rightarrow> (case cut_at '','' rest of
              None \<Rightarrow> Inl strconv_error
            | Some (t, l) \<Rightarrow> Inr (JObject [(''id'', JString i), (''login'', JString l), (''deletedAt'', if t = [] then JNull else JString t)]))),
      bc_Marshal = (\<lambda>j. case j of
          JObject [(_, JString i), (_, JString l), (_, d)] \<Rightarrow> Inr (i @ '','' @ (case d of JTime t \<Rightarrow> itoa t | _ \<Rightarrow> []) @ '','' @ l)
        | _ \<Rightarrow> Inl strconv_error)\<rparr>"

definition wire_codecs :: codecs where
  "wire_codecs = decimal_codecs\<lparr>co_json := wire_codec, co_parsers := (co_parsers decimal_codecs)\<lparr>vp_RFC3339 := parse_decimal\<rparr>\<rparr>"

lemma utoa_no_comma: "CHR '','' \<notin> set (utoa n)"
  using utoa_digits [of "CHR '',''" n] by auto

lemma itoa_no_comma: "CHR '','' \<notin> set (itoa i)"
  using utoa_no_comma by (simp add: itoa_def)

lemma itoa_nonempty: "itoa i \<noteq> []"
  by (simp add: itoa_def)

lemma wire_reads_back: "uuid_reads_back wire_codecs" "user_reads_back wire_codecs itoa d"
proof -
  show "uuid_reads_back wire_codecs" using decimal_reads_back by (simp add: uuid_reads_back_def wire_codecs_def)
  have "\<exists>b. bc_Marshal wire_codec (UserOut wire_codecs d) = Inr b
      \<and> bc_Decode wire_codec b = Inr (JObject [(''id'', JString (co_uuid_String wire_codecs (ud_ID d))), (''login'', JString (ud_Login d)),
          (''deletedAt'', case ud_DeletedAt d of None \<Rightarrow> JNull | Some t \<Rightarrow> JString (itoa t))])" for d
    using cut_at_char [OF utoa_no_comma [of "unat (ud_ID d)"]] cut_at_char [of "CHR '',''" "[]"] itoa_nonempty
    by (cases "ud_DeletedAt d") (auto simp: wire_codec_def UserOut_def wire_codecs_def decimal_codecs_def cut_at_char itoa_no_comma)
  then show "user_reads_back wire_codecs itoa d" by (simp add: user_reads_back_def wire_codecs_def parse_decimal_itoa)
qed

definition wire_deps :: "user_world http_deps" where
  "wire_deps = example_deps\<lparr>hx_parsers := co_parsers wire_codecs\<rparr>"

theorem user_lookup_over_http_witness:
  "\<exists>send s'. userService_Get send wire_codecs (profile_client no_observer [] LoggerStub ''http://user'') background 7
      (new_srv (calm_db example_login_tables, example_env)) = (Inr \<lparr>pu_ID = 7, pu_DeletedAt = None\<rparr>, s')"
proof -
  let ?as = "NewAuthentication example_token_codec"
  let ?routes = "user_routes (hx_cors wire_deps) wire_codecs ?as example_registry"
  obtain srv where srv: "httpServerProvider wire_deps [''SERVICE_ADDRESS'' \<mapsto> '':80''] no_observer [] LoggerStub = Returns srv"
    by (simp add: httpServerProvider_def env_Must_def env_Parse_def ParseTypedValue_def)
  have cors: "cors_calls_next (hx_cors wire_deps)" by (auto simp: cors_calls_next_def wire_deps_def example_deps_def)
  have "length ?routes = 6" "ro_Method (?routes ! 4) = ''GET''" "ro_Path (?routes ! 4) = user_path"
    by (simp_all add: user_routes_def user_MustRegisterHTTPHandlers_def server_Register_def Let_def option_routes_def GetUserByIDHandler_def)
  then have ro: "?routes ! 4 \<in> set ?routes" "ro_Method (?routes ! 4) = ''GET''" "ro_Path (?routes ! 4) = user_path" by simp_all
  let ?send = "direct_transport (user_MustRegisterHTTPHandlers (hx_cors wire_deps) wire_codecs ?as example_registry srv) (?routes ! 4)"
  have "filter (\<lambda>r. ur_id r = 7) (t_user (db_tables (calm_db example_login_tables))) = [registered 7 ''bob'' (projr (HashPassword ''pw''))]"
    by (simp add: calm_db_def example_login_tables_def registered_def)
  moreover have "hx_parsers wire_deps = co_parsers wire_codecs" by (simp add: wire_deps_def)
  moreover have "sv_app (new_srv (calm_db example_login_tables, example_env)) = (calm_db example_login_tables, example_env)"
    "\<forall>n. db_fault (calm_db example_login_tables) n = NoFault" by (simp_all add: new_srv_def calm_db_def)
  ultimately show ?thesis
    using user_lookup_over_http [OF srv cors _ ro direct_transport_delivers wire_reads_back(1), where s = "new_srv (calm_db example_login_tables, example_env)"
        and db = "calm_db example_login_tables" and x = example_env and time_text = itoa and ob' = no_observer and ms' = "[]" and lg' = LoggerStub
        and url = "''http://user''" and ctx = background and u = 7] wire_reads_back(2)
    by (simp add: registered_def) metis
qed

end
