(* ===== verification/Sql_Migration.thy ===== *)
theory Sql_Migration
  imports Sql_Transaction Typed_Value
begin

text \<open>
  \<^verbatim>\<open>pkg/sql/migration.go\<close> and \<^verbatim>\<open>internal/pkg/cmd/sqlmigration.go\<close>: the migrator.

  What a query of a migration does to the tables is the database's business: the meaning of a query text is an argument (\<open>sql\<close>).
  \<^verbatim>\<open>sort.Slice\<close> does not keep the order of equal elements, so the sorting function is an argument
  too.  The state is the server and the records that were logged.
\<close>

section \<open>Migrations\<close>

record migration =
  mg_ID :: string
  mg_SQL :: string

type_synonym migration_source = "go_error + migration list"

definition migrationLockName :: string where
  "migrationLockName = ''perform_migration''"

definition querySeparator :: string where
  "querySeparator = [CHR '';'', CHR 0x0A]"

text \<open>PostgreSQL's error 42P01.\<close>

definition undefined_table :: go_error where
  "undefined_table = Sentinel (Opaque 42)"

definition line_break :: "nat \<Rightarrow> string" where
  "line_break tabs = CHR 0x0A # replicate tabs (CHR 0x09)"

definition migrationTableDDL :: migration_source where
  "migrationTableDDL = Inr [\<lparr>mg_ID = ''0000-00-00-000-create-migration-table'',
     mg_SQL = line_break 4 @ ''create table if not exists migration ('' @ line_break 5 @ ''id text primary key'' @ line_break 4 @ '');'' @ line_break 3\<rparr>]"

text \<open>\<^verbatim>\<open>FSMigrations\<close>: the entries of the directory, each a name, whether it is a directory, and its content.\<close>

definition file_ext :: "string \<Rightarrow> string" where
  "file_ext name = (if CHR ''.'' \<in> set name then CHR ''.'' # rev (takeWhile (\<lambda>c. c \<noteq> CHR ''.'') (rev name)) else [])"

fun fs_entries :: "(string \<times> bool \<times> (go_error + string)) list \<Rightarrow> go_error + migration list" where
  "fs_entries [] = Inr []"
| "fs_entries ((name, isDir, content) # es) =
     (if isDir then fs_entries es
      else case content of
             Inl _ \<Rightarrow> Inl (errors_new ''read file'')
           | Inr text \<Rightarrow>
               (case fs_entries es of
                  Inl e \<Rightarrow> Inl e
                | Inr ms \<Rightarrow> Inr (\<lparr>mg_ID = take (length name - length (file_ext name)) name, mg_SQL = text\<rparr> # ms)))"

definition FSMigrations :: "go_error + (string \<times> bool \<times> (go_error + string)) list \<Rightarrow> migration_source" where
  "FSMigrations dir = (case dir of Inl e \<Rightarrow> Inl (errorf ''read filesystem'' e) | Inr es \<Rightarrow> fs_entries es)"

definition splitIntoQueries :: "string \<Rightarrow> string list" where
  "splitIntoQueries text = filter (\<lambda>q. q \<noteq> []) (map trim_space (split_on querySeparator text))"

section \<open>Migrator\<close>

type_synonym sql_meaning = "string \<Rightarrow> stmt"

definition unique_id_violation :: go_error where
  "unique_id_violation = Sentinel (Opaque 23)"

definition migration_record_stmt :: "string \<Rightarrow> stmt" where
  "migration_record_stmt fileName =
     (\<lambda>t. case t_migration t of
            None \<Rightarrow> Inl undefined_table
          | Some ids \<Rightarrow> if fileName \<in> set ids then Inl unique_id_violation else Inr 1,
      \<lambda>t. t\<lparr>t_migration := map_option (\<lambda>ids. ids @ [fileName]) (t_migration t)\<rparr>)"

definition createMigrationRecord :: "nat \<Rightarrow> string \<Rightarrow> dbms \<Rightarrow> err \<times> dbms" where
  "createMigrationRecord tx fileName db =
     (case run_exec (ViaTx tx) (migration_record_stmt fileName) db of (Inl e, db') \<Rightarrow> (Some e, db') | (Inr _, db') \<Rightarrow> (None, db'))"

fun exec_queries :: "sql_meaning \<Rightarrow> nat \<Rightarrow> string list \<Rightarrow> dbms \<Rightarrow> err \<times> dbms" where
  "exec_queries sql tx [] db = (None, db)"
| "exec_queries sql tx (query # queries) db =
     (case run_exec (ViaTx tx) (sql query) db of
        (Inl e, db') \<Rightarrow> (Some e, db')
      | (Inr _, db') \<Rightarrow> exec_queries sql tx queries db')"

definition performMigrationImpl :: "sql_meaning \<Rightarrow> nat \<Rightarrow> migration \<Rightarrow> dbms \<Rightarrow> err \<times> dbms" where
  "performMigrationImpl sql tx m db =
     (let text = trim_space (mg_SQL m) in
      if text = [] then (Some (errors_new ''empty migration''), db)
      else case exec_queries sql tx (splitIntoQueries text) db of
             (Some e, db') \<Rightarrow> (Some e, db')
           | (None, db') \<Rightarrow> createMigrationRecord tx (mg_ID m) db')"

definition performMigration :: "sql_meaning \<Rightarrow> logger \<Rightarrow> sql_ctx \<Rightarrow> migration \<Rightarrow> (obs list, err) action" where
  "performMigration sql lg ctx m w =
     (case begin_tx (fst w) of
        (Inl e, db) \<Rightarrow> (Some (errorf ''start tx'' e), db, snd w)
      | (Inr tx, db) \<Rightarrow>
          (case performMigrationImpl sql tx m db of
             (Some e, db1) \<Rightarrow> (Some (errorf ''migration failed'' e), tx_Rollback tx db1, snd w)
           | (None, db1) \<Rightarrow>
               (case tx_Commit tx db1 of
                  (Some e, db2) \<Rightarrow> (Some (errorf ''commit tx'' e), db2, snd w)
                | (None, db2) \<Rightarrow>
                    (None, db2, snd w @ (case slog_write (log_WithField lg ''migrationID'' (FStr (mg_ID m))) (Some (cx_log ctx)) LevelInfo
                       ''migration executed successfully'' of Returns os \<Rightarrow> os | Panics \<Rightarrow> [])))))"

text \<open>The identifiers of the performed migrations; none when the table does not exist.\<close>

definition getPerformedMigrationIDs :: "sql_ctx \<Rightarrow> dbms \<Rightarrow> (go_error + string list) \<times> dbms" where
  "getPerformedMigrationIDs ctx db =
     (case run_call (route_of ctx)
        (\<lambda>d. (case t_migration (db_view (route_of ctx) d) of None \<Rightarrow> Inl undefined_table | Some ids \<Rightarrow> Inr ids, d)) db of
        (Inl e, db') \<Rightarrow> (if error_is e (Opaque 42) then Inr [] else Inl e, db')
      | (Inr ids, db') \<Rightarrow> (Inr ids, db'))"

fun perform_each :: "sql_meaning \<Rightarrow> logger \<Rightarrow> sql_ctx \<Rightarrow> string list \<Rightarrow> migration list \<Rightarrow> (obs list, err) action" where
  "perform_each sql lg ctx performed [] w = (None, w)"
| "perform_each sql lg ctx performed (m # ms) w =
     (if mg_ID m \<in> set performed then perform_each sql lg ctx performed ms w
      else case performMigration sql lg ctx m w of
             (Some e, w') \<Rightarrow> (Some e, w')
           | (None, w') \<Rightarrow> perform_each sql lg ctx performed ms w')"

definition performMigrations :: "sql_meaning \<Rightarrow> logger \<Rightarrow> sql_ctx \<Rightarrow> migration list \<Rightarrow> (obs list, err) action" where
  "performMigrations sql lg ctx migrations w =
     (case getPerformedMigrationIDs ctx (fst w) of
        (Inl e, db) \<Rightarrow> (Some (errorf ''get performed migrations'' e), db, snd w)
      | (Inr performed, db) \<Rightarrow> perform_each sql lg ctx performed migrations (db, snd w))"

fun gather_migrations :: "migration_source list \<Rightarrow> go_error + migration list" where
  "gather_migrations [] = Inr []"
| "gather_migrations (source # sources) =
     (case source of
        Inl e \<Rightarrow> Inl (errorf ''get migrations from source'' e)
      | Inr ms \<Rightarrow> (case gather_migrations sources of Inl e \<Rightarrow> Inl e | Inr rest \<Rightarrow> Inr (ms @ rest)))"

definition migrator_Execute ::
    "sql_meaning \<Rightarrow> (migration list \<Rightarrow> migration list) \<Rightarrow> logger \<Rightarrow> sql_ctx \<Rightarrow> migration_source list \<Rightarrow> (obs list, err) action" where
  "migrator_Execute sql sort_migrations lg ctx sources w =
     (if sources = [] then (None, w)
      else case gather_migrations (sources @ [migrationTableDDL]) of
             Inl e \<Rightarrow> (Some e, w)
           | Inr gathered \<Rightarrow>
               (let migrations = sort_migrations gathered in
                case withSessionLevelLock ctx migrationLockName (fst w) of
                  (Inl e, db) \<Rightarrow> (Some (errorf ''get migration lock'' e), db, snd w)
                | (Inr (ctx', lock), db) \<Rightarrow>
                    (case performMigrations sql lg ctx' migrations (db, snd w) of
                       (e, db1, os) \<Rightarrow>
                         (case releaseSessionLock lock db1 of
                            (None, db2) \<Rightarrow> (e, db2, os)
                          | (Some re, db2) \<Rightarrow>
                              (e, db2, os @ (case log_Error (log_WithError lg (Some re)) (Some (cx_log ctx')) ''failed to release migration lock''
                                 of Returns xs \<Rightarrow> xs | Panics \<Rightarrow> []))))))"

definition MustRegister ::
    "sql_meaning \<Rightarrow> (migration list \<Rightarrow> migration list) \<Rightarrow> logger \<Rightarrow> sql_ctx \<Rightarrow> migration_source list \<Rightarrow> (obs list, unit outcome) action" where
  "MustRegister sql sort_migrations lg ctx sources w =
     (if sources = [] then (Returns (), w)
      else case migrator_Execute sql sort_migrations lg ctx sources w of
             (None, w') \<Rightarrow> (Returns (), w')
           | (Some e, w') \<Rightarrow> (Panics, w'))"

section \<open>Each migration is applied as a whole, in order, once\<close>

text \<open>What a migration does to the tables when it is carried out, and which of them are left to do.\<close>

definition apply_migration :: "sql_meaning \<Rightarrow> migration \<Rightarrow> tables \<Rightarrow> tables" where
  "apply_migration sql m t =
     snd (migration_record_stmt (mg_ID m)) (fold (\<lambda>q. snd (sql q)) (splitIntoQueries (trim_space (mg_SQL m))) t)"

definition performed_ids :: "tables \<Rightarrow> string list" where
  "performed_ids t = (case t_migration t of None \<Rightarrow> [] | Some ids \<Rightarrow> ids)"

definition pending :: "string list \<Rightarrow> migration list \<Rightarrow> migration list" where
  "pending ids ms = filter (\<lambda>m. mg_ID m \<notin> set ids) ms"

text \<open>The errors of a connection are not the server's report of a missing table.\<close>

definition connection_errors_ok :: "dbms \<Rightarrow> bool" where
  "connection_errors_ok db \<longleftrightarrow> (\<forall>n e. db_fault db n = LostRequest e \<or> db_fault db n = LostReply e \<longrightarrow> \<not> error_is e (Opaque 42))"

lemma run_exec_tx_ok:
  assumes "run_exec (ViaTx tx) st db = (Inr n, db')" and "db_open db tx = Some ws"
  shows "\<exists>ws'. db_open db' tx = Some ws' \<and> db_tables db' = db_tables db \<and> fst st (db_view (ViaTx tx) db) = Inr n
    \<and> db_view (ViaTx tx) db' = snd st (db_view (ViaTx tx) db)"
  using assms
  by (auto simp: run_exec_def call_defs tx_done_def db_view_def db_write_def apply_log_def split: fault.splits sum.splits if_splits)

lemma exec_queries_tx:
  "exec_queries sql tx qs db = (e, db') \<Longrightarrow> db_open db tx = Some ws \<Longrightarrow>
    (\<exists>ws'. db_open db' tx = Some ws') \<and> db_tables db' = db_tables db
    \<and> (e = None \<longrightarrow> db_view (ViaTx tx) db' = fold (\<lambda>q. snd (sql q)) qs (db_view (ViaTx tx) db))"
proof (induction qs arbitrary: db ws)
  case (Cons q qs)
  obtain r db1 where r: "run_exec (ViaTx tx) (sql q) db = (r, db1)" by force
  show ?case
  proof (cases r)
    case (Inl x)
    then show ?thesis using Cons.prems r tx_stays_run_exec [OF r] by (auto simp: tx_stays_def)
  next
    case (Inr n)
    from run_exec_tx_ok [OF r [unfolded Inr] Cons.prems(2)] obtain ws1 where
      "db_open db1 tx = Some ws1" "db_tables db1 = db_tables db" "db_view (ViaTx tx) db1 = snd (sql q) (db_view (ViaTx tx) db)" by blast
    moreover have "exec_queries sql tx qs db1 = (e, db')" using Cons.prems(1) r Inr by simp
    ultimately show ?thesis using Cons.IH [of db1 ws1] by simp
  qed
qed auto

lemma performMigrationImpl_tx:
  assumes "performMigrationImpl sql tx m db = (e, db')" and "db_open db tx = Some ws"
  shows "db_tables db' = db_tables db
    \<and> (e = None \<longrightarrow> db_view (ViaTx tx) db' = apply_migration sql m (db_view (ViaTx tx) db)
         \<and> t_migration (fold (\<lambda>q. snd (sql q)) (splitIntoQueries (trim_space (mg_SQL m))) (db_view (ViaTx tx) db)) \<noteq> None)"
proof (cases "trim_space (mg_SQL m) = []")
  case True
  then show ?thesis using assms by (auto simp: performMigrationImpl_def)
next
  case False
  obtain f db1 where f: "exec_queries sql tx (splitIntoQueries (trim_space (mg_SQL m))) db = (f, db1)" by force
  from exec_queries_tx [OF f assms(2)] obtain ws1 where
    q: "db_open db1 tx = Some ws1" "db_tables db1 = db_tables db"
      "f = None \<longrightarrow> db_view (ViaTx tx) db1 = fold (\<lambda>q. snd (sql q)) (splitIntoQueries (trim_space (mg_SQL m))) (db_view (ViaTx tx) db)" by blast
  obtain r db2 where r: "run_exec (ViaTx tx) (migration_record_stmt (mg_ID m)) db1 = (r, db2)" by force
  show ?thesis
  proof (cases "f = None")
    case fNone: True
    then have c: "createMigrationRecord tx (mg_ID m) db1 = (e, db')" using assms(1) False f by (simp add: performMigrationImpl_def)
    show ?thesis
    proof (cases r)
      case (Inl x)
      then show ?thesis using c r q tx_stays_run_exec [OF r] by (auto simp: createMigrationRecord_def tx_stays_def)
    next
      case (Inr n)
      from run_exec_tx_ok [OF r [unfolded Inr] q(1)] q fNone c r Inr show ?thesis
        by (auto simp: createMigrationRecord_def apply_migration_def migration_record_stmt_def split: option.splits)
    qed
  qed (use assms False f q in \<open>auto simp: performMigrationImpl_def\<close>)
qed

lemma performMigration_tables:
  assumes "performMigration sql lg ctx m (db, os) = (e, db', os')"
  shows "db_tables db' = db_tables db \<and> e \<noteq> None
    \<or> db_tables db' = apply_migration sql m (db_tables db)
      \<and> t_migration (fold (\<lambda>q. snd (sql q)) (splitIntoQueries (trim_space (mg_SQL m))) (db_tables db)) \<noteq> None"
proof -
  obtain b db1 where b: "begin_tx db = (b, db1)" by force
  show ?thesis
  proof (cases b)
    case (Inl x)
    then show ?thesis using assms b begin_tx_error [of db x db1] by (auto simp: performMigration_def)
  next
    case (Inr tx)
    have o: "db_open db1 tx = Some []" "db_tables db1 = db_tables db" using begin_tx_ok b Inr by auto
    then have view: "db_view (ViaTx tx) db1 = db_tables db" by (simp add: db_view_def apply_log_def)
    obtain f db2 where f: "performMigrationImpl sql tx m db1 = (f, db2)" by force
    note impl = performMigrationImpl_tx [OF f o(1), unfolded view o(2)]
    obtain g db3 where g: "tx_Commit tx db2 = (g, db3)" by force
    show ?thesis
    proof (cases f)
      case (Some x)
      then show ?thesis using assms b Inr f impl by (auto simp: performMigration_def)
    next
      case None
      then show ?thesis using assms b Inr f impl g tx_Commit_ok [of tx db2 db3] tx_Commit_error [of tx db2 _ db3]
        by (cases g) (auto simp: performMigration_def)
    qed
  qed
qed

text \<open>The queries of the migrations \<open>ms\<close> create the table of migrations at most, and leave its content alone.\<close>

definition migration_queries :: "migration \<Rightarrow> string list" where
  "migration_queries m = splitIntoQueries (trim_space (mg_SQL m))"

definition keeps_migration_table :: "sql_meaning \<Rightarrow> migration list \<Rightarrow> bool" where
  "keeps_migration_table sql ms \<longleftrightarrow>
     (\<forall>m \<in> set ms. \<forall>q \<in> set (migration_queries m). \<forall>t.
        t_migration (snd (sql q) t) = t_migration t \<or> t_migration t = None \<and> t_migration (snd (sql q) t) = Some [])"

lemma queries_keep_ids:
  assumes "\<forall>q \<in> set qs. \<forall>t. t_migration (snd (sql q) t) = t_migration t \<or> t_migration t = None \<and> t_migration (snd (sql q) t) = Some []"
  shows "performed_ids (fold (\<lambda>q. snd (sql q)) qs t) = performed_ids t"
  using assms
proof (induction qs arbitrary: t)
  case (Cons q qs)
  have "performed_ids (snd (sql q) t) = performed_ids t"
    using Cons.prems [THEN bspec, of q, THEN spec, of t] by (auto simp: performed_ids_def)
  with Cons show ?case by simp
qed simp

lemma apply_migration_ids:
  assumes "keeps_migration_table sql [m]" and "t_migration (fold (\<lambda>q. snd (sql q)) (splitIntoQueries (trim_space (mg_SQL m))) t) \<noteq> None"
  shows "performed_ids (apply_migration sql m t) = performed_ids t @ [mg_ID m]"
  using queries_keep_ids [of "migration_queries m" sql t] assms
  by (auto simp: apply_migration_def migration_record_stmt_def performed_ids_def keeps_migration_table_def migration_queries_def)

lemma perform_each_tables:
  assumes "keeps_migration_table sql ms" and "perform_each sql lg ctx performed ms (db, os) = (e, db', os')"
  shows "\<exists>k \<le> length (pending performed ms). db_tables db' = fold (apply_migration sql) (take k (pending performed ms)) (db_tables db)
    \<and> (e = None \<longrightarrow> k = length (pending performed ms))
    \<and> performed_ids (db_tables db') = performed_ids (db_tables db) @ map mg_ID (take k (pending performed ms))"
  using assms
proof (induction ms arbitrary: db os)
  case Nil
  then show ?case by (simp add: pending_def)
next
  case (Cons m ms)
  show ?case
  proof (cases "mg_ID m \<in> set performed")
    case True
    then have "pending performed (m # ms) = pending performed ms" by (simp add: pending_def)
    then show ?thesis using Cons True by (simp add: keeps_migration_table_def)
  next
    case False
    then have todo: "pending performed (m # ms) = m # pending performed ms" by (simp add: pending_def)
    obtain f db1 os1 where f: "performMigration sql lg ctx m (db, os) = (f, db1, os1)" by (metis surj_pair)
    note tables = performMigration_tables [OF f]
    show ?thesis
    proof (cases "db_tables db1 = apply_migration sql m (db_tables db)
        \<and> t_migration (fold (\<lambda>q. snd (sql q)) (splitIntoQueries (trim_space (mg_SQL m))) (db_tables db)) \<noteq> None")
      case applied: True
      then have ids: "performed_ids (db_tables db1) = performed_ids (db_tables db) @ [mg_ID m]"
        using apply_migration_ids [of sql m "db_tables db"] Cons.prems(1) by (simp add: keeps_migration_table_def)
      show ?thesis
      proof (cases f)
        case (Some x)
        then have "e = Some x" "db' = db1" using Cons.prems(2) False f by simp_all
        with applied ids todo show ?thesis by (intro exI [of _ 1]) simp
      next
        case None
        then have "perform_each sql lg ctx performed ms (db1, os1) = (e, db', os')" using Cons.prems(2) False f by simp
        moreover have "keeps_migration_table sql ms" using Cons.prems(1) by (simp add: keeps_migration_table_def)
        ultimately obtain k where "k \<le> length (pending performed ms)"
          "db_tables db' = fold (apply_migration sql) (take k (pending performed ms)) (db_tables db1)"
          "e = None \<longrightarrow> k = length (pending performed ms)"
          "performed_ids (db_tables db') = performed_ids (db_tables db1) @ map mg_ID (take k (pending performed ms))" using Cons.IH by blast
        with applied ids todo show ?thesis by (intro exI [of _ "Suc k"]) simp
      qed
    next
      case False': False
      then obtain x where "f = Some x" "db_tables db1 = db_tables db" using tables by auto
      moreover have "e = f" "db' = db1" using Cons.prems(2) False f calculation by simp_all
      ultimately show ?thesis by (intro exI [of _ 0]) simp
    qed
  qed
qed

lemma performed_query:
  assumes "getPerformedMigrationIDs ctx db = (r, db')" and "cx_tx ctx = None" and "connection_errors_ok db"
  shows "db_tables db' = db_tables db \<and> (\<forall>ids. r = Inr ids \<longrightarrow> ids = performed_ids (db_tables db))"
proof -
  have "\<not> tx_done (route_of ctx) d" for d using route_no_tx [OF assms(2)] by (auto simp: tx_done_def)
  then show ?thesis
    using assms db_view_no_tx [OF assms(2)]
    by (auto simp: getPerformedMigrationIDs_def call_defs performed_ids_def connection_errors_ok_def undefined_table_def
        split: option.splits fault.splits if_splits sum.splits prod.splits)
qed

lemma session_lock_fault: "withSessionLevelLock ctx name db = (r, db') \<Longrightarrow> db_fault db' = db_fault db"
  by (auto simp: withSessionLevelLock_def WithinSingleConnection_def open_conn_def Let_def
      pg_advisory_lock_def call_defs cancel_conn_def close_conn_def
      split: fault.splits sum.splits if_splits prod.splits option.splits)

lemma Execute_tables:
  assumes "keeps_migration_table sql (srt gathered)" and "cx_tx ctx = None" and "connection_errors_ok db"
    and "migrator_Execute sql srt lg ctx sources (db, os) = (e, db', os')"
    and gathered: "gather_migrations (sources @ [migrationTableDDL]) = Inr gathered" and "sources \<noteq> []"
  defines "todo \<equiv> pending (performed_ids (db_tables db)) (srt gathered)"
  shows "\<exists>k \<le> length todo. db_tables db' = fold (apply_migration sql) (take k todo) (db_tables db)
    \<and> (e = None \<longrightarrow> k = length todo) \<and> performed_ids (db_tables db') = performed_ids (db_tables db) @ map mg_ID (take k todo)"
proof -
  obtain l db1 where l: "withSessionLevelLock ctx migrationLockName db = (l, db1)" by force
  note t1 = session_lock_tables [OF l]
  show ?thesis
  proof (cases l)
    case (Inl x)
    then have "db_tables db' = db_tables db" "e \<noteq> None" using assms(4,6) gathered l t1 by (auto simp: migrator_Execute_def)
    then show ?thesis by (intro exI [of _ 0]) auto
  next
    case (Inr p)
    then obtain ctx' lock where p: "l = Inr (ctx', lock)" by (cases p) simp
    have ctx': "cx_tx ctx' = None" and faults: "connection_errors_ok db1"
      using session_lock_ctx [OF l [unfolded p]] session_lock_fault [OF l] assms(2,3) by (simp_all add: connection_errors_ok_def)
    obtain f db2 os2 where f: "performMigrations sql lg ctx' (srt gathered) (db1, os) = (f, db2, os2)" by (metis surj_pair)
    obtain re db3 where re: "releaseSessionLock lock db2 = (re, db3)" by force
    have out: "e = f" "db' = db3"
      using assms(4,6) gathered l p f re by (auto simp: migrator_Execute_def Let_def split: option.splits)
    obtain g db4 where g: "getPerformedMigrationIDs ctx' db1 = (g, db4)" by force
    note pq = performed_query [OF g ctx' faults]
    show ?thesis
    proof (cases g)
      case (Inl x)
      then have "db_tables db' = db_tables db" "e \<noteq> None"
        using f g pq t1 release_tables [OF re] out by (auto simp: performMigrations_def)
      then show ?thesis by (intro exI [of _ 0]) auto
    next
      case (Inr ids)
      then have ids: "ids = performed_ids (db_tables db)" "db_tables db4 = db_tables db" using pq t1 by simp_all
      have "perform_each sql lg ctx' ids (srt gathered) (db4, os) = (f, db2, os2)" using f g Inr by (simp add: performMigrations_def)
      from perform_each_tables [OF assms(1) this] show ?thesis
        using ids out release_tables [OF re] by (simp add: todo_def)
    qed
  qed
qed

text \<open>
  C25. The migrator, whatever the database does: the migrations that were not performed before are applied in the order of their identifiers, each with its
  record and as a whole or not at all, up to the first failure; a run without an error has applied all of them, the records are exactly
  those of the applied ones, and a further run of the same sources on the resulting tables changes nothing.  Of what the queries of these
  migrations mean only this is assumed: they may create the table of migrations, and leave its rows alone.
\<close>

theorem migrations_applied_once:
  assumes "keeps_migration_table sql gathered" and "cx_tx ctx = None" and "connection_errors_ok db" and "sources \<noteq> []"
    and "\<forall>ms. mset (srt ms) = mset ms \<and> sorted (map mg_ID (srt ms))"
    and "gather_migrations (sources @ [migrationTableDDL]) = Inr gathered"
    and "migrator_Execute sql srt lg ctx sources (db, os) = (e, db', os')"
  defines "todo \<equiv> pending (performed_ids (db_tables db)) (srt gathered)"
  shows "sorted (map mg_ID todo) \<and> set todo = {m \<in> set gathered. mg_ID m \<notin> set (performed_ids (db_tables db))}
    \<and> (\<exists>k \<le> length todo. db_tables db' = fold (apply_migration sql) (take k todo) (db_tables db)
        \<and> performed_ids (db_tables db') = performed_ids (db_tables db) @ map mg_ID (take k todo) \<and> (e = None \<longrightarrow> k = length todo))
    \<and> (e = None \<and> db_tables db2 = db_tables db' \<and> connection_errors_ok db2 \<longrightarrow>
        db_tables (fst (snd (migrator_Execute sql srt lg ctx sources (db2, os2)))) = db_tables db')"
proof (intro conjI impI)
  have srt: "set (srt gathered) = set gathered" "sorted (map mg_ID (srt gathered))" using assms(5) by (metis set_mset_mset, metis)
  then show "sorted (map mg_ID todo)" unfolding todo_def pending_def by (simp add: sorted_filter)
  show "set todo = {m \<in> set gathered. mg_ID m \<notin> set (performed_ids (db_tables db))}"
    using srt(1) by (auto simp: todo_def pending_def)
  have keeps: "keeps_migration_table sql (srt gathered)" using assms(1) srt(1) by (simp add: keeps_migration_table_def)
  note run = Execute_tables [OF keeps assms(2,3) assms(7,6,4)]
  then show "\<exists>k \<le> length todo. db_tables db' = fold (apply_migration sql) (take k todo) (db_tables db)
        \<and> performed_ids (db_tables db') = performed_ids (db_tables db) @ map mg_ID (take k todo) \<and> (e = None \<longrightarrow> k = length todo)"
    unfolding todo_def by blast
  assume again: "e = None \<and> db_tables db2 = db_tables db' \<and> connection_errors_ok db2"
  obtain e3 db3 os3 where r3: "migrator_Execute sql srt lg ctx sources (db2, os2) = (e3, db3, os3)" by (metis surj_pair)
  have "performed_ids (db_tables db2) = performed_ids (db_tables db) @ map mg_ID todo" using run again unfolding todo_def by auto
  then have "pending (performed_ids (db_tables db2)) (srt gathered) = []"
    by (auto simp: pending_def todo_def filter_empty_conv)
  with Execute_tables [OF keeps assms(2) _ r3 assms(6,4)] again r3
  show "db_tables (fst (snd (migrator_Execute sql srt lg ctx sources (db2, os2)))) = db_tables db'" by simp
qed

text \<open>An example: two migrations given in the wrong order; their queries and the creation of the table are all a query text can mean.\<close>

definition example_sql :: sql_meaning where
  "example_sql q =
     (if take 12 q = ''create table'' then (\<lambda>t. Inr 0, \<lambda>t. t\<lparr>t_migration := Some (performed_ids t)\<rparr>)
      else (\<lambda>t. Inr 1, \<lambda>t. t\<lparr>t_user_profile := t_user_profile t @ [\<lparr>pr_user_id = 0, pr_first_name = q, pr_last_name = []\<rparr>]\<rparr>))"

definition example_source :: migration_source where
  "example_source = Inr [\<lparr>mg_ID = ''2024-b'', mg_SQL = ''second''\<rparr>, \<lparr>mg_ID = ''2024-a'', mg_SQL = ''first;'' @ [CHR 0x0A] @ ''then''\<rparr>]"

definition example_migrated :: "err \<times> dbms \<times> obs list" where
  "example_migrated = migrator_Execute example_sql (sort_key mg_ID) LoggerStub background [example_source] (calm_db empty_tables, [])"

lemma example_migrated_result:
  "fst example_migrated = None \<and> map pr_first_name (t_user_profile (db_tables (fst (snd example_migrated)))) = [''first'', ''then'', ''second'']"
  unfolding example_migrated_def by code_simp

theorem migrations_applied_once_witness:
  "performed_ids (db_tables (fst (snd example_migrated))) = [''0000-00-00-000-create-migration-table'', ''2024-a'', ''2024-b'']
   \<and> db_tables (fst (snd (migrator_Execute example_sql (sort_key mg_ID) LoggerStub background [example_source]
       (calm_db (db_tables (fst (snd example_migrated))), []))))
     = db_tables (fst (snd example_migrated))"
proof -
  obtain db' os' where run: "migrator_Execute example_sql (sort_key mg_ID) LoggerStub background [example_source] (calm_db empty_tables, []) = (None, db', os')"
    and em: "example_migrated = (None, db', os')"
    using example_migrated_result unfolding example_migrated_def by (metis prod.collapse)
  have keeps: "keeps_migration_table example_sql ms" for ms
    by (auto simp: keeps_migration_table_def example_sql_def performed_ids_def split: option.splits)
  have srt: "\<forall>ms. mset (sort_key mg_ID ms) = mset ms \<and> sorted (map mg_ID (sort_key mg_ID ms))" by simp
  obtain gathered where g: "gather_migrations ([example_source] @ [migrationTableDDL]) = Inr gathered"
    and todo: "map mg_ID (sort_key mg_ID gathered) = [''0000-00-00-000-create-migration-table'', ''2024-a'', ''2024-b'']"
    by (rule that [of "projr (gather_migrations ([example_source] @ [migrationTableDDL]))"]) code_simp+
  have ok: "cx_tx background = None" "connection_errors_ok (calm_db empty_tables)" "performed_ids (db_tables (calm_db empty_tables)) = []"
    by (simp_all add: background_def connection_errors_ok_def calm_db_def empty_tables_def performed_ids_def)
  have ne: "[example_source] \<noteq> []" by simp
  note once = migrations_applied_once [OF keeps ok(1,2) ne srt g run]
  have all: "pending [] ms = ms" for ms by (simp add: pending_def)
  have ok2: "connection_errors_ok (calm_db (db_tables db'))" "db_tables (calm_db (db_tables db')) = db_tables db'"
    by (simp_all add: connection_errors_ok_def calm_db_def)
  have ex: "fst (snd example_migrated) = db'" unfolding em by simp
  have ids: "performed_ids (db_tables db') = map mg_ID (sort_key mg_ID gathered)"
    using once [of "calm_db (db_tables db')" "[]"] ok(3) all by auto
  have same: "db_tables (fst (snd (migrator_Execute example_sql (sort_key mg_ID) LoggerStub background [example_source]
       (calm_db (db_tables db'), [])))) = db_tables db'"
    using once [of "calm_db (db_tables db')" "[]", THEN conjunct2, THEN conjunct2, THEN conjunct2] ok2 by blast
  show ?thesis unfolding ex using ids todo same by simp
qed

end
