(* ===== verification/Lazy_Loader.thy ===== *)
theory Lazy_Loader
  imports Go_Prelude
begin

text \<open>
  \<^verbatim>\<open>pkg/lazy/loader.go\<close>.  A loader's provider acts on a world and returns a value and an error, or panics.
  \<^verbatim>\<open>sync.Once\<close> counts the call as done even when its function panics.
\<close>

record 't loader =
  lo_onceLoad :: bool
  lo_isLoaded :: bool
  lo_value :: 't
  lo_err :: err

type_synonym ('t, 'w) provider = "'w \<Rightarrow> (go_error + 't) outcome \<times> 'w"

definition lazy_New :: "'t \<Rightarrow> 't loader" where
  "lazy_New zero = \<lparr>lo_onceLoad = False, lo_isLoaded = False, lo_value = zero, lo_err = None\<rparr>"

definition Load :: "('t, 'w) provider \<Rightarrow> 't loader \<Rightarrow> 'w \<Rightarrow> ('t \<times> err) outcome \<times> 't loader \<times> 'w" where
  "Load provider l w =
     (if lo_onceLoad l then (Returns (lo_value l, lo_err l), l, w)
      else case provider w of
             (Panics, w') \<Rightarrow> (Panics, l\<lparr>lo_onceLoad := True\<rparr>, w')
           | (Returns (Inl e), w') \<Rightarrow>
               (let l' = l\<lparr>lo_onceLoad := True, lo_err := Some (errorf ''load value'' e)\<rparr>
                in (Returns (lo_value l', lo_err l'), l', w'))
           | (Returns (Inr v), w') \<Rightarrow>
               (let l' = l\<lparr>lo_onceLoad := True, lo_isLoaded := True, lo_value := v\<rparr>
                in (Returns (lo_value l', lo_err l'), l', w')))"

definition MustLoad :: "('t, 'w) provider \<Rightarrow> 't loader \<Rightarrow> 'w \<Rightarrow> 't outcome \<times> 't loader \<times> 'w" where
  "MustLoad provider l w =
     (case Load provider l w of
        (Returns (v, None), l', w') \<Rightarrow> (Returns v, l', w')
      | (_, l', w') \<Rightarrow> (Panics, l', w'))"

definition IfLoaded :: "('t \<Rightarrow> 'w \<Rightarrow> 'w) \<Rightarrow> 't loader \<Rightarrow> 'w \<Rightarrow> 'w" where
  "IfLoaded f l w = (if lo_isLoaded l then f (lo_value l) w else w)"

section \<open>Properties\<close>

text \<open>Any number of calls of \<^verbatim>\<open>Load\<close>, in order: their results, the loader and the world.\<close>

fun loads :: "('t, 'w) provider \<Rightarrow> nat \<Rightarrow> 't loader \<Rightarrow> 'w \<Rightarrow> ('t \<times> err) outcome list \<times> 't loader \<times> 'w" where
  "loads provider 0 l w = ([], l, w)"
| "loads provider (Suc n) l w =
     (case Load provider l w of (r, l', w') \<Rightarrow>
        (case loads provider n l' w' of (rs, l'', w'') \<Rightarrow> (r # rs, l'', w'')))"

lemma loads_done:
  "lo_onceLoad l \<Longrightarrow> loads provider n l w = (replicate n (Returns (lo_value l, lo_err l)), l, w)"
  by (induction n) (simp_all add: Load_def)

definition loaded_result :: "'t \<Rightarrow> (go_error + 't) outcome \<Rightarrow> ('t \<times> err) outcome" where
  "loaded_result zero r = (case r of
     Panics \<Rightarrow> Panics
   | Returns (Inl e) \<Rightarrow> Returns (zero, Some (errorf ''load value'' e))
   | Returns (Inr v) \<Rightarrow> Returns (v, None))"

text \<open>
  C36. A provider runs exactly once, at the first \<^verbatim>\<open>Load\<close>, and every later call gives the result of the first
  without touching the world - unless the first call panicked: then every later call returns the zero
  value with a nil error, and \<^verbatim>\<open>MustLoad\<close> hands that zero value out.  \<^verbatim>\<open>IfLoaded\<close> acts only after a
  successful load, on the loaded value.
\<close>

theorem lazy_provider_runs_once:
  assumes "provider w = (r, w')"
  shows "\<exists>l. loads provider (Suc n) (lazy_New zero) w
      = (loaded_result zero r # replicate n (case r of Panics \<Rightarrow> Returns (zero, None) | _ \<Rightarrow> loaded_result zero r), l, w')
    \<and> (\<forall>w2. MustLoad provider l w2 = (case r of Returns (Inl e) \<Rightarrow> Panics | Returns (Inr v) \<Rightarrow> Returns v | Panics \<Rightarrow> Returns zero, l, w2))
    \<and> (\<forall>f w2. IfLoaded f l w2 = (case r of Returns (Inr v) \<Rightarrow> f v w2 | _ \<Rightarrow> w2))
    \<and> (\<forall>f w2. IfLoaded f (lazy_New zero) w2 = w2)"
  using assms
  by (cases r) (auto simp: Load_def lazy_New_def MustLoad_def IfLoaded_def loaded_result_def loads_done split: sum.splits)

definition failing_provider :: "(string, nat) provider" where
  "failing_provider n = (Panics, Suc n)"

theorem lazy_provider_runs_once_witness:
  "\<exists>l. loads failing_provider 2 (lazy_New []) 0 = ([Panics, Returns ([], None)], l, 1)"
proof -
  have "failing_provider 0 = (Panics, 1)" by (simp add: failing_provider_def)
  from lazy_provider_runs_once [of failing_provider 0 Panics 1 1 "[]", OF this] show ?thesis
    by (auto simp: loaded_result_def numeral_2_eq_2 simp del: loads.simps)
qed

end
