(* ===== verification/Infrastructure.thy ===== *)
theory Infrastructure
  imports Typed_Value Lazy_Loader Log_Model
begin

text \<open>
  The ground of every process: \<^verbatim>\<open>pkg/sql/database.go\<close>, which opens the pool of connections, and the providers of
  \<^verbatim>\<open>internal/pkg/cmd/container.go\<close> that read the environment, with the end of the process in \<^verbatim>\<open>InfrastructureContainer.Close\<close>.

  The driver and \<^verbatim>\<open>backoff.Retry\<close> are arguments.
\<close>

section \<open>Opening the database\<close>

record sql_dsn =
  dsn_User :: string
  dsn_Password :: string
  dsn_Address :: string
  dsn_Database :: string

definition DSN_String :: "sql_dsn \<Rightarrow> string" where
  "DSN_String d = ''postgresql://'' @ dsn_User d @ '':'' @ dsn_Password d @ ''@'' @ dsn_Address d @ ''/'' @ dsn_Database d @ ''?sslmode=disable''"

record sql_config =
  cfg_DSN :: sql_dsn
  cfg_MaxOpenConnections :: int
  cfg_MaxIdleConnections :: int
  cfg_ConnectionTimeout :: int

definition time_second :: int where
  "time_second = 1000000000"

definition defaultConnectionTimeout :: int where
  "defaultConnectionTimeout = 10 * time_second"

record backoff_options =
  bo_InitialInterval :: int
  bo_Multiplier :: int
  bo_MaxInterval :: int
  bo_MaxElapsedTime :: int

text \<open>The methods of \<^verbatim>\<open>sqlx.DB\<close>, a pool \<^typ>\<open>'c\<close>, on a world \<^typ>\<open>'d\<close>.\<close>

record ('c, 'd) sql_driver =
  dr_Open :: "string \<Rightarrow> 'd \<Rightarrow> (go_error + 'c) \<times> 'd"
  dr_Ping :: "'c \<Rightarrow> 'd \<Rightarrow> err \<times> 'd"
  dr_Close :: "'c \<Rightarrow> 'd \<Rightarrow> err \<times> 'd"
  dr_SetMaxOpenConns :: "'c \<Rightarrow> int \<Rightarrow> 'd \<Rightarrow> 'd"
  dr_SetMaxIdleConns :: "'c \<Rightarrow> int \<Rightarrow> 'd \<Rightarrow> 'd"

type_synonym 'd retry = "backoff_options \<Rightarrow> ('d \<Rightarrow> err \<times> 'd) \<Rightarrow> 'd \<Rightarrow> err \<times> 'd"

text \<open>Durations are divided as integers, towards zero.\<close>

definition openConnection :: "('c, 'd) sql_driver \<Rightarrow> 'd retry \<Rightarrow> sql_config \<Rightarrow> 'd \<Rightarrow> (go_error + 'c) \<times> 'd" where
  "openConnection D retry config d =
     (case dr_Open D (DSN_String (cfg_DSN config)) d of
        (Inl e, d1) \<Rightarrow> (Inl e, d1)
      | (Inr db, d1) \<Rightarrow>
          (case retry \<lparr>bo_InitialInterval = time_second, bo_Multiplier = 2, bo_MaxInterval = cfg_ConnectionTimeout config div 4,
                bo_MaxElapsedTime = cfg_ConnectionTimeout config\<rparr> (dr_Ping D db) d1 of
             (Some e, d2) \<Rightarrow> (Inl e, snd (dr_Close D db d2))
           | (None, d2) \<Rightarrow> (Inr db, d2)))"

definition NewDatabase :: "('c, 'd) sql_driver \<Rightarrow> 'd retry \<Rightarrow> sql_config \<Rightarrow> 'd \<Rightarrow> (go_error + 'c) \<times> 'd" where
  "NewDatabase D retry config d =
     (let config = (if cfg_ConnectionTimeout config \<le> 0 then config\<lparr>cfg_ConnectionTimeout := defaultConnectionTimeout\<rparr> else config)
      in case openConnection D retry config d of
           (Inl e, d1) \<Rightarrow> (Inl e, d1)
         | (Inr db, d1) \<Rightarrow>
             (Inr db, dr_SetMaxIdleConns D db (cfg_MaxIdleConnections config) (dr_SetMaxOpenConns D db (cfg_MaxOpenConnections config) d1)))"

text \<open>
  What a driver promises: pools are opened and closed one at a time, and nothing else opens or closes one.  \<open>pools\<close> are the open ones.
  \<^verbatim>\<open>backoff.Retry\<close> calls its operation at least once, again only after an error, and succeeds only with the operation.
\<close>

inductive attempts :: "('d \<Rightarrow> err \<times> 'd) \<Rightarrow> 'd \<Rightarrow> err \<Rightarrow> 'd \<Rightarrow> bool" for op where
  last: "op d = (e, d') \<Longrightarrow> attempts op d e d'"
| again: "op d = (Some e, d1) \<Longrightarrow> attempts op d1 e' d' \<Longrightarrow> attempts op d e' d'"

definition driver_ok :: "('c, 'd) sql_driver \<Rightarrow> ('d \<Rightarrow> 'c set) \<Rightarrow> bool" where
  "driver_ok D pools \<longleftrightarrow>
     (\<forall>s d db d'. dr_Open D s d = (Inr db, d') \<longrightarrow> db \<notin> pools d \<and> pools d' = insert db (pools d))
     \<and> (\<forall>s d e d'. dr_Open D s d = (Inl e, d') \<longrightarrow> pools d' = pools d)
     \<and> (\<forall>db d. pools (snd (dr_Ping D db d)) = pools d) \<and> (\<forall>db d. pools (snd (dr_Close D db d)) = pools d - {db})
     \<and> (\<forall>db n d. pools (dr_SetMaxOpenConns D db n d) = pools d \<and> pools (dr_SetMaxIdleConns D db n d) = pools d)"

definition retry_ok :: "'d retry \<Rightarrow> bool" where
  "retry_ok retry \<longleftrightarrow> (\<forall>opts op d e d'. retry opts op d = (e, d') \<longrightarrow> (\<exists>e'. attempts op d e' d' \<and> (e = None \<longrightarrow> e' = None)))"

lemma attempts_pools:
  assumes "driver_ok D pools" and "attempts (dr_Ping D db) d e d'"
  shows "pools d' = pools d"
proof -
  have ping: "dr_Ping D db d = (e, d') \<Longrightarrow> pools d' = pools d" for d e d' using assms(1) unfolding driver_ok_def by (metis snd_conv)
  from assms(2) show ?thesis by (induction rule: attempts.induct) (simp_all add: ping)
qed

lemma attempts_success: "attempts op d None d' \<Longrightarrow> \<exists>d1 d2. op d1 = (None, d2)"
  by (induction d "None :: err" d' rule: attempts.induct) blast+

text \<open>
  \<^verbatim>\<open>NewDatabase\<close> hands out a pool only after the server has answered a ping on it, and leaves no other pool open: on an error the one it
  opened is closed.
\<close>

theorem new_database_leaves_no_pool:
  assumes D: "driver_ok D pools" and R: "retry_ok retry" and run: "NewDatabase D retry config d = (r, d')"
  shows "case r of
      Inl e \<Rightarrow> pools d' = pools d
    | Inr db \<Rightarrow> db \<notin> pools d \<and> pools d' = insert db (pools d) \<and> (\<exists>d1 d2. dr_Ping D db d1 = (None, d2))"
proof -
  define c where "c = (if cfg_ConnectionTimeout config \<le> 0 then config\<lparr>cfg_ConnectionTimeout := defaultConnectionTimeout\<rparr> else config)"
  have run_c: "(case openConnection D retry c d of (Inl e, d1) \<Rightarrow> (Inl e, d1)
      | (Inr db, d1) \<Rightarrow> (Inr db, dr_SetMaxIdleConns D db (cfg_MaxIdleConnections c) (dr_SetMaxOpenConns D db (cfg_MaxOpenConnections c) d1))) = (r, d')"
    using run unfolding NewDatabase_def c_def Let_def .
  obtain o1 d1 where o: "dr_Open D (DSN_String (cfg_DSN c)) d = (o1, d1)" by force
  show ?thesis
  proof (cases o1)
    case (Inl e)
    then show ?thesis using run_c o D by (auto simp: openConnection_def driver_ok_def)
  next
    case (Inr db)
    let ?opts = "\<lparr>bo_InitialInterval = time_second, bo_Multiplier = 2, bo_MaxInterval = cfg_ConnectionTimeout c div 4,
        bo_MaxElapsedTime = cfg_ConnectionTimeout c\<rparr>"
    have new: "db \<notin> pools d" "pools d1 = insert db (pools d)" using D o Inr by (auto simp: driver_ok_def)
    obtain e d2 where t: "retry ?opts (dr_Ping D db) d1 = (e, d2)" by force
    with R obtain e' where a: "attempts (dr_Ping D db) d1 e' d2" "e = None \<longrightarrow> e' = None" unfolding retry_ok_def by blast
    note same = attempts_pools [OF D a(1)]
    have run': "(r, d') = (case e of Some x \<Rightarrow> (Inl x, snd (dr_Close D db d2))
      | None \<Rightarrow> (Inr db, dr_SetMaxIdleConns D db (cfg_MaxIdleConnections c) (dr_SetMaxOpenConns D db (cfg_MaxOpenConnections c) d2)))"
      using run_c o Inr t by (simp add: openConnection_def split: option.splits)
    show ?thesis
    proof (cases e)
      case None
      then show ?thesis using run' new same D attempts_success [of "dr_Ping D db" d1 d2] a by (simp add: driver_ok_def)
    next
      case (Some x)
      then show ?thesis using run' new same D by (auto simp: driver_ok_def)
    qed
  qed
qed

text \<open>The parts of a connection string can be read off it only when the separators do not occur in them: none is escaped.\<close>

lemma append_sep_inject:
  assumes "xs @ c # ys = xs' @ c # ys'" and "c \<notin> set xs" and "c \<notin> set xs'"
  shows "xs = xs' \<and> ys = ys'"
  using assms
proof (induction xs arbitrary: xs')
  case Nil
  then show ?case by (cases xs') auto
next
  case (Cons x xs)
  then show ?case by (cases xs') auto
qed

definition dsn_plain :: "sql_dsn \<Rightarrow> bool" where
  "dsn_plain d \<longleftrightarrow> CHR '':'' \<notin> set (dsn_User d) \<and> CHR ''@'' \<notin> set (dsn_Password d) \<and> CHR ''/'' \<notin> set (dsn_Address d)"

theorem dsn_unambiguous:
  assumes "dsn_plain d" and "dsn_plain d'" and "DSN_String d = DSN_String d'"
  shows "d = d'"
proof -
  have e: "dsn_User d @ CHR '':'' # dsn_Password d @ CHR ''@'' # dsn_Address d @ CHR ''/'' # dsn_Database d @ ''?sslmode=disable''
    = dsn_User d' @ CHR '':'' # dsn_Password d' @ CHR ''@'' # dsn_Address d' @ CHR ''/'' # dsn_Database d' @ ''?sslmode=disable''"
    using assms(3) by (simp add: DSN_String_def)
  from append_sep_inject [OF e] assms(1,2) have u: "dsn_User d = dsn_User d'"
    and p: "dsn_Password d @ CHR ''@'' # dsn_Address d @ CHR ''/'' # dsn_Database d @ ''?sslmode=disable''
      = dsn_Password d' @ CHR ''@'' # dsn_Address d' @ CHR ''/'' # dsn_Database d' @ ''?sslmode=disable''" by (simp_all add: dsn_plain_def)
  from append_sep_inject [OF p] assms(1,2) have "dsn_Password d = dsn_Password d'"
    and a: "dsn_Address d @ CHR ''/'' # dsn_Database d @ ''?sslmode=disable'' = dsn_Address d' @ CHR ''/'' # dsn_Database d' @ ''?sslmode=disable''"
    by (simp_all add: dsn_plain_def)
  moreover from append_sep_inject [OF a] assms(1,2) have "dsn_Address d = dsn_Address d'" "dsn_Database d = dsn_Database d'"
    by (simp_all add: dsn_plain_def)
  ultimately show ?thesis using u by simp
qed

lemma dsn_confused:
  "DSN_String \<lparr>dsn_User = ''u'', dsn_Password = ''a@b'', dsn_Address = ''host'', dsn_Database = ''db''\<rparr>
   = DSN_String \<lparr>dsn_User = ''u'', dsn_Password = ''a'', dsn_Address = ''b@host'', dsn_Database = ''db''\<rparr>"
  by (simp add: DSN_String_def)


section \<open>Providers that read the environment\<close>

definition logLevelMap :: "string \<rightharpoonup> level" where
  "logLevelMap = [''disabled'' \<mapsto> LevelDisabled, ''debug'' \<mapsto> LevelDebug, ''info'' \<mapsto> LevelInfo, ''warn'' \<mapsto> LevelWarn, ''error'' \<mapsto> LevelError]"

fun dyn_string :: "dyn \<Rightarrow> string" where
  "dyn_string (VString s) = s"
| "dyn_string v = []"

fun dyn_int :: "dyn \<Rightarrow> int" where
  "dyn_int (VInt i) = i"
| "dyn_int (VDuration i) = i"
| "dyn_int (VPtr ty v) = dyn_int v"
| "dyn_int v = 0"

definition loggerProvider :: "value_parsers \<Rightarrow> (string \<rightharpoonup> string) \<Rightarrow> (go_error + logger) outcome" where
  "loggerProvider P environ =
     (case env_Parse P environ TString ''LOG_LEVEL'' of
        Panics \<Rightarrow> Panics
      | Returns (Inl _) \<Rightarrow> Returns (Inr (log_New LevelInfo))
      | Returns (Inr v) \<Rightarrow>
          Returns (Inr (log_New (case logLevelMap (dyn_string v) of Some logLevel \<Rightarrow> logLevel | None \<Rightarrow> LevelInfo))))"

definition and_then :: "'a outcome \<Rightarrow> ('a \<Rightarrow> 'b outcome) \<Rightarrow> 'b outcome" where
  "and_then r f = (case r of Panics \<Rightarrow> Panics | Returns v \<Rightarrow> f v)"

text \<open>The configuration that \<^verbatim>\<open>sqlDatabaseProvider\<close> reads; a variable that is missing or does not parse panics.\<close>

definition sql_config_of :: "value_parsers \<Rightarrow> (string \<rightharpoonup> string) \<Rightarrow> sql_config outcome" where
  "sql_config_of P environ =
     and_then (env_Must (env_Parse P environ TString ''SQL_USER'')) (\<lambda>user.
     and_then (env_Must (env_Parse P environ TString ''SQL_PASSWORD'')) (\<lambda>password.
     and_then (env_Must (env_Parse P environ TString ''SQL_ADDRESS'')) (\<lambda>address.
     and_then (env_Must (env_Parse P environ TString ''SQL_DATABASE'')) (\<lambda>database.
     and_then (env_Must (env_Parse P environ TInt ''SQL_MAX_OPEN_CONNECTIONS'')) (\<lambda>maxOpen.
     and_then (env_Must (env_Parse P environ TInt ''SQL_MAX_IDLE_CONNECTIONS'')) (\<lambda>maxIdle.
     and_then (env_Must (env_ParseOptional P environ (TPtr TDuration) ''SQL_CONNECTION_TIMEOUT'')) (\<lambda>timeout.
       Returns \<lparr>cfg_DSN = \<lparr>dsn_User = dyn_string user, dsn_Password = dyn_string password, dsn_Address = dyn_string address,
                  dsn_Database = dyn_string database\<rparr>,
                cfg_MaxOpenConnections = dyn_int maxOpen, cfg_MaxIdleConnections = dyn_int maxIdle,
                cfg_ConnectionTimeout = (case timeout of None \<Rightarrow> 0 | Some v \<Rightarrow> dyn_int v)\<rparr>)))))))"

definition sqlDatabaseProvider :: "value_parsers \<Rightarrow> (string \<rightharpoonup> string) \<Rightarrow> ('c, 'd) sql_driver \<Rightarrow> 'd retry \<Rightarrow> ('c, 'd) provider" where
  "sqlDatabaseProvider P environ D retry d =
     (case sql_config_of P environ of
        Panics \<Rightarrow> (Panics, d)
      | Returns config \<Rightarrow>
          (case NewDatabase D retry config d of
             (Inl e, d') \<Rightarrow> (Panics, d')
           | (Inr db, d') \<Rightarrow> (Returns (Inr db), d')))"

section \<open>The end of a process\<close>

text \<open>
  \<^verbatim>\<open>Close\<close>, deferred in every \<^verbatim>\<open>main\<close>: it recovers a panic, logs it, and leaves with status 1 after the database has been closed.  The logger's provider
  cannot fail, and loading it a second time gives the same logger.
\<close>

record 'd process =
  ps_driver :: 'd
  ps_log :: "obs list"
  ps_exit :: "int option"

definition container_Close :: "('c, 'd) sql_driver \<Rightarrow> logger \<Rightarrow> 'c loader \<Rightarrow> bool \<Rightarrow> fields \<Rightarrow> 'd process \<Rightarrow> 'd process" where
  "container_Close D logger DB panicked ctx p =
     (let p1 = (if panicked then p\<lparr>ps_log := ps_log p @ written (log_Error (log_WithField logger ''panic'' (FFields [])) (Some ctx) ''app failed with panic'')\<rparr> else p);
          p2 = IfLoaded (\<lambda>db p. case dr_Close D db (ps_driver p) of
                   (None, d) \<Rightarrow> p\<lparr>ps_driver := d\<rparr>
                 | (Some e, d) \<Rightarrow> p\<lparr>ps_driver := d, ps_log := ps_log p @ written (log_Error (log_WithError logger (Some e)) (Some ctx) ''failed to close postgresql database'')\<rparr>)
               DB p1
      in if panicked then p2\<lparr>ps_exit := Some 1\<rparr> else p2)"

section \<open>What the providers guarantee\<close>

lemma env_Parse_string: "env_Parse P environ TString key = Returns (case environ key of None \<Rightarrow> Inl notFoundError | Some s \<Rightarrow> Inr (VString s))"
  by (simp add: env_Parse_def ParseTypedValue_def split: option.split)

lemma logLevelMap_disabled: "logLevelMap s = Some LevelDisabled \<Longrightarrow> s = ''disabled''"
  by (auto simp: logLevelMap_def split: if_splits)

text \<open>The logger is always there: at the level that \<^verbatim>\<open>LOG_LEVEL\<close> names, and at the info level when it names none.\<close>

lemma configured_logger:
  "\<exists>lvl. loggerProvider P environ = Returns (Inr (log_New lvl))
    \<and> (case Option.bind (environ ''LOG_LEVEL'') logLevelMap of Some named \<Rightarrow> lvl = named | None \<Rightarrow> lvl = LevelInfo)"
  by (auto simp: loggerProvider_def env_Parse_string split: option.splits)

lemma loads_once: "loads provider (Suc n) l w = (case Load provider l w of (r, l', w') \<Rightarrow>
    (r # replicate n (Returns (lo_value l', lo_err l')), l', w'))"
proof -
  obtain r l' w' where l: "Load provider l w = (r, l', w')" by (metis surj_pair)
  then have "lo_onceLoad l'" by (auto simp: Load_def Let_def split: if_splits prod.splits outcome.splits sum.splits)
  with l show ?thesis by (simp add: loads_done)
qed

lemma database_loaded:
  assumes D: "driver_ok D pools" and R: "retry_ok retry" and run: "loads (sqlDatabaseProvider P environ D retry) n (lazy_New zero) d = (rs, l, d')"
  shows "if lo_isLoaded l then pools d' = insert (lo_value l) (pools d) \<and> lo_value l \<notin> pools d else pools d' = pools d"
proof (cases n)
  case 0
  then show ?thesis using run by (auto simp: lazy_New_def)
next
  case (Suc k)
  obtain r d1 where p: "sqlDatabaseProvider P environ D retry d = (r, d1)" by force
  have l: "(l, d') = snd (Load (sqlDatabaseProvider P environ D retry) (lazy_New zero) d)"
    using run unfolding Suc loads_once by (auto split: prod.splits)
  have "case r of Returns (Inr db) \<Rightarrow> db \<notin> pools d \<and> pools d1 = insert db (pools d) | Panics \<Rightarrow> pools d1 = pools d | _ \<Rightarrow> False"
  proof (cases "sql_config_of P environ")
    case (Returns config)
    obtain q d2 where q: "NewDatabase D retry config d = (q, d2)" by force
    from new_database_leaves_no_pool [OF D R q] p q Returns show ?thesis by (auto simp: sqlDatabaseProvider_def split: sum.splits)
  qed (use p in \<open>auto simp: sqlDatabaseProvider_def\<close>)
  then show ?thesis using l p by (cases r) (auto simp: Load_def lazy_New_def Let_def split: sum.splits)
qed

text \<open>
  C32. How a process ends.  However often and with whatever outcome the database was loaded - never, refused by the environment, given up after the connection
  timeout, or opened - \<^verbatim>\<open>Close\<close> leaves no pool of connections open; the exit status is 1 exactly after a panic, which is logged unless the logger is
  disabled.
\<close>

theorem process_leaves_no_pool:
  assumes "driver_ok D pools" and "retry_ok retry" and "pools d = {}"
    and "loads (sqlDatabaseProvider P environ D retry) n (lazy_New zero) d = (rs, l, d')" and "loggerProvider P environ = Returns (Inr logger)"
    and p_def: "p = container_Close D logger l panicked ctx \<lparr>ps_driver = d', ps_log = lg, ps_exit = None\<rparr>"
  shows "pools (ps_driver p) = {} \<and> ps_exit p = (if panicked then Some 1 else None)
    \<and> (panicked \<and> environ ''LOG_LEVEL'' \<noteq> Some ''disabled'' \<longrightarrow>
        (\<exists>fs more. ps_log p = lg @ ObsLog LevelError ''app failed with panic'' fs # more))"
proof -
  have pools: "pools (snd (dr_Close D db d)) = pools d - {db}" for db d using assms(1) by (simp add: driver_ok_def)
  have "pools (ps_driver p) = {}"
    using database_loaded [OF assms(1,2,4)] assms(3) pools [of "lo_value l" d']
    by (cases "dr_Close D (lo_value l) d'") (auto simp: p_def container_Close_def IfLoaded_def Let_def split: if_splits option.splits)
  moreover have "ps_exit p = (if panicked then Some 1 else None)"
    by (auto simp: p_def container_Close_def IfLoaded_def Let_def split: prod.splits option.splits)
  moreover have "\<exists>fs more. ps_log p = lg @ ObsLog LevelError ''app failed with panic'' fs # more"
    if t: "panicked" "environ ''LOG_LEVEL'' \<noteq> Some ''disabled''"
  proof -
    obtain lvl where lvl: "logger = log_New lvl" "lvl \<noteq> LevelDisabled" using configured_logger [of P environ] assms(5) t(2)
      by (fastforce simp: bind_eq_Some_conv split: option.splits dest: logLevelMap_disabled)
    then have "written (log_Error (log_WithField logger ''panic'' (FFields [])) (Some ctx) ''app failed with panic'')
        = [ObsLog LevelError ''app failed with panic'' ([(''panic'', FFields [])] @ ctx)]"
      by (cases lvl) (auto simp: log_New_def log_Error_def written_def)
    then show ?thesis using t(1) by (auto simp: p_def container_Close_def IfLoaded_def Let_def split: prod.splits option.splits)
  qed
  ultimately show ?thesis by blast
qed

definition example_driver :: "(nat, nat list) sql_driver" where
  "example_driver = \<lparr>dr_Open = (\<lambda>s d. (Inr (Suc (sum_list d)), Suc (sum_list d) # d)), dr_Ping = (\<lambda>db d. (None, d)), dr_Close = (\<lambda>db d. (None, removeAll db d)),
     dr_SetMaxOpenConns = (\<lambda>db n d. d), dr_SetMaxIdleConns = (\<lambda>db n d. d)\<rparr>"

definition example_environment :: "string \<rightharpoonup> string" where
  "example_environment = [''SQL_USER'' \<mapsto> ''u'', ''SQL_PASSWORD'' \<mapsto> ''p'', ''SQL_ADDRESS'' \<mapsto> ''h'', ''SQL_DATABASE'' \<mapsto> ''d'',
     ''SQL_MAX_OPEN_CONNECTIONS'' \<mapsto> ''5'', ''SQL_MAX_IDLE_CONNECTIONS'' \<mapsto> ''5'', ''LOG_LEVEL'' \<mapsto> ''warn'']"

lemma example_driver_ok: "driver_ok example_driver set" "retry_ok (\<lambda>_ op d. op d)"
proof -
  have "Suc (sum_list d) \<notin> set d" for d :: "nat list" using member_le_sum_list [of "Suc (sum_list d)" d] by auto
  then show "driver_ok example_driver set" by (auto simp: driver_ok_def example_driver_def)
qed (auto simp: retry_ok_def intro: attempts.last)

lemma example_loaded:
  "loads (sqlDatabaseProvider no_parsers example_environment example_driver (\<lambda>_ op d. op d)) 2 (lazy_New 0) []
     = ([Returns (1, None), Returns (1, None)], \<lparr>lo_onceLoad = True, lo_isLoaded = True, lo_value = 1, lo_err = None\<rparr>, [1])"
  "loggerProvider no_parsers example_environment = Returns (Inr (Logger LevelWarn []))"
  by code_simp+

theorem process_leaves_no_pool_witness:
  "let l = \<lparr>lo_onceLoad = True, lo_isLoaded = True, lo_value = 1, lo_err = None\<rparr>;
       p = container_Close example_driver (Logger LevelWarn []) l True [] \<lparr>ps_driver = [1], ps_log = [], ps_exit = None\<rparr>
   in ps_driver p = [] \<and> ps_exit p = Some 1"
  using process_leaves_no_pool [OF example_driver_ok, of "[]", OF _ example_loaded refl, of True "[]" "[]"] by (simp add: Let_def)

end
