(* ===== verification/Local_Events.thy ===== *)
theory Local_Events
  imports Bus_Producer
begin

text \<open>
  \<^verbatim>\<open>pkg/event/event.go\<close>, the in-process dispatcher, and the adjustable clock of \<^verbatim>\<open>pkg/time\<close>.  Events are
  Go interface values as in theory \<open>Bus_Producer\<close>.
\<close>

section \<open>Dispatcher\<close>

type_synonym 'w event_handler = "sql_ctx \<Rightarrow> structured_message \<Rightarrow> 'w \<Rightarrow> err \<times> 'w"

text \<open>\<^verbatim>\<open>RegisterHandler[T]\<close>, for the blank value of \<^verbatim>\<open>T\<close>.\<close>

definition RegisterHandler :: "structured_message \<Rightarrow> 'w event_handler \<Rightarrow> go_error + string \<times> 'w event_handler" where
  "RegisterHandler blankEvent handler =
     (if sm_Type blankEvent = [] then Inl (errors_new ''get event type: blank event must return const value'')
      else Inr (sm_Type blankEvent, \<lambda>ctx event w.
        if sm_goType event \<noteq> sm_goType blankEvent then (Some (errors_new ''invalid event struct type''), w)
        else handler ctx event w))"

fun register_local_handlers ::
    "(go_error + string \<times> 'w event_handler) list \<Rightarrow> (string \<rightharpoonup> 'w event_handler) \<Rightarrow> go_error + (string \<rightharpoonup> 'w event_handler)" where
  "register_local_handlers [] m = Inr m"
| "register_local_handlers (f # fs) m =
     (case f of
        Inl e \<Rightarrow> Inl e
      | Inr (eventType, handler) \<Rightarrow>
          if m eventType \<noteq> None then Inl (errors_new ''event handler already exists'')
          else register_local_handlers fs (m(eventType \<mapsto> handler)))"

definition NewDispatcher ::
    "(go_error + string \<times> 'w event_handler) \<Rightarrow> (go_error + string \<times> 'w event_handler) list
      \<Rightarrow> go_error + (string \<rightharpoonup> 'w event_handler)" where
  "NewDispatcher handler handlers = register_local_handlers (handler # handlers) Map.empty"

fun dispatcher_Dispatch ::
    "(string \<rightharpoonup> 'w event_handler) \<Rightarrow> sql_ctx \<Rightarrow> structured_message list \<Rightarrow> 'w \<Rightarrow> err \<times> 'w" where
  "dispatcher_Dispatch d ctx [] w = (None, w)"
| "dispatcher_Dispatch d ctx (evt # events) w =
     (case d (sm_Type evt) of
        None \<Rightarrow> (Some (errors_new ''handler not registered''), w)
      | Some handler \<Rightarrow>
          (case handler ctx evt w of
             (Some e, w') \<Rightarrow> (Some (errorf ''handle event'' e), w')
           | (None, w') \<Rightarrow> dispatcher_Dispatch d ctx events w'))"

section \<open>Clock\<close>

text \<open>The instant stored under \<^verbatim>\<open>nowContextKey\<close>, if any; \<open>wall\<close> is what \<^verbatim>\<open>time.Now\<close> gives.\<close>

definition clock_Now :: "time option \<Rightarrow> time \<Rightarrow> time" where
  "clock_Now ctx wall = (case ctx of Some t \<Rightarrow> t | None \<Rightarrow> wall)"

definition clock_Set :: "time option \<Rightarrow> time \<Rightarrow> time option" where
  "clock_Set ctx t = Some t"

definition clock_Freeze :: "time option \<Rightarrow> time \<Rightarrow> time option" where
  "clock_Freeze ctx wall = (case ctx of Some _ \<Rightarrow> ctx | None \<Rightarrow> clock_Set ctx wall)"

section \<open>Properties\<close>

lemma register_handlers_ok:
  assumes "register_local_handlers rs m = Inr d"
  shows "\<exists>hs. rs = map Inr hs \<and> distinct (map fst hs) \<and> fst ` set hs \<inter> dom m = {} \<and> d = m ++ map_of hs"
  using assms
proof (induction rs arbitrary: m)
  case Nil
  then show ?case by simp
next
  case (Cons r rs)
  then obtain ty h where r: "r = Inr (ty, h)" "m ty = None" "register_local_handlers rs (m(ty \<mapsto> h)) = Inr d"
    by (auto split: sum.splits if_splits)
  from Cons.IH [OF r(3)] obtain hs where hs: "rs = map Inr hs" "distinct (map fst hs)"
    "fst ` set hs \<inter> dom (m(ty \<mapsto> h)) = {}" "d = m(ty \<mapsto> h) ++ map_of hs" by blast
  then have "ty \<notin> fst ` set hs" by auto
  moreover have "m(ty \<mapsto> h) ++ map_of hs = m ++ map_of ((ty, h) # hs)"
    using \<open>ty \<notin> fst ` set hs\<close> by (simp add: map_add_upd_left dom_map_of_conv_image_fst)
  ultimately have "d = m ++ map_of ((ty, h) # hs)" "distinct (map fst ((ty, h) # hs))" using hs by simp_all
  moreover have "fst ` set ((ty, h) # hs) \<inter> dom m = {}" using hs(3) r(2) by auto
  moreover have "r # rs = map Inr ((ty, h) # hs)" using hs(1) r(1) by simp
  ultimately show ?case by (intro exI [of _ "(ty, h) # hs"] conjI)
qed

text \<open>The prefix of the events handled before the first failure.\<close>

definition handled_in_order ::
    "(string \<rightharpoonup> 'w event_handler) \<Rightarrow> sql_ctx \<Rightarrow> structured_message list \<Rightarrow> 'w \<Rightarrow> 'w \<Rightarrow> bool" where
  "handled_in_order d ctx events w w' \<longleftrightarrow>
     (\<exists>ws. length ws = length events \<and> (w # ws) ! length events = w'
       \<and> (\<forall>i < length events. \<exists>h. d (sm_Type (events ! i)) = Some h \<and> h ctx (events ! i) ((w # ws) ! i) = (None, ws ! i)))"

lemma Dispatch_ok: "dispatcher_Dispatch d ctx events w = (None, w') \<Longrightarrow> handled_in_order d ctx events w w'"
proof (induction events arbitrary: w)
  case Nil
  then show ?case by (simp add: handled_in_order_def)
next
  case (Cons ev events)
  then obtain h w1 where h: "d (sm_Type ev) = Some h" "h ctx ev w = (None, w1)" "dispatcher_Dispatch d ctx events w1 = (None, w')"
    by (auto split: option.splits prod.splits)
  from Cons.IH [OF h(3)] obtain ws where ws: "length ws = length events" "(w1 # ws) ! length events = w'"
    "\<forall>i < length events. \<exists>h. d (sm_Type (events ! i)) = Some h \<and> h ctx (events ! i) ((w1 # ws) ! i) = (None, ws ! i)"
    by (auto simp: handled_in_order_def)
  show ?case unfolding handled_in_order_def
  proof (intro exI [of _ "w1 # ws"] conjI allI impI)
    fix i assume "i < length (ev # events)"
    then show "\<exists>h. d (sm_Type ((ev # events) ! i)) = Some h \<and> h ctx ((ev # events) ! i) ((w # w1 # ws) ! i) = (None, (w1 # ws) ! i)"
      using h ws by (cases i) auto
  qed (use ws in auto)
qed

text \<open>
  A dispatcher is built exactly from registrations of distinct, non-blank event types, and each event goes
  to the handler of its type: \<^verbatim>\<open>Dispatch\<close> returns nil only if every event of the batch, in order, was
  handled without an error by it, each on the state the one before left.
\<close>

theorem dispatcher_handles_in_order:
  assumes "NewDispatcher r rs = Inr d"
  shows "(\<exists>hs. r # rs = map Inr hs \<and> distinct (map fst hs) \<and> d = map_of hs)
    \<and> (fst (dispatcher_Dispatch d ctx events w) = None \<longrightarrow>
         handled_in_order d ctx events w (snd (dispatcher_Dispatch d ctx events w)))"
  using register_handlers_ok [OF assms [unfolded NewDispatcher_def]] Dispatch_ok [of d ctx events w]
  by (metis empty_map_add prod.collapse)

definition counting_handler :: "nat event_handler" where
  "counting_handler ctx ev n = (None, Suc n)"

theorem dispatcher_handles_in_order_witness:
  "\<exists>d. NewDispatcher (RegisterHandler (example_event 0) counting_handler) [] = Inr d
    \<and> handled_in_order d background [example_event 1, example_event 2] 0 2"
proof -
  obtain d where d: "NewDispatcher (RegisterHandler (example_event 0) counting_handler) [] = Inr d"
    by (simp add: NewDispatcher_def RegisterHandler_def example_event_def)
  then have "dispatcher_Dispatch d background [example_event 1, example_event 2] 0 = (None, 2)"
    by (auto simp: NewDispatcher_def RegisterHandler_def example_event_def counting_handler_def)
  with dispatcher_handles_in_order [OF d, of background "[example_event 1, example_event 2]" 0] d show ?thesis by auto
qed

end
