(* ===== verification/Spec2Isabelle.thy ===== *)
theory Spec2Isabelle
  imports Outbox Event_Handling Message_Hooks Http_Client Sql_Migration Infrastructure Local_Events
begin

text \<open>
  A verification library for the Go service template in \<^verbatim>\<open>src/\<close>: two services, users and user profiles, on top of packages for
  messages, SQL, HTTP, authentication, workers and configuration.

  \<^bold>\<open>The program.\<close>  The user service (\<^verbatim>\<open>internal/user\<close>) registers, deletes and authenticates users; the profile service
  (\<^verbatim>\<open>internal/userprofile\<close>) keeps a profile per user.  Both are called over HTTP (\<^verbatim>\<open>pkg/http\<close>) behind a gateway that turns a session cookie into a
  header.  Deleting a user stores an event in the message storage in the same transaction (\<^verbatim>\<open>pkg/message\<close>, \<^verbatim>\<open>pkg/sql\<close>); the storage consumer or the outbox
  hands stored messages on, a listener gives them to the handlers, and the profile service's handler, made idempotent by a key
  (\<^verbatim>\<open>pkg/idk\<close>), asks the user service over HTTP and removes the profile.

  \<^bold>\<open>Conventions.\<close>  State is passed explicitly.  An error is a value of \<^typ>\<open>go_error\<close> with its wrap chain, a nil error is \<^const>\<open>None\<close>, a pair of result and
  error is a sum where the source returns one of them, and a panic is the outcome \<^const>\<open>Panics\<close>.  Texts that are formatted into an error
  are kept up to their arguments.  Contexts are records of the values the program stores in them; what happens concurrently is a step relation, and its
  theorems hold for every interleaving.  Pointers that are compared are numbers.  Identifiers are words of 128 bits, instants are integers.

  \<^bold>\<open>Theories and sources.\<close>
  \<^item> \<^verbatim>\<open>Go_Prelude\<close>: errors, outcomes, the string functions of the Go library, shared lemmas.
  \<^item> \<^verbatim>\<open>Message_Model\<close> (\<^verbatim>\<open>pkg/message/message.go, topic.go, subscriber.go, broker.go\<close>): messages and topic names; a topic name determines the domain and aggregate
    it was built from.
  \<^item> \<^verbatim>\<open>Log_Model\<close> (\<^verbatim>\<open>pkg/log, pkg/metric\<close>): loggers as level and attributes, metrics as labels; what they emit is recorded.
  \<^item> \<^verbatim>\<open>Auth_Model\<close> (\<^verbatim>\<open>pkg/auth, internal/pkg/auth\<close>, the permissions of both domains): tokens, principals, checks and filters; the access matrix, and that filters agree with
    checks.  The permissions share the locale \<open>owned_permission\<close>.
  \<^item> \<^verbatim>\<open>Sql_Client\<close> (\<^verbatim>\<open>pkg/sql/context.go, lock.go\<close>, the client of \<^verbatim>\<open>transaction.go\<close>): a database server with tables, connections, open transactions, advisory locks and an arbitrary
    schedule of faults (a request or its reply is lost, or the statement fails), and the routing of statements.
  \<^item> \<^verbatim>\<open>Sql_Transaction\<close> (\<^verbatim>\<open>transaction.go, pkg/persistence\<close>): \<^verbatim>\<open>WithinContext\<close> commits what its function last saw or nothing, nesting, locks in key order.
  \<^item> \<^verbatim>\<open>Sql_Migration\<close> (\<^verbatim>\<open>pkg/sql/migration.go, internal/pkg/cmd/sqlmigration.go\<close>): migrations are applied once, in order, whole or not at all.
  \<^item> \<^verbatim>\<open>Message_Storage\<close> (\<^verbatim>\<open>pkg/message/storage.go, pkg/sql/messagestorage.go\<close>): the contract of a storage as the locales \<open>message_storage\<close> and \<open>reliable_storage\<close>, and the SQL storage as
    their instance.
  \<^item> \<^verbatim>\<open>Outbox\<close> (\<^verbatim>\<open>outbox.go\<close>): the worker over any storage that keeps the contract: nothing is lost, everything due is sent when nothing fails, and what a failed
    release hides.
  \<^item> \<^verbatim>\<open>Listener_Queue\<close> (\<^verbatim>\<open>listenerqueue.go\<close>): the three queues as instances of the locale \<open>processing_queue\<close>, and the commit-offset queue as a refinement of an offset log.
  \<^item> \<^verbatim>\<open>Bus_Producer\<close> (\<^verbatim>\<open>serializer.go, busproducer.go, event.go, task.go, pkg/observability\<close>): registration, construction and production of messages.
  \<^item> \<^verbatim>\<open>Listener\<close>, \<^verbatim>\<open>Listener_Worker\<close> (\<^verbatim>\<open>listener.go, buslistener.go, metadata.go\<close>): the handlers and their middlewares, the processing of one message, and the whole worker with its
    goroutines, which refines the protocol of the queue and acknowledges or commits only what has been handled.
  \<^item> \<^verbatim>\<open>Storage_Consumer\<close> (\<^verbatim>\<open>storageconsumer.go\<close>): the consumer of stored messages over any storage that keeps the contract.
  \<^item> \<^verbatim>\<open>Delivery\<close>: the storage consumer and the listener over its acknowledgements running together; a stored message leaves the storage only after its handlers have succeeded.
  \<^item> \<^verbatim>\<open>Message_Hooks\<close>: the options of listener and storage consumer, and what their hooks for logging and metrics report.
  \<^item> \<^verbatim>\<open>Event_Handling\<close> (\<^verbatim>\<open>messageBusListenerProvider\<close>, \<^verbatim>\<open>MustRegisterMessageHandlers\<close>): the message handler worker as it is configured; what its handlers do to the database is followed
    through every run, and a deleted user's event leaves the storage only when the profile is gone.
  \<^item> \<^verbatim>\<open>Idempotency\<close> (\<^verbatim>\<open>pkg/idk, pkg/sql/idempotencykey.go\<close>).
  \<^item> \<^verbatim>\<open>User_Service\<close>, \<^verbatim>\<open>User_Deletion\<close>, \<^verbatim>\<open>Encoding\<close>, \<^verbatim>\<open>User_Session\<close> (\<^verbatim>\<open>internal/user\<close>): registration, deletion with its event through the bus of the container (locale \<open>event_outbox\<close>),
    MD5, hexadecimal and base64, sessions.
  \<^item> \<^verbatim>\<open>User_Profile\<close> (\<^verbatim>\<open>internal/userprofile\<close>): profiles, and the handler of deleted users.
  \<^item> \<^verbatim>\<open>Typed_Value\<close> (\<^verbatim>\<open>pkg/strings/utils.go, pkg/env\<close>), \<^verbatim>\<open>Lazy_Loader\<close> (\<^verbatim>\<open>pkg/lazy\<close>), \<^verbatim>\<open>Local_Events\<close> (\<^verbatim>\<open>pkg/event, pkg/time\<close>), \<^verbatim>\<open>Worker\<close> (\<^verbatim>\<open>pkg/worker, pkg/cmd/run.go\<close>).
  \<^item> \<^verbatim>\<open>Infrastructure\<close> (\<^verbatim>\<open>pkg/sql/database.go\<close>, the providers of the container that read the environment, \<^verbatim>\<open>InfrastructureContainer.Close\<close>): opening the database and the end of a process.
  \<^item> \<^verbatim>\<open>Http_Parser\<close>, \<^verbatim>\<open>Http_Server\<close>, \<^verbatim>\<open>Http_Access\<close>, \<^verbatim>\<open>Http_Handlers\<close>, \<^verbatim>\<open>Http_Client\<close> (\<^verbatim>\<open>pkg/http, internal/pkg/http\<close>, the handlers and clients of both services, \<^verbatim>\<open>httpServerProvider\<close> and
    \<^verbatim>\<open>httpClientFactoryProvider\<close> of the container): extractors (locale \<open>extractor\<close>), deferred writers and the handler wrapper, middlewares that only observe (locale \<open>observing_mw\<close>), the
    composed server, every endpoint, and a lookup of the profile service from its client to the users table and back.

  \<^bold>\<open>Composition.\<close>  The theorems about the outbox and the storage consumer are proved from the contract of the storage and hold for the SQL one; \<^verbatim>\<open>Delivery\<close> lets
  the storage consumer, the listener's loop and its goroutines interleave, and \<^verbatim>\<open>Event_Handling\<close> adds the configured handler and its database; deletion runs through transaction, repository, bus
  and storage; \<^verbatim>\<open>Http_Access\<close> and \<^verbatim>\<open>Http_Handlers\<close> run a request through all middlewares to the service and the database; \<^verbatim>\<open>Http_Client\<close> connects the two services.  Examples evaluate
  the definitions on concrete inputs, so that no theorem is about an empty case.

  \<^bold>\<open>Loops and bounds.\<close>  Loops over data are structural recursion.  The loop of the outbox has fuel, and more fuel than stored messages is enough when nothing fails; that it does not
  return with any fuel in the case of a hidden error is a theorem.  Workers that run until they are cancelled are step relations.  Integers that
  \<^verbatim>\<open>strconv\<close> parses keep their 64 bit range; words are used for identifiers, MD5 and base64.

  \<^bold>\<open>Parameters.\<close>  Code outside the repository is an argument: the JSON package (with the assumption that it reads back what it writes, where a theorem needs it), the formats of times, floats
  and identifiers, \<^verbatim>\<open>uuid.NewSHA1\<close>, the case converter, \<^verbatim>\<open>backoff.Retry\<close>, brokers and producers, the database driver that opens a pool, the CORS middleware, the REST library and the network, the order that an unstable sort gives to equal
  elements, and the meaning of the queries in migration files.  Each assumption has an instance in an example.

  \<^bold>\<open>Not modelled.\<close>  Entry points other than the message handler worker, and signal handling (\<^verbatim>\<open>cmd\<close>, \<^verbatim>\<open>pkg/cmd/term.go\<close>), embedded files (\<^verbatim>\<open>data\<close>), stubs, generated converters beyond
  the fields they copy, and the providers of the containers that only pass loaders on.  The router's choice of a route, timeouts, multipart bodies and raw query strings are left out.  A statement that fails in a transaction
  does not abort the transaction in the model, so the model has more behaviours than PostgreSQL.  In \<^verbatim>\<open>Event_Handling\<close> the message table and the tables of the profile domain, which no transaction writes together,
  are two databases.  Memory races are modelled where they have an effect (\<^verbatim>\<open>Storage_Consumer\<close>).  Mutexes are atomic steps.
\<close>

end
